(* ===== verification/Muster_Prelude.thy ===== *)
theory Muster_Prelude
  imports Main "HOL-Library.Word"
begin

text \<open>
  Shared vocabulary of the development: Go errors and results, durations and instants, and
  arithmetic at Go's widths. Strings are byte lists; where the code iterates over runes the
  model reads a string of ASCII bytes.
\<close>

section \<open>Errors and results\<close>

text \<open>
  A Go error is kept symbolically: the format string with its unformatted arguments
  (\<open>Errorf\<close>), the same with a wrapped cause for the \<^verbatim>\<open>%w\<close> verb (\<open>Wrapf\<close>), the
  sentinels the sources compare against, and errors made outside the repository (\<open>External\<close>).
\<close>

datatype go_error =
    Errorf string "string list"
  | Wrapf string "string list" go_error
  | ErrUnsupported
  | ErrNotConfigured
  | ErrRetriesExhausted
  | CtxCanceled
  | DeadlineExceeded
  | External string

type_synonym 'a go_result = "go_error + 'a"

text \<open>\<^verbatim>\<open>errors.Is\<close> follows the chain of wrapped causes.\<close>

fun errors_is :: "go_error \<Rightarrow> go_error \<Rightarrow> bool" where
  "errors_is (Wrapf f xs e) t = (Wrapf f xs e = t \<or> errors_is e t)"
| "errors_is e t = (e = t)"

lemma errors_is_refl [simp]: "errors_is e e"
  by (cases e) auto

lemma errors_is_wrapf [intro]: "errors_is e t \<Longrightarrow> errors_is (Wrapf f xs e) t"
  by simp

section \<open>Time\<close>

text \<open>
  A \<^verbatim>\<open>time.Duration\<close> is a number of nanoseconds and an instant is a number of nanoseconds
  since the epoch. The zero \<^verbatim>\<open>time.Time\<close>, which the stores use for "no expiry", is
  \<open>None\<close> of \<open>time option\<close>, so \<^verbatim>\<open>IsZero\<close> is a comparison with \<open>None\<close>.
\<close>

type_synonym duration = int
type_synonym time = int

abbreviation millisecond :: duration where
  "millisecond \<equiv> 1000000"

abbreviation second :: duration where
  "second \<equiv> 1000000000"

section \<open>Machine integers\<close>

text \<open>Go's \<^verbatim>\<open>int\<close>, \<^verbatim>\<open>int64\<close> and \<^verbatim>\<open>time.Duration\<close> are 64-bit two's complement: the value an operation wraps to.\<close>

definition wrap64 :: "int \<Rightarrow> int" where
  "wrap64 i = (i + 2 ^ 63) mod 2 ^ 64 - 2 ^ 63"

lemma wrap64_id: "- (2 ^ 63) \<le> i \<Longrightarrow> i < 2 ^ 63 \<Longrightarrow> wrap64 i = i"
  by (simp add: wrap64_def)

lemma wrap64_range: "- (2 ^ 63) \<le> wrap64 i \<and> wrap64 i < 2 ^ 63"
  using pos_mod_bound [of "2 ^ 64" "i + 2 ^ 63"] by (simp add: wrap64_def)

section \<open>Collections of facts\<close>

named_theorems kv_simps \<open>unfolding rules of the key/value stores\<close>
named_theorems step_simps \<open>unfolding rules of the state machines\<close>

section \<open>Maps and lists\<close>

lemma option_cases_map [simp]:
  "(case map_option f x of None \<Rightarrow> a | Some y \<Rightarrow> g y) = (case x of None \<Rightarrow> a | Some y \<Rightarrow> g (f y))"
  by (cases x) auto

lemma triple_eta: "x = (fst x, fst (snd x), snd (snd x))"
  by simp

lemma takeWhile_append_stop:
  assumes "list_all P xs" and "\<not> P y"
  shows "takeWhile P (xs @ y # ys) = xs"
  using assms by (induction xs) auto

lemma dropWhile_append_stop:
  assumes "list_all P xs" and "\<not> P y"
  shows "dropWhile P (xs @ y # ys) = y # ys"
  using assms by (induction xs) auto

end
