(* ===== verification/KV_Spec.thy ===== *)
theory KV_Spec
  imports Muster_Prelude
begin

text \<open>
  The contract of \<^verbatim>\<open>provider.KVStore\<close> (internal/provider/kv.go): a conditional-write
  store of leases. \<open>kv_spec\<close> states what each of the five operations does to an abstract
  map of leases; a \<open>lease_rule\<close> says when a backend counts a lease as live, when as
  claimable, and which deadline it gives a new one, because the backends differ in
  granularity. The locale \<open>kv_contract\<close> is the promise a backend makes about its own
  state, transport failures included; \<open>kv_reliable\<close> is the promise of a backend that does
  not fail. Seed election and the lease guarantees are proved once, from the promise.
\<close>

section \<open>Leases and operations\<close>

record lease =
  l_val :: string
  l_owner :: string
  l_exp :: "time option"

type_synonym kv_map = "string \<rightharpoonup> lease"

record lease_rule =
  live_at :: "time \<Rightarrow> lease \<Rightarrow> bool"
  lapsed_at :: "time \<Rightarrow> lease \<Rightarrow> bool"
  expiry_at :: "time \<Rightarrow> duration \<Rightarrow> time option"

datatype kv_op =
    PutIfAbsent string string duration
  | CompareAndSwap string string string duration
  | Get string
  | Delete string "string option"
  | Renew string duration

datatype kv_res = RBool bool | RVal "string option" | RErr go_error

fun op_key :: "kv_op \<Rightarrow> string" where
  "op_key (PutIfAbsent k _ _) = k"
| "op_key (CompareAndSwap k _ _ _) = k"
| "op_key (Get k) = k"
| "op_key (Delete k _) = k"
| "op_key (Renew k _) = k"

definition new_lease :: "lease_rule \<Rightarrow> string \<Rightarrow> time \<Rightarrow> string \<Rightarrow> duration \<Rightarrow> lease" where
  "new_lease ru own t v ttl = \<lparr>l_val = v, l_owner = own, l_exp = expiry_at ru t ttl\<rparr>"

definition renew_error :: "string \<Rightarrow> go_error" where
  "renew_error k = Errorf ''kv renew %q: ttl must be positive'' [k]"

fun kv_spec :: "lease_rule \<Rightarrow> string \<Rightarrow> time \<Rightarrow> kv_op \<Rightarrow> kv_map \<Rightarrow> kv_res \<times> kv_map" where
  "kv_spec ru own t (PutIfAbsent k v ttl) m =
     (if (case m k of None \<Rightarrow> True | Some l \<Rightarrow> lapsed_at ru t l)
      then (RBool True, m(k \<mapsto> new_lease ru own t v ttl)) else (RBool False, m))"
| "kv_spec ru own t (CompareAndSwap k old new ttl) m =
     (if (case m k of None \<Rightarrow> False | Some l \<Rightarrow> live_at ru t l \<and> l_val l = old)
      then (RBool True, m(k \<mapsto> new_lease ru own t new ttl)) else (RBool False, m))"
| "kv_spec ru own t (Get k) m =
     (RVal (case m k of None \<Rightarrow> None | Some l \<Rightarrow> if live_at ru t l then Some (l_val l) else None), m)"
| "kv_spec ru own t (Delete k ifv) m =
     (case ifv of
        None \<Rightarrow> (RBool True, m(k := None))
      | Some v \<Rightarrow> (if (case m k of None \<Rightarrow> False | Some l \<Rightarrow> l_val l = v)
                  then (RBool True, m(k := None)) else (RBool False, m)))"
| "kv_spec ru own t (Renew k ttl) m =
     (if ttl \<le> 0 then (RErr (renew_error k), m)
      else case m k of
             None \<Rightarrow> (RBool False, m)
           | Some l \<Rightarrow> (if live_at ru t l \<and> l_exp l \<noteq> None \<and> l_owner l = own
                       then (RBool True, m(k \<mapsto> l\<lparr>l_exp := expiry_at ru t ttl\<rparr>))
                       else (RBool False, m)))"

section \<open>What the specification guarantees in one step\<close>

lemma kv_spec_frame: "op_key op \<noteq> k \<Longrightarrow> snd (kv_spec ru own t op m) k = m k"
  by (cases op) (auto split: option.splits)

text \<open>The operations that may change a live entry: those that name its value, or its owner's renewal.\<close>

definition entitled :: "string \<Rightarrow> lease \<Rightarrow> string \<Rightarrow> kv_op \<Rightarrow> bool" where
  "entitled k l own op =
     (case op of
        CompareAndSwap k' old _ _ \<Rightarrow> k' = k \<and> old = l_val l
      | Delete k' ifv \<Rightarrow> k' = k \<and> (ifv = None \<or> ifv = Some (l_val l))
      | Renew k' _ \<Rightarrow> k' = k \<and> own = l_owner l \<and> l_exp l \<noteq> None
      | _ \<Rightarrow> False)"

lemma kv_spec_unlapsed_protected:
  assumes "m k = Some l" and "\<not> lapsed_at ru t l" and "\<not> entitled k l own op"
  shows "snd (kv_spec ru own t op m) k = Some l"
proof (cases "op_key op = k")
  case False
  then show ?thesis using assms(1) by (simp add: kv_spec_frame)
next
  case True
  then show ?thesis using assms by (cases op) (auto simp: entitled_def split: option.splits)
qed

lemma kv_spec_put_unlapsed:
  "m k = Some l \<Longrightarrow> \<not> lapsed_at ru t l \<Longrightarrow> fst (kv_spec ru own t (PutIfAbsent k v ttl) m) = RBool False"
  by simp

section \<open>Runs of operations by several owners\<close>

type_synonym kv_event = "string \<times> time \<times> kv_op"

fun kv_run ::
  "(string \<Rightarrow> time \<Rightarrow> kv_op \<Rightarrow> 'st \<Rightarrow> kv_res \<times> 'st) \<Rightarrow> kv_event list \<Rightarrow> 'st \<Rightarrow> kv_res list \<times> 'st" where
  "kv_run ex [] st = ([], st)"
| "kv_run ex ((own, t, op) # evs) st =
     (let (r, st1) = ex own t op st; (rs, st2) = kv_run ex evs st1 in (r # rs, st2))"

text \<open>The owners whose put-if-absent on \<open>k\<close> answered true, in order.\<close>

fun kv_winners :: "string \<Rightarrow> kv_event list \<Rightarrow> kv_res list \<Rightarrow> (string \<times> string) list" where
  "kv_winners k ((own, t, PutIfAbsent k' v ttl) # evs) (r # rs) =
     (if k' = k \<and> r = RBool True then (own, v) # kv_winners k evs rs else kv_winners k evs rs)"
| "kv_winners k (_ # evs) (_ # rs) = kv_winners k evs rs"
| "kv_winners k _ _ = []"

text \<open>
  A race for \<open>k\<close>: every event is a put-if-absent or a read of \<open>k\<close>, or touches another key,
  and no lease a racer writes lapses before the last racer has had its turn.
\<close>

definition race_event :: "string \<Rightarrow> kv_op \<Rightarrow> bool" where
  "race_event k op = (op_key op = k \<longrightarrow> (case op of PutIfAbsent _ _ _ \<Rightarrow> True | Get _ \<Rightarrow> True | _ \<Rightarrow> False))"

definition outlasts :: "lease_rule \<Rightarrow> kv_event list \<Rightarrow> kv_event \<Rightarrow> bool" where
  "outlasts ru evs ev =
     (case ev of (own, t, op) \<Rightarrow>
        (case op of
           PutIfAbsent _ v ttl \<Rightarrow> list_all (\<lambda>(own', t', op'). \<not> lapsed_at ru t' (new_lease ru own t v ttl)) evs
         | _ \<Rightarrow> True))"

definition seed_race :: "lease_rule \<Rightarrow> string \<Rightarrow> kv_event list \<Rightarrow> bool" where
  "seed_race ru k evs = list_all (\<lambda>ev. race_event k (snd (snd ev)) \<and> outlasts ru evs ev) evs"

lemma outlasts_tail: "outlasts ru (ev # evs) x \<Longrightarrow> outlasts ru evs x"
  by (cases x; cases "snd (snd x)") (auto simp: outlasts_def)

lemma seed_race_Cons: "seed_race ru k (ev # evs) \<Longrightarrow> seed_race ru k evs"
  unfolding seed_race_def by (simp add: list_all_iff) (blast intro: outlasts_tail)

lemma seed_race_event: "seed_race ru k evs \<Longrightarrow> (own, t, op) \<in> set evs \<Longrightarrow> race_event k op"
  by (fastforce simp: seed_race_def list_all_iff)

lemma seed_race_unlapsed:
  assumes "seed_race ru k ((own, t, PutIfAbsent k v ttl) # evs)"
  shows "\<forall>(own', t', op') \<in> set evs. \<not> lapsed_at ru t' (new_lease ru own t v ttl)"
  using assms by (simp add: seed_race_def outlasts_def list_all_iff)

lemma race_event_not_entitled: "race_event k op \<Longrightarrow> \<not> entitled k l own op"
  by (auto simp: race_event_def entitled_def split: kv_op.splits)

section \<open>The contract of a backend\<close>

locale kv_contract =
  fixes exec :: "string \<Rightarrow> time \<Rightarrow> kv_op \<Rightarrow> 'st \<Rightarrow> kv_res \<times> 'st"
    and view :: "'st \<Rightarrow> kv_map"
    and ru :: lease_rule
    and invar :: "'st \<Rightarrow> bool"
  assumes exec_invar: "invar st \<Longrightarrow> invar (snd (exec own t op st))"
    and exec_refines: "invar st \<Longrightarrow>
      (fst (exec own t op st) = fst (kv_spec ru own t op (view st))
         \<and> view (snd (exec own t op st)) = snd (kv_spec ru own t op (view st)))
      \<or> ((\<exists>e. fst (exec own t op st) = RErr e)
         \<and> (view (snd (exec own t op st)) = snd (kv_spec ru own t op (view st))
            \<or> view (snd (exec own t op st)) = view st))"
    and lapsed_not_live: "lapsed_at ru t l \<Longrightarrow> \<not> live_at ru t l"
    and permanent_live: "l_exp l = None \<Longrightarrow> live_at ru t l"
begin

lemma run_invar: "invar st \<Longrightarrow> invar (snd (kv_run exec evs st))"
proof (induction evs arbitrary: st)
  case Nil
  then show ?case by simp
next
  case (Cons ev evs)
  obtain own t op where ev: "ev = (own, t, op)" by (cases ev)
  from Cons.prems have "invar (snd (exec own t op st))" by (rule exec_invar)
  then show ?case using Cons.IH ev by (auto simp: split_beta Let_def)
qed

lemma exec_unlapsed_protected:
  assumes "invar st" and "view st k = Some l" and "\<not> lapsed_at ru t l" and "\<not> entitled k l own op"
  shows "view (snd (exec own t op st)) k = Some l"
  using exec_refines [OF assms(1), of own t op] kv_spec_unlapsed_protected [where m = "view st", OF assms(2-4)] assms(2)
  by auto

lemma exec_put_unlapsed:
  assumes "invar st" and "view st k = Some l" and "\<not> lapsed_at ru t l"
  shows "fst (exec own t (PutIfAbsent k v ttl) st) \<noteq> RBool True"
  using exec_refines [OF assms(1), of own t "PutIfAbsent k v ttl"] assms(2,3) by auto

text \<open>Nobody without the value or the ownership changes an entry that has not lapsed.\<close>

lemma run_protected:
  assumes "invar st" and "view st k = Some l"
    and "\<forall>(own, t, op) \<in> set evs. \<not> lapsed_at ru t l \<and> \<not> entitled k l own op"
  shows "view (snd (kv_run exec evs st)) k = Some l"
  using assms
proof (induction evs arbitrary: st)
  case Nil
  then show ?case by simp
next
  case (Cons ev evs)
  obtain own t op where ev: "ev = (own, t, op)" by (cases ev)
  with Cons.prems have "view (snd (exec own t op st)) k = Some l"
    by (auto intro: exec_unlapsed_protected)
  with Cons.IH [OF exec_invar [OF Cons.prems(1)]] Cons.prems(3) ev show ?case
    by (auto simp: split_beta Let_def)
qed

lemma race_protected:
  assumes "invar st" and "view st k = Some l" and "seed_race ru k evs"
    and "\<forall>(own, t, op) \<in> set evs. \<not> lapsed_at ru t l"
  shows "kv_winners k evs (fst (kv_run exec evs st)) = []"
  using assms
proof (induction evs arbitrary: st)
  case Nil
  then show ?case by simp
next
  case (Cons ev evs)
  obtain own t op where ev: "ev = (own, t, op)" by (cases ev)
  let ?st = "snd (exec own t op st)"
  from Cons.prems(3) ev have re: "race_event k op" by (auto intro: seed_race_event)
  from Cons.prems(4) ev have nl: "\<not> lapsed_at ru t l" by auto
  have "view ?st k = Some l"
    using Cons.prems(1,2) nl race_event_not_entitled [OF re] by (rule exec_unlapsed_protected)
  then have "kv_winners k evs (fst (kv_run exec evs ?st)) = []"
    using Cons.IH exec_invar [OF Cons.prems(1)] seed_race_Cons [OF Cons.prems(3)] Cons.prems(4) by auto
  moreover have "op = PutIfAbsent k v ttl \<Longrightarrow> fst (exec own t op st) \<noteq> RBool True" for v ttl
    using exec_put_unlapsed [OF Cons.prems(1,2) nl] by blast
  ultimately show ?case using ev by (cases op) (auto simp: split_beta Let_def)
qed

lemma race_at_most_one_winner:
  assumes "invar st" and "seed_race ru k evs"
  shows "length (kv_winners k evs (fst (kv_run exec evs st))) \<le> 1"
  using assms
proof (induction evs arbitrary: st)
  case Nil
  then show ?case by simp
next
  case (Cons ev evs)
  obtain own t op where ev: "ev = (own, t, op)" by (cases ev)
  let ?st = "snd (exec own t op st)"
  have inv: "invar ?st" using Cons.prems(1) by (rule exec_invar)
  have tail: "length (kv_winners k evs (fst (kv_run exec evs ?st))) \<le> 1"
    using inv seed_race_Cons [OF Cons.prems(2)] by (rule Cons.IH)
  show ?case
  proof (cases "\<exists>v ttl. op = PutIfAbsent k v ttl \<and> fst (exec own t op st) = RBool True")
    case False
    then show ?thesis using tail ev by (cases op) (auto simp: split_beta Let_def)
  next
    case True
    then obtain v ttl where op: "op = PutIfAbsent k v ttl"
      and win: "fst (exec own t op st) = RBool True" by blast
    have "view ?st k = Some (new_lease ru own t v ttl)"
      using exec_refines [OF Cons.prems(1), of own t op] win op by (auto split: if_splits)
    then have "kv_winners k evs (fst (kv_run exec evs ?st)) = []"
      using race_protected inv seed_race_Cons [OF Cons.prems(2)]
        seed_race_unlapsed Cons.prems(2) ev op by blast
    then show ?thesis using ev op win by (simp add: split_beta Let_def)
  qed
qed

text \<open>
  A permanent entry changes only through an operation that names its value or deletes the
  key outright: no put-if-absent, no renewal and no wrong compare-and-swap ever moves it.
\<close>

lemma permanent_run:
  assumes "invar st" and "view st k = Some l" and "l_exp l = None"
    and "\<forall>(own, t, op) \<in> set evs. \<not> entitled k l own op"
  shows "view (snd (kv_run exec evs st)) k = Some l"
proof (rule run_protected [OF assms(1,2)])
  show "\<forall>(own, t, op) \<in> set evs. \<not> lapsed_at ru t l \<and> \<not> entitled k l own op"
    using assms(3,4) lapsed_not_live permanent_live by blast
qed

lemma renew_permanent:
  assumes "invar st" and "view st k = Some l" and "l_exp l = None" and "0 < ttl"
  shows "fst (exec own t (Renew k ttl) st) \<noteq> RBool True
    \<and> view (snd (exec own t (Renew k ttl) st)) k = Some l"
  using exec_refines [OF assms(1), of own t "Renew k ttl"] assms(2-4) by auto

end

text \<open>A backend whose calls do not fail implements the specification exactly.\<close>

locale kv_reliable = kv_contract +
  assumes exec_exact: "invar st \<Longrightarrow>
    fst (exec own t op st) = fst (kv_spec ru own t op (view st))
    \<and> view (snd (exec own t op st)) = snd (kv_spec ru own t op (view st))"
begin

text \<open>
  Seed election: when the key starts out free, exactly one racer wins, and what a reader
  finds afterwards is what that racer wrote.
\<close>

lemma race_exactly_one_winner:
  assumes "invar st" and "seed_race ru k evs"
    and "case view st k of None \<Rightarrow> True
         | Some l \<Rightarrow> \<forall>(own, t, op) \<in> set evs. lapsed_at ru t l"
    and "\<exists>own t v ttl. (own, t, PutIfAbsent k v ttl) \<in> set evs"
  shows "\<exists>own v. kv_winners k evs (fst (kv_run exec evs st)) = [(own, v)]
    \<and> (\<exists>l. view (snd (kv_run exec evs st)) k = Some l \<and> l_val l = v \<and> l_owner l = own)"
  using assms
proof (induction evs arbitrary: st)
  case Nil
  then show ?case by simp
next
  case (Cons ev evs)
  obtain own t op where ev: "ev = (own, t, op)" by (cases ev)
  let ?st = "snd (exec own t op st)"
  have inv: "invar ?st" using Cons.prems(1) by (rule exec_invar)
  have re: "race_event k op" using Cons.prems(2) ev by (auto intro: seed_race_event)
  have ex: "fst (exec own t op st) = fst (kv_spec ru own t op (view st))"
    "view ?st = snd (kv_spec ru own t op (view st))"
    using exec_exact [OF Cons.prems(1)] by blast+
  show ?case
  proof (cases "\<exists>v ttl. op = PutIfAbsent k v ttl")
    case False
    then have "view ?st k = view st k"
      using re ex(2) by (cases op) (auto simp: race_event_def split: option.splits)
    then have "\<exists>own v. kv_winners k evs (fst (kv_run exec evs ?st)) = [(own, v)]
        \<and> (\<exists>l. view (snd (kv_run exec evs ?st)) k = Some l \<and> l_val l = v \<and> l_owner l = own)"
      using Cons.IH [OF inv seed_race_Cons [OF Cons.prems(2)]] Cons.prems(3,4) ev False
      by (auto split: option.splits)
    then show ?thesis using ev False by (cases op) (auto simp: split_beta Let_def)
  next
    case True
    then obtain v ttl where op: "op = PutIfAbsent k v ttl" by blast
    have win: "fst (exec own t op st) = RBool True"
      and now: "view ?st k = Some (new_lease ru own t v ttl)"
      using ex Cons.prems(3) ev op by (auto split: option.splits)
    have unl: "\<forall>(own', t', op') \<in> set evs. \<not> lapsed_at ru t' (new_lease ru own t v ttl)"
      using seed_race_unlapsed Cons.prems(2) ev op by blast
    have none: "kv_winners k evs (fst (kv_run exec evs ?st)) = []"
      by (rule race_protected [OF inv now seed_race_Cons [OF Cons.prems(2)] unl])
    have "view (snd (kv_run exec evs ?st)) k = Some (new_lease ru own t v ttl)"
    proof (rule run_protected [OF inv now])
      show "\<forall>(own', t', op') \<in> set evs. \<not> lapsed_at ru t' (new_lease ru own t v ttl)
          \<and> \<not> entitled k (new_lease ru own t v ttl) own' op'"
        using unl seed_race_event [OF seed_race_Cons [OF Cons.prems(2)]] race_event_not_entitled
        by fast
    qed
    with none win ev op show ?thesis by (simp add: split_beta Let_def new_lease_def)
  qed
qed

end

section \<open>The common rule\<close>

text \<open>A deadline is live strictly before it is reached and claimable from then on.\<close>

definition expired :: "time \<Rightarrow> lease \<Rightarrow> bool" where
  "expired t l = (case l_exp l of None \<Rightarrow> False | Some e \<Rightarrow> e \<le> t)"

lemma expired_None [simp]: "l_exp l = None \<Longrightarrow> \<not> expired t l"
  by (simp add: expired_def)

text \<open>
  The contract of the stores that keep a lease's length in milliseconds: a positive ttl records a
  lease that ends after its whole milliseconds, any other ttl a permanent key. \<open>lasting\<close> are the
  calls whose ttl the millisecond can express: none, or at least one millisecond and a
  \<^verbatim>\<open>time.Duration\<close>.
\<close>

definition ms_rule :: lease_rule where
  "ms_rule =
     \<lparr>live_at = (\<lambda>t l. \<not> expired t l), lapsed_at = expired,
      expiry_at = (\<lambda>t ttl. if ttl \<le> 0 then None else Some (t + ttl div millisecond * millisecond))\<rparr>"

definition lasting_ttl :: "duration \<Rightarrow> bool" where
  "lasting_ttl ttl \<longleftrightarrow> ttl \<le> 0 \<or> (millisecond \<le> ttl \<and> ttl < 2 ^ 63)"

definition lasting :: "kv_op \<Rightarrow> bool" where
  "lasting op =
     (case op of
        PutIfAbsent k v ttl \<Rightarrow> lasting_ttl ttl
      | CompareAndSwap k old new ttl \<Rightarrow> lasting_ttl ttl
      | Renew k ttl \<Rightarrow> lasting_ttl ttl
      | _ \<Rightarrow> True)"

lemma lasting_spec:
  assumes "lasting op" and "live_at ru = live_at ms_rule" and "lapsed_at ru = lapsed_at ms_rule"
    and "\<And>ttl. lasting_ttl ttl \<Longrightarrow> expiry_at ru t ttl = expiry_at ms_rule t ttl"
  shows "kv_spec ru own t op m = kv_spec ms_rule own t op m"
  using assms by (cases op) (auto simp: lasting_def new_lease_def split: option.splits)

lemma lasting_ms:
  assumes "lasting_ttl ttl" and "0 < ttl"
  shows "0 < ttl div millisecond" and "ttl div millisecond * millisecond \<le> ttl"
    and "ttl div millisecond < 2 ^ 63" and "wrap64 (ttl div millisecond * millisecond) = ttl div millisecond * millisecond"
proof -
  have b: "millisecond \<le> ttl" "ttl < 2 ^ 63" using assms by (auto simp: lasting_ttl_def)
  then show p: "0 < ttl div millisecond" and le: "ttl div millisecond * millisecond \<le> ttl" by linarith+
  with b show "ttl div millisecond < 2 ^ 63" by linarith
  show "wrap64 (ttl div millisecond * millisecond) = ttl div millisecond * millisecond"
    by (rule wrap64_id) (use p le b in linarith)+
qed

text \<open>The deadline the rule gives is less than a millisecond before the one asked for.\<close>

lemma ms_deadline:
  "0 < ttl \<longrightarrow> (\<exists>e. expiry_at ms_rule t ttl = Some e \<and> t + ttl - millisecond < e \<and> e \<le> t + ttl)"
proof -
  have "ttl div millisecond * millisecond = ttl - ttl mod millisecond" by (simp add: minus_mod_eq_div_mult)
  moreover have "0 \<le> ttl mod millisecond" "ttl mod millisecond < millisecond" by simp_all
  ultimately show ?thesis by (simp add: ms_rule_def)
qed

end
