(* ===== verification/Mem_KV.thy ===== *)
theory Mem_KV
  imports KV_Spec
begin

text \<open>
  The in-process store of internal/provider/memkv/memkv.go. \<^verbatim>\<open>KV\<close> is a record of its owner
  and the shared data map; the mutex makes every operation one atomic step, so an operation
  is a function from the store and the instant it reads from the clock to its result and the
  store it leaves. \<open>with_owner\<close> is the second view of one store that \<^verbatim>\<open>WithOwner\<close> hands
  out, and \<open>mem_exec\<close> runs an operation through the view of a given owner.
\<close>

section \<open>The store\<close>

record mem_entry =
  e_val :: string
  e_owner :: string
  e_expires :: "time option"

record mem_kv =
  m_owner :: string
  m_data :: "string \<rightharpoonup> mem_entry"

definition mem_new :: "string \<Rightarrow> mem_kv" where
  "mem_new own = \<lparr>m_owner = own, m_data = Map.empty\<rparr>"

definition with_owner :: "string \<Rightarrow> mem_kv \<Rightarrow> mem_kv" where
  "with_owner own m = \<lparr>m_owner = own, m_data = m_data m\<rparr>"

definition mem_live :: "mem_kv \<Rightarrow> string \<Rightarrow> time \<Rightarrow> mem_entry option" where
  "mem_live m k now =
     (case m_data m k of
        None \<Rightarrow> None
      | Some e \<Rightarrow> (if e_expires e \<noteq> None \<and> \<not> (now < the (e_expires e)) then None else Some e))"

definition expiryAt :: "time \<Rightarrow> duration \<Rightarrow> time option" where
  "expiryAt now ttl = (if ttl \<le> 0 then None else Some (now + ttl))"

definition mem_put_if_absent ::
  "time \<Rightarrow> string \<Rightarrow> string \<Rightarrow> duration \<Rightarrow> mem_kv \<Rightarrow> bool go_result \<times> mem_kv" where
  "mem_put_if_absent now k v ttl m =
     (case mem_live m k now of
        Some _ \<Rightarrow> (Inr False, m)
      | None \<Rightarrow> (Inr True, m\<lparr>m_data := (m_data m)
          (k \<mapsto> \<lparr>e_val = v, e_owner = m_owner m, e_expires = expiryAt now ttl\<rparr>)\<rparr>))"

definition mem_compare_and_swap ::
  "time \<Rightarrow> string \<Rightarrow> string \<Rightarrow> string \<Rightarrow> duration \<Rightarrow> mem_kv \<Rightarrow> bool go_result \<times> mem_kv" where
  "mem_compare_and_swap now k oldV newV ttl m =
     (case mem_live m k now of
        None \<Rightarrow> (Inr False, m)
      | Some e \<Rightarrow>
          (if e_val e \<noteq> oldV then (Inr False, m)
           else (Inr True, m\<lparr>m_data := (m_data m)
             (k \<mapsto> \<lparr>e_val = newV, e_owner = m_owner m, e_expires = expiryAt now ttl\<rparr>)\<rparr>)))"

definition mem_get :: "time \<Rightarrow> string \<Rightarrow> mem_kv \<Rightarrow> (string option) go_result \<times> mem_kv" where
  "mem_get now k m =
     (case mem_live m k now of None \<Rightarrow> (Inr None, m) | Some e \<Rightarrow> (Inr (Some (e_val e)), m))"

definition mem_delete :: "string \<Rightarrow> string option \<Rightarrow> mem_kv \<Rightarrow> bool go_result \<times> mem_kv" where
  "mem_delete k ifValue m =
     (if (case ifValue of
            None \<Rightarrow> False
          | Some v \<Rightarrow> (case m_data m k of None \<Rightarrow> True | Some e \<Rightarrow> e_val e \<noteq> v))
      then (Inr False, m)
      else (Inr True, m\<lparr>m_data := (m_data m)(k := None)\<rparr>))"

definition mem_renew :: "time \<Rightarrow> string \<Rightarrow> duration \<Rightarrow> mem_kv \<Rightarrow> bool go_result \<times> mem_kv" where
  "mem_renew now k ttl m =
     (if ttl \<le> 0 then (Inl (Errorf ''kv renew %q: ttl must be positive'' [k]), m)
      else case mem_live m k now of
             None \<Rightarrow> (Inr False, m)
           | Some e \<Rightarrow>
               (if e_expires e = None \<or> e_owner e \<noteq> m_owner m then (Inr False, m)
                else (Inr True, m\<lparr>m_data := (m_data m)
                  (k \<mapsto> e\<lparr>e_expires := expiryAt now ttl\<rparr>)\<rparr>)))"

section \<open>The store as a backend\<close>

fun bool_res :: "bool go_result \<Rightarrow> kv_res" where
  "bool_res (Inl e) = RErr e"
| "bool_res (Inr b) = RBool b"

fun val_res :: "(string option) go_result \<Rightarrow> kv_res" where
  "val_res (Inl e) = RErr e"
| "val_res (Inr v) = RVal v"

fun mem_op :: "time \<Rightarrow> kv_op \<Rightarrow> mem_kv \<Rightarrow> kv_res \<times> mem_kv" where
  "mem_op now (PutIfAbsent k v ttl) m = apfst bool_res (mem_put_if_absent now k v ttl m)"
| "mem_op now (CompareAndSwap k old new ttl) m = apfst bool_res (mem_compare_and_swap now k old new ttl m)"
| "mem_op now (Get k) m = apfst val_res (mem_get now k m)"
| "mem_op now (Delete k ifv) m = apfst bool_res (mem_delete k ifv m)"
| "mem_op now (Renew k ttl) m = apfst bool_res (mem_renew now k ttl m)"

definition mem_exec :: "string \<Rightarrow> time \<Rightarrow> kv_op \<Rightarrow> mem_kv \<Rightarrow> kv_res \<times> mem_kv" where
  "mem_exec own t op m = mem_op t op (with_owner own m)"

definition mem_lease :: "mem_entry \<Rightarrow> lease" where
  "mem_lease e = \<lparr>l_val = e_val e, l_owner = e_owner e, l_exp = e_expires e\<rparr>"

definition mem_view :: "mem_kv \<Rightarrow> kv_map" where
  "mem_view m k = map_option mem_lease (m_data m k)"

definition mem_rule :: lease_rule where
  "mem_rule = \<lparr>live_at = (\<lambda>t l. \<not> expired t l), lapsed_at = expired, expiry_at = expiryAt\<rparr>"

lemmas mem_ops [kv_simps] =
  mem_put_if_absent_def mem_compare_and_swap_def mem_get_def mem_delete_def mem_renew_def
  mem_live_def with_owner_def

lemma mem_rule_simps [simp]:
  "live_at mem_rule t l = (\<not> expired t l)"
  "lapsed_at mem_rule t l = expired t l"
  "expiry_at mem_rule = expiryAt"
  by (simp_all add: mem_rule_def)

lemma mem_lease_sel [simp]:
  "l_val (mem_lease e) = e_val e" "l_owner (mem_lease e) = e_owner e" "l_exp (mem_lease e) = e_expires e"
  by (simp_all add: mem_lease_def)

lemma mem_expired: "expired t (mem_lease e) = (e_expires e \<noteq> None \<and> \<not> (t < the (e_expires e)))"
  by (auto simp: expired_def split: option.splits)

lemma mem_view_upd [simp]:
  "mem_view (m\<lparr>m_data := (m_data m)(k \<mapsto> e)\<rparr>) = (mem_view m)(k \<mapsto> mem_lease e)"
  "mem_view (m\<lparr>m_data := (m_data m)(k := None)\<rparr>) = (mem_view m)(k := None)"
  by (auto simp: mem_view_def)

lemma mem_view_with_owner [simp]: "mem_view (with_owner own m) = mem_view m"
  by (simp add: fun_eq_iff mem_view_def with_owner_def)

lemma mem_op_refines:
  "fst (mem_op t op m) = fst (kv_spec mem_rule (m_owner m) t op (mem_view m))
   \<and> mem_view (snd (mem_op t op m)) = snd (kv_spec mem_rule (m_owner m) t op (mem_view m))"
proof (cases "m_data m (op_key op)")
  case None
  then have "mem_view m (op_key op) = None" by (simp add: mem_view_def)
  with None show ?thesis
    by (cases op)
      (auto simp: mem_put_if_absent_def mem_compare_and_swap_def mem_get_def mem_delete_def mem_renew_def
        mem_live_def mem_lease_def new_lease_def renew_error_def split: option.splits)
next
  case (Some e)
  then have "mem_view m (op_key op) = Some (mem_lease e)" by (simp add: mem_view_def)
  with Some show ?thesis
    by (cases op)
      (auto simp: mem_put_if_absent_def mem_compare_and_swap_def mem_get_def mem_delete_def mem_renew_def
        mem_live_def mem_lease_def new_lease_def renew_error_def mem_expired expired_def split: option.splits)
qed

lemma mem_exec_refines:
  "fst (mem_exec own t op m) = fst (kv_spec mem_rule own t op (mem_view m))
   \<and> mem_view (snd (mem_exec own t op m)) = snd (kv_spec mem_rule own t op (mem_view m))"
  using mem_op_refines [of t op "with_owner own m"]
  by (simp add: mem_exec_def) (simp add: with_owner_def)

interpretation mem: kv_reliable mem_exec mem_view mem_rule "\<lambda>_. True"
  by unfold_locales (auto simp: mem_exec_refines)

section \<open>Properties\<close>

text \<open>
  C8: every operation of the in-process store answers what the KVStore contract says and leaves
  exactly the leases the contract says, whoever calls it through whichever owner's view.
\<close>

theorem mem_refines_contract:
  "fst (mem_exec own t op m) = fst (kv_spec mem_rule own t op (mem_view m))
   \<and> mem_view (snd (mem_exec own t op m)) = snd (kv_spec mem_rule own t op (mem_view m))"
  by (rule mem.exec_exact) simp

text \<open>
  Seed election on the in-process store. When several owners race to put a key that is
  free, with leases that outlast the race and any other traffic on other keys, exactly one
  put-if-absent answers true, and the entry left behind is that winner's value and owner.
\<close>

theorem mem_seed_election:
  assumes "seed_race mem_rule k evs"
    and "case mem_view m k of None \<Rightarrow> True | Some l \<Rightarrow> list_all (\<lambda>(own, t, op). expired t l) evs"
    and "list_ex (\<lambda>(own, t, op). case op of PutIfAbsent k' _ _ \<Rightarrow> k' = k | _ \<Rightarrow> False) evs"
  shows "\<exists>own v. kv_winners k evs (fst (kv_run mem_exec evs m)) = [(own, v)]
    \<and> (\<exists>l. mem_view (snd (kv_run mem_exec evs m)) k = Some l \<and> l_val l = v \<and> l_owner l = own)"
proof (rule mem.race_exactly_one_winner [OF _ assms(1)])
  show "case mem_view m k of None \<Rightarrow> True | Some l \<Rightarrow> \<forall>(own, t, op) \<in> set evs. lapsed_at mem_rule t l"
    using assms(2) by (auto simp: list_all_iff split: option.splits)
  show "\<exists>own t v ttl. (own, t, PutIfAbsent k v ttl) \<in> set evs"
    using assms(3) by (fastforce simp: list_ex_iff split: kv_op.splits)
qed simp

definition mem_demo_race :: "kv_event list" where
  "mem_demo_race =
     [(''b'', 1, PutIfAbsent ''seed'' ''10.0.0.2'' (10 * second)), (''a'', 2, Get ''seed''),
      (''a'', 3, PutIfAbsent ''seed'' ''10.0.0.1'' (10 * second)), (''a'', 4, PutIfAbsent ''other'' ''x'' 0)]"

lemma mem_seed_election_witness:
  "\<exists>own v. kv_winners ''seed'' mem_demo_race (fst (kv_run mem_exec mem_demo_race (mem_new ''a''))) = [(own, v)]
    \<and> (\<exists>l. mem_view (snd (kv_run mem_exec mem_demo_race (mem_new ''a''))) ''seed'' = Some l
         \<and> l_val l = v \<and> l_owner l = own)"
proof (rule mem_seed_election)
  show "seed_race mem_rule ''seed'' mem_demo_race"
    by (simp add: mem_demo_race_def seed_race_def race_event_def outlasts_def expired_def new_lease_def expiryAt_def)
  show "case mem_view (mem_new ''a'') ''seed'' of None \<Rightarrow> True
      | Some l \<Rightarrow> list_all (\<lambda>(own, t, op). expired t l) mem_demo_race"
    by (simp add: mem_view_def mem_new_def)
  show "list_ex (\<lambda>(own, t, op). case op of PutIfAbsent k' _ _ \<Rightarrow> k' = ''seed'' | _ \<Rightarrow> False) mem_demo_race"
    by (simp add: mem_demo_race_def)
qed

end
