(* ===== verification/Dynamo_KV.thy ===== *)
theory Dynamo_KV
  imports Mem_KV
begin

text \<open>
  The DynamoDB store of internal/provider/aws/kv.go. The DynamoDB client is code outside the
  repository, so it is the parameter \<open>serve\<close> of every operation: a function from a request
  and the service's state to a response and the next state. Requests are data, condition
  expressions are kept as syntax trees of the strings the code passes, and what the code
  relies on (conditional writes are atomic, consistent reads see the current row, a failed
  call may or may not have been applied) is the locale \<open>dynamodb\<close>. Numbers are kept as
  values rather than as the decimal strings of the wire. \<^verbatim>\<open>int64(ttl.Seconds())\<close> is the whole
  number of seconds, which is what the float computation yields for leases below 2^23 seconds.
\<close>

section \<open>Requests and the store's operations\<close>

datatype ddb_av = AvS string | AvN int

type_synonym ddb_item = "string \<rightharpoonup> ddb_av"

datatype ddb_cond =
    AttrNotExists string
  | AttrExists string
  | CEq string ddb_av
  | CLt string ddb_av
  | CGt string ddb_av
  | CAnd ddb_cond ddb_cond
  | COr ddb_cond ddb_cond

datatype ddb_req =
    PutItem string ddb_item ddb_cond
  | GetItem string string bool
  | DeleteItem string string "ddb_cond option"
  | UpdateItem string string "string \<times> ddb_av" ddb_cond

datatype ddb_resp = DdbOk | DdbItem "ddb_item option" | DdbCondFailed | DdbFail go_error

record dynamo_kv =
  d_table :: string
  d_prefix :: string
  d_owner :: string

definition ddb_key :: "dynamo_kv \<Rightarrow> string \<Rightarrow> string" where
  "ddb_key d k = (if d_prefix d = [] then k else d_prefix d @ ''/'' @ k)"

definition now_unix :: "time \<Rightarrow> int" where
  "now_unix t = t div second"

definition ddb_item :: "dynamo_kv \<Rightarrow> time \<Rightarrow> string \<Rightarrow> string \<Rightarrow> duration \<Rightarrow> ddb_item" where
  "ddb_item d t k v ttl =
     (let item = [''pk'' \<mapsto> AvS (ddb_key d k), ''val'' \<mapsto> AvS v, ''owner'' \<mapsto> AvS (d_owner d)]
      in if 0 < ttl then item(''expires_at'' \<mapsto> AvN (now_unix t + ttl div second)) else item)"

fun ddb_write_result :: "string \<Rightarrow> string \<Rightarrow> ddb_resp \<Rightarrow> bool go_result" where
  "ddb_write_result what k DdbCondFailed = Inr False"
| "ddb_write_result what k (DdbFail e) = Inl (Wrapf (''kv '' @ what @ '' %q: %w'') [k] e)"
| "ddb_write_result what k _ = Inr True"

text \<open>
  The item is built before the condition's values, so the two clock readings of a put are
  separate arguments, \<open>t1\<close> for the item and \<open>t2\<close> for the condition.
\<close>

definition ddb_put_if_absent ::
  "(ddb_req \<Rightarrow> 'db \<Rightarrow> ddb_resp \<times> 'db) \<Rightarrow> dynamo_kv \<Rightarrow> time \<Rightarrow> time \<Rightarrow> string \<Rightarrow> string \<Rightarrow> duration
    \<Rightarrow> 'db \<Rightarrow> bool go_result \<times> 'db" where
  "ddb_put_if_absent serve d t1 t2 k v ttl db =
     apfst (ddb_write_result ''put_if_absent'' k)
       (serve (PutItem (d_table d) (ddb_item d t1 k v ttl)
          (COr (AttrNotExists ''pk'') (CLt ''expires_at'' (AvN (now_unix t2))))) db)"

definition ddb_compare_and_swap ::
  "(ddb_req \<Rightarrow> 'db \<Rightarrow> ddb_resp \<times> 'db) \<Rightarrow> dynamo_kv \<Rightarrow> time \<Rightarrow> time \<Rightarrow> string \<Rightarrow> string \<Rightarrow> string \<Rightarrow> duration
    \<Rightarrow> 'db \<Rightarrow> bool go_result \<times> 'db" where
  "ddb_compare_and_swap serve d t1 t2 k oldV newV ttl db =
     apfst (ddb_write_result ''compare_and_swap'' k)
       (serve (PutItem (d_table d) (ddb_item d t1 k newV ttl)
          (CAnd (CEq ''val'' (AvS oldV))
            (COr (AttrNotExists ''expires_at'') (CGt ''expires_at'' (AvN (now_unix t2)))))) db)"

definition ddb_get ::
  "(ddb_req \<Rightarrow> 'db \<Rightarrow> ddb_resp \<times> 'db) \<Rightarrow> dynamo_kv \<Rightarrow> time \<Rightarrow> string \<Rightarrow> 'db \<Rightarrow> (string option) go_result \<times> 'db" where
  "ddb_get serve d t k db =
     (case serve (GetItem (d_table d) (ddb_key d k) True) db of
        (DdbFail e, db') \<Rightarrow> (Inl (Wrapf ''kv get %q: %w'' [k] e), db')
      | (DdbItem (Some item), db') \<Rightarrow>
          (if (case item ''expires_at'' of Some (AvN n) \<Rightarrow> n \<le> now_unix t | _ \<Rightarrow> False)
           then (Inr None, db')
           else (case item ''val'' of Some (AvS v) \<Rightarrow> (Inr (Some v), db') | _ \<Rightarrow> (Inr None, db')))
      | (_, db') \<Rightarrow> (Inr None, db'))"

definition ddb_delete ::
  "(ddb_req \<Rightarrow> 'db \<Rightarrow> ddb_resp \<times> 'db) \<Rightarrow> dynamo_kv \<Rightarrow> string \<Rightarrow> string option \<Rightarrow> 'db \<Rightarrow> bool go_result \<times> 'db" where
  "ddb_delete serve d k ifValue db =
     apfst (ddb_write_result ''delete'' k)
       (serve (DeleteItem (d_table d) (ddb_key d k) (map_option (\<lambda>v. CEq ''val'' (AvS v)) ifValue)) db)"

definition ddb_renew ::
  "(ddb_req \<Rightarrow> 'db \<Rightarrow> ddb_resp \<times> 'db) \<Rightarrow> dynamo_kv \<Rightarrow> time \<Rightarrow> time \<Rightarrow> string \<Rightarrow> duration
    \<Rightarrow> 'db \<Rightarrow> bool go_result \<times> 'db" where
  "ddb_renew serve d t1 t2 k ttl db =
     (if ttl \<le> 0 then (Inl (Errorf ''kv renew %q: ttl must be positive'' [k]), db)
      else apfst (ddb_write_result ''renew'' k)
        (serve (UpdateItem (d_table d) (ddb_key d k) (''expires_at'', AvN (now_unix t1 + ttl div second))
           (CAnd (CAnd (AttrExists ''pk'') (CGt ''expires_at'' (AvN (now_unix t2))))
              (CEq ''owner'' (AvS (d_owner d))))) db))"

fun ddb_op ::
  "(ddb_req \<Rightarrow> 'db \<Rightarrow> ddb_resp \<times> 'db) \<Rightarrow> dynamo_kv \<Rightarrow> time \<Rightarrow> kv_op \<Rightarrow> 'db \<Rightarrow> kv_res \<times> 'db" where
  "ddb_op serve d t (PutIfAbsent k v ttl) db = apfst bool_res (ddb_put_if_absent serve d t t k v ttl db)"
| "ddb_op serve d t (CompareAndSwap k old new ttl) db =
     apfst bool_res (ddb_compare_and_swap serve d t t k old new ttl db)"
| "ddb_op serve d t (Get k) db = apfst val_res (ddb_get serve d t k db)"
| "ddb_op serve d t (Delete k ifv) db = apfst bool_res (ddb_delete serve d k ifv db)"
| "ddb_op serve d t (Renew k ttl) db = apfst bool_res (ddb_renew serve d t t k ttl db)"

definition ddb_exec ::
  "(ddb_req \<Rightarrow> 'db \<Rightarrow> ddb_resp \<times> 'db) \<Rightarrow> dynamo_kv \<Rightarrow> string \<Rightarrow> time \<Rightarrow> kv_op \<Rightarrow> 'db \<Rightarrow> kv_res \<times> 'db" where
  "ddb_exec serve d own t op db = ddb_op serve (d\<lparr>d_owner := own\<rparr>) t op db"

section \<open>The leases a table holds\<close>

definition ddb_lease :: "ddb_item \<Rightarrow> lease option" where
  "ddb_lease i =
     (case (i ''val'', i ''owner'') of
        (Some (AvS v), Some (AvS ow)) \<Rightarrow>
          (case i ''expires_at'' of
             None \<Rightarrow> Some \<lparr>l_val = v, l_owner = ow, l_exp = None\<rparr>
           | Some (AvN n) \<Rightarrow> Some \<lparr>l_val = v, l_owner = ow, l_exp = Some n\<rparr>
           | _ \<Rightarrow> None)
      | _ \<Rightarrow> None)"

text \<open>
  Leases as the code has them, which is not quite the contract (\<open>seconds_rule\<close> below is that): deadlines
  are whole seconds, live strictly before and claimable strictly after.
\<close>

definition ddb_rule :: lease_rule where
  "ddb_rule =
     \<lparr>live_at = (\<lambda>t l. case l_exp l of None \<Rightarrow> True | Some e \<Rightarrow> now_unix t < e),
      lapsed_at = (\<lambda>t l. case l_exp l of None \<Rightarrow> False | Some e \<Rightarrow> e < now_unix t),
      expiry_at = (\<lambda>t ttl. if ttl \<le> 0 then None else Some (now_unix t + ttl div second))\<rparr>"

lemma ddb_rule_simps [simp]:
  "live_at ddb_rule t l = (case l_exp l of None \<Rightarrow> True | Some e \<Rightarrow> now_unix t < e)"
  "lapsed_at ddb_rule t l = (case l_exp l of None \<Rightarrow> False | Some e \<Rightarrow> e < now_unix t)"
  "expiry_at ddb_rule t ttl = (if ttl \<le> 0 then None else Some (now_unix t + ttl div second))"
  by (simp_all add: ddb_rule_def)

lemma ddb_key_inj: "ddb_key d k = ddb_key d k' \<longleftrightarrow> k = k'"
  by (simp add: ddb_key_def)

lemma ddb_key_owner [simp]: "ddb_key (d\<lparr>d_owner := own\<rparr>) k = ddb_key d k"
  by (simp add: ddb_key_def)

lemma ddb_item_lease [simp]:
  "ddb_lease (ddb_item d t k v ttl) = Some (new_lease ddb_rule (d_owner d) t v ttl)"
  by (simp add: ddb_item_def ddb_lease_def new_lease_def Let_def)

lemma ddb_item_pk [simp]: "ddb_item d t k v ttl ''pk'' = Some (AvS (ddb_key d k))"
  by (simp add: ddb_item_def Let_def)

lemma ddb_lease_SomeD:
  assumes "ddb_lease i = Some l"
  shows "i ''val'' = Some (AvS (l_val l))" and "i ''owner'' = Some (AvS (l_owner l))"
    and "i ''expires_at'' = map_option AvN (l_exp l)"
  using assms by (auto simp: ddb_lease_def split: option.splits ddb_av.splits)

lemma ddb_lease_renewed:
  assumes "ddb_lease i = Some l"
  shows "ddb_lease (i(''expires_at'' \<mapsto> AvN n)) = Some (l\<lparr>l_exp := Some n\<rparr>)"
  using ddb_lease_SomeD [OF assms] by (simp add: ddb_lease_def)

section \<open>What the code relies on in DynamoDB\<close>

text \<open>
  One conditional write of row \<open>p\<close> of table \<open>tb\<close>: applied when the condition holds, refused
  with \<^verbatim>\<open>ConditionalCheckFailedException\<close> when it does not, and on a failed call either not
  applied or applied although the caller never hears of it.
\<close>

definition ddb_cond_write ::
  "(ddb_item \<Rightarrow> bool) \<Rightarrow> ('db \<Rightarrow> string \<Rightarrow> string \<Rightarrow> ddb_item option) \<Rightarrow> string \<Rightarrow> string
    \<Rightarrow> ddb_item option \<Rightarrow> 'db \<Rightarrow> ddb_resp \<times> 'db \<Rightarrow> bool" where
  "ddb_cond_write holds rows tb p new db out =
     (let ok = holds (case rows db tb p of None \<Rightarrow> Map.empty | Some i \<Rightarrow> i);
          applied = (rows (snd out) = (rows db)(tb := (rows db tb)(p := new)));
          kept = (rows (snd out) = rows db)
      in (fst out = DdbOk \<and> ok \<and> applied)
         \<or> (fst out = DdbCondFailed \<and> \<not> ok \<and> kept)
         \<or> ((\<exists>e. fst out = DdbFail e) \<and> (kept \<or> (ok \<and> applied))))"

locale dynamodb =
  fixes serve :: "ddb_req \<Rightarrow> 'db \<Rightarrow> ddb_resp \<times> 'db"
    and rows :: "'db \<Rightarrow> string \<Rightarrow> string \<Rightarrow> ddb_item option"
    and holds :: "ddb_cond \<Rightarrow> ddb_item \<Rightarrow> bool"
  assumes holds_not_exists: "holds (AttrNotExists a) i = (i a = None)"
    and holds_exists: "holds (AttrExists a) i = (i a \<noteq> None)"
    and holds_eq: "holds (CEq a v) i = (i a = Some v)"
    and holds_lt: "holds (CLt a (AvN n)) i = (\<exists>m. i a = Some (AvN m) \<and> m < n)"
    and holds_gt: "holds (CGt a (AvN n)) i = (\<exists>m. i a = Some (AvN m) \<and> n < m)"
    and holds_and: "holds (CAnd c c') i = (holds c i \<and> holds c' i)"
    and holds_or: "holds (COr c c') i = (holds c i \<or> holds c' i)"
    and put_item: "it ''pk'' = Some (AvS p) \<Longrightarrow>
      ddb_cond_write (holds c) rows tb p (Some it) db (serve (PutItem tb it c) db)"
    and delete_item:
      "ddb_cond_write (case oc of None \<Rightarrow> (\<lambda>_. True) | Some c \<Rightarrow> holds c) rows tb p None db
         (serve (DeleteItem tb p oc) db)"
    and update_item: "rows db tb p = Some i \<Longrightarrow>
      ddb_cond_write (holds c) rows tb p (Some (i(a \<mapsto> v))) db (serve (UpdateItem tb p (a, v) c) db)"
    and update_absent: "rows db tb p = None \<Longrightarrow> \<not> holds c Map.empty \<Longrightarrow>
      ddb_cond_write (holds c) rows tb p None db (serve (UpdateItem tb p (a, v) c) db)"
    and get_item: "rows (snd (serve (GetItem tb p True) db)) = rows db
      \<and> (fst (serve (GetItem tb p True) db) = DdbItem (rows db tb p)
         \<or> (\<exists>e. fst (serve (GetItem tb p True) db) = DdbFail e))"

text \<open>The leases of one \<^verbatim>\<open>DynamoKV\<close>, and the rows it may meet: its own well-formed items.\<close>

definition ddb_view ::
  "('db \<Rightarrow> string \<Rightarrow> string \<Rightarrow> ddb_item option) \<Rightarrow> dynamo_kv \<Rightarrow> 'db \<Rightarrow> kv_map" where
  "ddb_view rows d db k = Option.bind (rows db (d_table d) (ddb_key d k)) ddb_lease"

definition ddb_wf ::
  "('db \<Rightarrow> string \<Rightarrow> string \<Rightarrow> ddb_item option) \<Rightarrow> dynamo_kv \<Rightarrow> 'db \<Rightarrow> bool" where
  "ddb_wf rows d db \<longleftrightarrow>
     (\<forall>k i. rows db (d_table d) (ddb_key d k) = Some i \<longrightarrow> i ''pk'' \<noteq> None \<and> ddb_lease i \<noteq> None)"

lemma ddb_view_upd:
  assumes "rows db' = (rows db)(d_table d := (rows db (d_table d))(ddb_key d k := new))"
  shows "ddb_view rows d db' = (ddb_view rows d db)(k := Option.bind new ddb_lease)"
  using assms by (auto simp: fun_eq_iff ddb_view_def ddb_key_inj)

lemma ddb_wf_upd:
  assumes "ddb_wf rows d db"
    and "rows db' = (rows db)(d_table d := (rows db (d_table d))(ddb_key d k := new))"
    and "\<And>i. new = Some i \<Longrightarrow> i ''pk'' \<noteq> None \<and> ddb_lease i \<noteq> None"
  shows "ddb_wf rows d db'"
  using assms by (auto simp: ddb_wf_def ddb_key_inj)

text \<open>
  A conditional write that puts \<open>new\<close> on key \<open>k\<close> under a condition equivalent to \<open>guard\<close>
  refines the abstract step "if guard then true and update else false".
\<close>

lemma ddb_cond_write_refines:
  assumes "ddb_wf rows d db"
    and "ddb_cond_write h rows (d_table d) (ddb_key d k) new db out"
    and "h (case rows db (d_table d) (ddb_key d k) of None \<Rightarrow> Map.empty | Some i \<Rightarrow> i) = guard"
    and "guard \<Longrightarrow> Option.bind new ddb_lease = l" and "\<And>i. guard \<Longrightarrow> new = Some i \<Longrightarrow> i ''pk'' \<noteq> None \<and> ddb_lease i \<noteq> None"
    and "spec = (if guard then (RBool True, (ddb_view rows d db)(k := l)) else (RBool False, ddb_view rows d db))"
    and "res = apfst bool_res (apfst (ddb_write_result what k) out)"
  shows "ddb_wf rows d (snd res) \<and>
    ((fst res = fst spec \<and> ddb_view rows d (snd res) = snd spec)
     \<or> ((\<exists>e. fst res = RErr e)
        \<and> (ddb_view rows d (snd res) = snd spec \<or> ddb_view rows d (snd res) = ddb_view rows d db)))"
proof -
  have kept: "ddb_view rows d db' = ddb_view rows d db \<and> ddb_wf rows d db'" if "rows db' = rows db" for db'
    using assms(1) that by (simp add: ddb_view_def ddb_wf_def fun_eq_iff)
  have upd: "ddb_view rows d db' = (ddb_view rows d db)(k := l) \<and> ddb_wf rows d db'"
    if "rows db' = (rows db)(d_table d := (rows db (d_table d))(ddb_key d k := new))" and guard for db'
    using ddb_view_upd [OF that(1)] ddb_wf_upd [OF assms(1) that(1)] assms(4,5) that(2) by simp
  from assms(2,3) consider
      "fst out = DdbOk" "guard" "rows (snd out) = (rows db)(d_table d := (rows db (d_table d))(ddb_key d k := new))"
    | "fst out = DdbCondFailed" "\<not> guard" "rows (snd out) = rows db"
    | e where "fst out = DdbFail e" "rows (snd out) = rows db"
    | e where "fst out = DdbFail e" "guard" "rows (snd out) = (rows db)(d_table d := (rows db (d_table d))(ddb_key d k := new))"
    by (auto simp: ddb_cond_write_def Let_def)
  then show ?thesis
  proof cases
    case 1
    with upd [OF 1(3) 1(2)] assms(6,7) show ?thesis by simp
  next
    case 2
    with kept [OF 2(3)] assms(6,7) show ?thesis by simp
  next
    case 3
    with kept [OF 3(2)] assms(7) show ?thesis by simp
  next
    case 4
    with upd [OF 4(3) 4(2)] assms(6,7) show ?thesis by simp
  qed
qed

text \<open>One operation of the store keeps the rows well formed and refines the specification.\<close>

definition ddb_step_ok ::
  "(ddb_req \<Rightarrow> 'db \<Rightarrow> ddb_resp \<times> 'db) \<Rightarrow> ('db \<Rightarrow> string \<Rightarrow> string \<Rightarrow> ddb_item option) \<Rightarrow> dynamo_kv
    \<Rightarrow> string \<Rightarrow> time \<Rightarrow> kv_op \<Rightarrow> 'db \<Rightarrow> bool" where
  "ddb_step_ok serve rows d own t op db \<longleftrightarrow>
     (let res = ddb_exec serve d own t op db; spec = kv_spec ddb_rule own t op (ddb_view rows d db)
      in ddb_wf rows d (snd res) \<and>
         ((fst res = fst spec \<and> ddb_view rows d (snd res) = snd spec)
          \<or> ((\<exists>e. fst res = RErr e)
             \<and> (ddb_view rows d (snd res) = snd spec \<or> ddb_view rows d (snd res) = ddb_view rows d db))))"

locale dynamodb_store = dynamodb serve rows holds
  for serve :: "ddb_req \<Rightarrow> 'db \<Rightarrow> ddb_resp \<times> 'db"
    and rows :: "'db \<Rightarrow> string \<Rightarrow> string \<Rightarrow> ddb_item option"
    and holds :: "ddb_cond \<Rightarrow> ddb_item \<Rightarrow> bool" +
  fixes d :: dynamo_kv
begin

lemmas holds_simps =
  holds_not_exists holds_exists holds_eq holds_lt holds_gt holds_and holds_or

lemma row_cases:
  assumes "ddb_wf rows d db"
  obtains (absent) "rows db (d_table d) (ddb_key d k) = None" and "ddb_view rows d db k = None"
    | (row) i l where "rows db (d_table d) (ddb_key d k) = Some i" and "ddb_lease i = Some l"
        and "ddb_view rows d db k = Some l" and "i ''pk'' \<noteq> None"
proof (cases "rows db (d_table d) (ddb_key d k)")
  case None
  then show ?thesis by (intro absent) (simp_all add: ddb_view_def)
next
  case (Some i)
  with assms obtain l where "ddb_lease i = Some l" and "i ''pk'' \<noteq> None" by (auto simp: ddb_wf_def)
  with Some show ?thesis by (intro row) (simp_all add: ddb_view_def)
qed

abbreviation step_ok :: "string \<Rightarrow> time \<Rightarrow> kv_op \<Rightarrow> 'db \<Rightarrow> bool" where
  "step_ok \<equiv> ddb_step_ok serve rows d"

lemmas step_ok_def = ddb_step_ok_def

lemma put_step:
  assumes wf: "ddb_wf rows d db"
  shows "step_ok own t (PutIfAbsent k v ttl) db"
  unfolding step_ok_def Let_def
proof (rule ddb_cond_write_refines [OF wf])
  let ?d = "d\<lparr>d_owner := own\<rparr>"
  let ?c = "COr (AttrNotExists ''pk'') (CLt ''expires_at'' (AvN (now_unix t)))"
  show "ddb_cond_write (holds ?c) rows (d_table d) (ddb_key d k) (Some (ddb_item ?d t k v ttl)) db
      (serve (PutItem (d_table d) (ddb_item ?d t k v ttl) ?c) db)"
    by (rule put_item) simp
  show "holds ?c (case rows db (d_table d) (ddb_key d k) of None \<Rightarrow> Map.empty | Some i \<Rightarrow> i)
      = (case ddb_view rows d db k of None \<Rightarrow> True | Some l \<Rightarrow> lapsed_at ddb_rule t l)"
    using wf by (cases rule: row_cases [where k = k])
      (auto simp: holds_simps ddb_lease_SomeD(3) split: option.splits)
qed (auto simp: ddb_exec_def ddb_put_if_absent_def split: option.splits)

lemma cas_step:
  assumes wf: "ddb_wf rows d db"
  shows "step_ok own t (CompareAndSwap k old new ttl) db"
  unfolding step_ok_def Let_def
proof (rule ddb_cond_write_refines [OF wf])
  let ?d = "d\<lparr>d_owner := own\<rparr>"
  let ?c = "CAnd (CEq ''val'' (AvS old))
    (COr (AttrNotExists ''expires_at'') (CGt ''expires_at'' (AvN (now_unix t))))"
  show "ddb_cond_write (holds ?c) rows (d_table d) (ddb_key d k) (Some (ddb_item ?d t k new ttl)) db
      (serve (PutItem (d_table d) (ddb_item ?d t k new ttl) ?c) db)"
    by (rule put_item) simp
  show "holds ?c (case rows db (d_table d) (ddb_key d k) of None \<Rightarrow> Map.empty | Some i \<Rightarrow> i)
      = (case ddb_view rows d db k of None \<Rightarrow> False | Some l \<Rightarrow> live_at ddb_rule t l \<and> l_val l = old)"
    using wf by (cases rule: row_cases [where k = k])
      (auto simp: holds_simps ddb_lease_SomeD split: option.splits)
qed (auto simp: ddb_exec_def ddb_compare_and_swap_def split: option.splits)

lemma delete_step:
  assumes wf: "ddb_wf rows d db"
  shows "step_ok own t (Delete k ifv) db"
  unfolding step_ok_def Let_def
proof (rule ddb_cond_write_refines [OF wf delete_item])
  show "(case map_option (\<lambda>v. CEq ''val'' (AvS v)) ifv of None \<Rightarrow> \<lambda>_. True | Some c \<Rightarrow> holds c)
      (case rows db (d_table d) (ddb_key d k) of None \<Rightarrow> Map.empty | Some i \<Rightarrow> i)
    = (case ifv of None \<Rightarrow> True
       | Some v \<Rightarrow> (case ddb_view rows d db k of None \<Rightarrow> False | Some l \<Rightarrow> l_val l = v))"
    using wf by (cases rule: row_cases [where k = k])
      (auto simp: holds_simps ddb_lease_SomeD split: option.splits)
qed (auto simp: ddb_exec_def ddb_delete_def split: option.splits)

lemma renew_step:
  assumes wf: "ddb_wf rows d db"
  shows "step_ok own t (Renew k ttl) db"
proof (cases "ttl \<le> 0")
  case True
  then show ?thesis using wf by (simp add: step_ok_def ddb_exec_def ddb_renew_def renew_error_def)
next
  case False
  let ?c = "CAnd (CAnd (AttrExists ''pk'') (CGt ''expires_at'' (AvN (now_unix t)))) (CEq ''owner'' (AvS own))"
  let ?out = "serve (UpdateItem (d_table d) (ddb_key d k)
    (''expires_at'', AvN (now_unix t + ttl div second)) ?c) db"
  have res: "ddb_exec serve d own t (Renew k ttl) db = apfst bool_res (apfst (ddb_write_result ''renew'' k) ?out)"
    using False by (simp add: ddb_exec_def ddb_renew_def)
  from wf show ?thesis
  proof (cases rule: row_cases [where k = k])
    case absent
    have "\<not> holds ?c Map.empty" by (simp add: holds_simps)
    with absent have w: "ddb_cond_write (holds ?c) rows (d_table d) (ddb_key d k) None db ?out"
      by (intro update_absent)
    show ?thesis unfolding step_ok_def Let_def
      by (rule ddb_cond_write_refines [OF wf w, where guard = False and l = None])
        (use absent False res in \<open>auto simp: holds_simps\<close>)
  next
    case (row i l)
    note w = update_item [OF row(1), of ?c "''expires_at''" "AvN (now_unix t + ttl div second)"]
    show ?thesis unfolding step_ok_def Let_def
      by (rule ddb_cond_write_refines [OF wf w,
            where guard = "live_at ddb_rule t l \<and> l_exp l \<noteq> None \<and> l_owner l = own"
              and l = "Some (l\<lparr>l_exp := expiry_at ddb_rule t ttl\<rparr>)"])
        (use row False res in \<open>auto simp: holds_simps ddb_lease_SomeD ddb_lease_renewed split: option.splits\<close>)
  qed
qed

lemma get_step:
  assumes wf: "ddb_wf rows d db"
  shows "step_ok own t (Get k) db"
proof -
  have keep: "rows (snd (serve (GetItem (d_table d) (ddb_key d k) True) db)) = rows db"
    and resp: "fst (serve (GetItem (d_table d) (ddb_key d k) True) db) = DdbItem (rows db (d_table d) (ddb_key d k))
      \<or> (\<exists>e. fst (serve (GetItem (d_table d) (ddb_key d k) True) db) = DdbFail e)"
    using get_item by blast+
  obtain r db' where out: "serve (GetItem (d_table d) (ddb_key d k) True) db = (r, db')" by fastforce
  with keep have same: "ddb_view rows d db' = ddb_view rows d db" "ddb_wf rows d db'"
    using wf by (simp_all add: ddb_view_def ddb_wf_def fun_eq_iff)
  from resp out consider "r = DdbItem (rows db (d_table d) (ddb_key d k))" | e where "r = DdbFail e" by auto
  then show ?thesis
  proof cases
    case 1
    from wf show ?thesis
      by (cases rule: row_cases [where k = k])
        (use 1 out same in \<open>auto simp: step_ok_def ddb_exec_def ddb_get_def ddb_lease_SomeD split: option.splits\<close>)
  next
    case 2
    with out same show ?thesis by (simp add: step_ok_def ddb_exec_def ddb_get_def)
  qed
qed

lemma all_steps: "ddb_wf rows d db \<Longrightarrow> step_ok own t op db"
  by (cases op) (simp_all add: put_step cas_step get_step delete_step renew_step)

sublocale leases: kv_contract "ddb_exec serve d" "ddb_view rows d" ddb_rule "ddb_wf rows d"
proof unfold_locales
  fix st own t op
  assume "ddb_wf rows d st"
  then have "step_ok own t op st" by (rule all_steps)
  then show "ddb_wf rows d (snd (ddb_exec serve d own t op st))"
    and "(fst (ddb_exec serve d own t op st) = fst (kv_spec ddb_rule own t op (ddb_view rows d st))
        \<and> ddb_view rows d (snd (ddb_exec serve d own t op st)) = snd (kv_spec ddb_rule own t op (ddb_view rows d st)))
      \<or> ((\<exists>e. fst (ddb_exec serve d own t op st) = RErr e)
        \<and> (ddb_view rows d (snd (ddb_exec serve d own t op st)) = snd (kv_spec ddb_rule own t op (ddb_view rows d st))
           \<or> ddb_view rows d (snd (ddb_exec serve d own t op st)) = ddb_view rows d st))"
    by (simp_all add: step_ok_def Let_def)
qed (auto split: option.splits)

lemma store_contract: "kv_contract (ddb_exec serve d) (ddb_view rows d) ddb_rule (ddb_wf rows d)"
  by unfold_locales

end

section \<open>A service that does not fail\<close>

lemma bool_res_err [simp]: "bool_res r = RErr e \<longleftrightarrow> r = Inl e"
  by (cases r) auto

lemma val_res_err [simp]: "val_res r = RErr e \<longleftrightarrow> r = Inl e"
  by (cases r) auto

lemma ddb_write_result_Inl: "ddb_write_result what k r = Inl e \<Longrightarrow> \<exists>e'. r = DdbFail e'"
  by (cases r) auto

locale dynamodb_up = dynamodb_store serve rows holds d
  for serve :: "ddb_req \<Rightarrow> 'db \<Rightarrow> ddb_resp \<times> 'db"
    and rows :: "'db \<Rightarrow> string \<Rightarrow> string \<Rightarrow> ddb_item option"
    and holds :: "ddb_cond \<Rightarrow> ddb_item \<Rightarrow> bool"
    and d :: dynamo_kv +
  assumes never_fails: "(\<And>tb it c. req = PutItem tb it c \<Longrightarrow> \<exists>p. it ''pk'' = Some (AvS p)) \<Longrightarrow>
      fst (serve req db) \<noteq> DdbFail e"
begin

lemma exec_no_error:
  "fst (ddb_exec serve d own t op db) = RErr e \<Longrightarrow> \<exists>k ttl. op = Renew k ttl \<and> ttl \<le> 0"
proof (cases op)
  case (Get k)
  assume e: "fst (ddb_exec serve d own t op db) = RErr e"
  obtain r db' where "serve (GetItem (d_table d) (ddb_key d k) True) db = (r, db')" by fastforce
  with never_fails [of "GetItem (d_table d) (ddb_key d k) True" db] e Get show ?thesis
    by (auto simp: ddb_exec_def ddb_get_def split: ddb_resp.splits option.splits ddb_av.splits if_splits)
qed (use never_fails in \<open>fastforce simp: ddb_exec_def ddb_put_if_absent_def ddb_compare_and_swap_def
    ddb_delete_def ddb_renew_def dest: ddb_write_result_Inl split: if_splits\<close>)+

sublocale up: kv_reliable "ddb_exec serve d" "ddb_view rows d" ddb_rule "ddb_wf rows d"
proof unfold_locales
  fix st own t op
  assume "ddb_wf rows d st"
  then have "ddb_step_ok serve rows d own t op st" by (rule all_steps)
  moreover have "ddb_exec serve d own t (Renew k ttl) st = (RErr (renew_error k), st)" if "ttl \<le> 0" for k ttl
    using that by (simp add: ddb_exec_def ddb_renew_def renew_error_def)
  ultimately show "fst (ddb_exec serve d own t op st) = fst (kv_spec ddb_rule own t op (ddb_view rows d st))
      \<and> ddb_view rows d (snd (ddb_exec serve d own t op st)) = snd (kv_spec ddb_rule own t op (ddb_view rows d st))"
    using exec_no_error [of own t op st] by (auto simp: ddb_step_ok_def Let_def)
qed

lemma store_reliable: "kv_reliable (ddb_exec serve d) (ddb_view rows d) ddb_rule (ddb_wf rows d)"
  by unfold_locales

end

section \<open>A reference service\<close>

text \<open>
  The documented behaviour as a function on tables of rows: the parameter's concrete
  instance, on which the laws are shown to hold together.
\<close>

type_synonym ddb_tables = "string \<Rightarrow> string \<Rightarrow> ddb_item option"

fun ddb_eval :: "ddb_cond \<Rightarrow> ddb_item \<Rightarrow> bool" where
  "ddb_eval (AttrNotExists a) i = (i a = None)"
| "ddb_eval (AttrExists a) i = (i a \<noteq> None)"
| "ddb_eval (CEq a v) i = (i a = Some v)"
| "ddb_eval (CLt a v) i = (case (i a, v) of (Some (AvN m), AvN n) \<Rightarrow> m < n | _ \<Rightarrow> False)"
| "ddb_eval (CGt a v) i = (case (i a, v) of (Some (AvN m), AvN n) \<Rightarrow> n < m | _ \<Rightarrow> False)"
| "ddb_eval (CAnd c c') i = (ddb_eval c i \<and> ddb_eval c' i)"
| "ddb_eval (COr c c') i = (ddb_eval c i \<or> ddb_eval c' i)"

definition ddb_row :: "ddb_tables \<Rightarrow> string \<Rightarrow> string \<Rightarrow> ddb_item" where
  "ddb_row db tb p = (case db tb p of None \<Rightarrow> Map.empty | Some i \<Rightarrow> i)"

definition ddb_set :: "ddb_tables \<Rightarrow> string \<Rightarrow> string \<Rightarrow> ddb_item option \<Rightarrow> ddb_tables" where
  "ddb_set db tb p new = db(tb := (db tb)(p := new))"

fun ddb_ref_serve :: "ddb_req \<Rightarrow> ddb_tables \<Rightarrow> ddb_resp \<times> ddb_tables" where
  "ddb_ref_serve (PutItem tb it c) db =
     (case it ''pk'' of
        Some (AvS p) \<Rightarrow> (if ddb_eval c (ddb_row db tb p) then (DdbOk, ddb_set db tb p (Some it)) else (DdbCondFailed, db))
      | _ \<Rightarrow> (DdbFail (External ''ValidationException''), db))"
| "ddb_ref_serve (GetItem tb p _) db = (DdbItem (db tb p), db)"
| "ddb_ref_serve (DeleteItem tb p oc) db =
     (if (case oc of None \<Rightarrow> True | Some c \<Rightarrow> ddb_eval c (ddb_row db tb p))
      then (DdbOk, ddb_set db tb p None) else (DdbCondFailed, db))"
| "ddb_ref_serve (UpdateItem tb p av c) db =
     (if ddb_eval c (ddb_row db tb p)
      then (DdbOk, ddb_set db tb p (Some ((case db tb p of None \<Rightarrow> [''pk'' \<mapsto> AvS p] | Some i \<Rightarrow> i)(fst av \<mapsto> snd av))))
      else (DdbCondFailed, db))"

interpretation ddbref: dynamodb_up ddb_ref_serve "\<lambda>db. db" ddb_eval d for d
proof unfold_locales
  fix it :: ddb_item and p c tb db
  assume "it ''pk'' = Some (AvS p)"
  then show "ddb_cond_write (ddb_eval c) (\<lambda>db. db) tb p (Some it) db (ddb_ref_serve (PutItem tb it c) db)"
    by (simp add: ddb_cond_write_def ddb_row_def ddb_set_def)
next
  fix oc tb p db
  show "ddb_cond_write (case oc of None \<Rightarrow> (\<lambda>_. True) | Some c \<Rightarrow> ddb_eval c) (\<lambda>db. db) tb p None db
      (ddb_ref_serve (DeleteItem tb p oc) db)"
    by (cases oc) (simp_all add: ddb_cond_write_def ddb_row_def ddb_set_def)
next
  fix req db e
  assume ok: "\<And>tb it c. req = PutItem tb it c \<Longrightarrow> \<exists>p. it ''pk'' = Some (AvS p)"
  show "fst (ddb_ref_serve req db) \<noteq> DdbFail e"
  proof (cases req)
    case (PutItem tb it c)
    with ok obtain p where "it ''pk'' = Some (AvS p)" by blast
    with PutItem show ?thesis by simp
  qed simp_all
qed (auto simp: ddb_cond_write_def ddb_row_def ddb_set_def split: ddb_av.splits option.splits)

section \<open>Properties\<close>

definition ddb_demo :: dynamo_kv where
  "ddb_demo = \<lparr>d_table = ''muster'', d_prefix = ''tikv'', d_owner = ''task/1''\<rparr>"

definition ddb_demo_db :: ddb_tables where
  "ddb_demo_db = snd (ddb_exec ddb_ref_serve ddb_demo ''a'' 0 (PutIfAbsent ''seed'' ''10.0.0.1'' (30 * second)) (\<lambda>_ _. None))"

lemma ddb_demo_facts:
  "ddb_wf (\<lambda>db. db) ddb_demo ddb_demo_db"
  "ddb_view (\<lambda>db. db) ddb_demo ddb_demo_db ''seed'' = Some \<lparr>l_val = ''10.0.0.1'', l_owner = ''a'', l_exp = Some 30\<rparr>"
  by (auto simp: ddb_demo_db_def ddb_exec_def ddb_put_if_absent_def ddb_item_def ddb_row_def ddb_set_def ddb_wf_def
      ddb_view_def ddb_lease_def ddb_key_def ddb_demo_def now_unix_def Let_def)

text \<open>
  The contract at the granularity of the table: deadlines and clock count whole seconds, and a
  lease is over from the second of its deadline on, for every operation alike. The code agrees
  with it except for one case, \<open>boundary_put\<close>: a put in the very second of the deadline.
\<close>

definition seconds_rule :: lease_rule where
  "seconds_rule =
     \<lparr>live_at = (\<lambda>t l. case l_exp l of None \<Rightarrow> True | Some e \<Rightarrow> now_unix t < e),
      lapsed_at = (\<lambda>t l. case l_exp l of None \<Rightarrow> False | Some e \<Rightarrow> e \<le> now_unix t),
      expiry_at = (\<lambda>t ttl. if ttl \<le> 0 then None else Some (now_unix t + ttl div second))\<rparr>"

definition boundary_put :: "time \<Rightarrow> kv_op \<Rightarrow> kv_map \<Rightarrow> bool" where
  "boundary_put t op m =
     (case op of
        PutIfAbsent k v ttl \<Rightarrow> (case m k of None \<Rightarrow> False | Some l \<Rightarrow> l_exp l = Some (now_unix t))
      | _ \<Rightarrow> False)"

lemma seconds_rule_simps:
  "live_at seconds_rule = live_at ddb_rule" "expiry_at seconds_rule = expiry_at ddb_rule"
  "lapsed_at seconds_rule t l \<longleftrightarrow> \<not> live_at seconds_rule t l"
  by (auto simp: seconds_rule_def ddb_rule_def fun_eq_iff split: option.splits)

lemma ddb_spec_seconds: "\<not> boundary_put t op m \<Longrightarrow> kv_spec ddb_rule own t op m = kv_spec seconds_rule own t op m"
  by (cases op) (auto simp: boundary_put_def seconds_rule_simps(1,2) new_lease_def seconds_rule_simps(3) split: option.splits)

lemma ddb_spec_boundary: "boundary_put t op m \<Longrightarrow> kv_spec ddb_rule own t op m = (RBool False, m)"
  by (auto simp: boundary_put_def split: kv_op.splits option.splits)

text \<open>The deadline on record: dropping the fractions twice costs less than two seconds.\<close>

lemma whole_seconds_deadline:
  "t + ttl - 2 * second < (now_unix t + ttl div second) * second \<and> (now_unix t + ttl div second) * second \<le> t + ttl"
proof -
  have "now_unix t * second = t - t mod second" "ttl div second * second = ttl - ttl mod second"
    by (simp_all add: now_unix_def minus_mod_eq_div_mult)
  moreover have "0 \<le> t mod second" "t mod second < second" "0 \<le> ttl mod second" "ttl mod second < second"
    by simp_all
  ultimately show ?thesis unfolding distrib_right by linarith
qed

lemma ddb_deadline:
  "0 < ttl \<longrightarrow> (\<exists>e. expiry_at ddb_rule t ttl = Some e \<and> t + ttl - 2 * second < e * second \<and> e * second \<le> t + ttl)"
  using whole_seconds_deadline [of t ttl] by simp

text \<open>
  C6: over any service with DynamoDB's conditional-write semantics, an operation of the DynamoDB
  store answers what the KVStore contract says and leaves exactly the leases it says, with two
  deviations the statement spells out. The contract is read at whole seconds: a lease of ttl is
  recorded as ending ttl's whole seconds after the current whole second, which is less than two
  seconds before the deadline asked for and never after it. And in the one second in which a
  lease ends, where the contract has the key absent, a put of that key is refused and changes
  nothing. If the call fails the store reports an error and the write was applied as a whole or
  not at all.
\<close>

theorem dynamo_refines_contract:
  assumes "dynamodb_store serve rows holds" and "ddb_wf rows d db"
    and "ddb_exec serve d own t op db = (r, db')"
    and "kv_spec seconds_rule own t op (ddb_view rows d db) = (spec, m')"
  shows "ddb_wf rows d db'
    \<and> (if boundary_put t op (ddb_view rows d db)
       then (r = RBool False \<or> (\<exists>e. r = RErr e)) \<and> ddb_view rows d db' = ddb_view rows d db
       else (r = spec \<and> ddb_view rows d db' = m')
         \<or> ((\<exists>e. r = RErr e) \<and> (ddb_view rows d db' = m' \<or> ddb_view rows d db' = ddb_view rows d db)))
    \<and> (0 < ttl \<longrightarrow> (\<exists>e. expiry_at seconds_rule t ttl = Some e
         \<and> t + ttl - 2 * second < e * second \<and> e * second \<le> t + ttl))"
proof -
  note c = dynamodb_store.store_contract [OF assms(1), of d]
  show ?thesis
    using kv_contract.exec_invar [OF c assms(2), of own t op] kv_contract.exec_refines [OF c assms(2), of own t op]
      assms(3,4) ddb_spec_seconds [of t op "ddb_view rows d db" own] ddb_spec_boundary [of t op "ddb_view rows d db" own]
      ddb_deadline [of ttl t]
    by (simp only: seconds_rule_simps) (auto split: if_splits)
qed

lemma dynamo_refines_contract_witness:
  "ddb_wf (\<lambda>db. db) ddb_demo (snd (ddb_exec ddb_ref_serve ddb_demo ''b'' (30 * second) (PutIfAbsent ''seed'' ''10.0.0.2'' 1) ddb_demo_db))
    \<and> ddb_view (\<lambda>db. db) ddb_demo (snd (ddb_exec ddb_ref_serve ddb_demo ''b'' (30 * second) (PutIfAbsent ''seed'' ''10.0.0.2'' 1) ddb_demo_db))
      = ddb_view (\<lambda>db. db) ddb_demo ddb_demo_db"
proof -
  have "boundary_put (30 * second) (PutIfAbsent ''seed'' ''10.0.0.2'' 1) (ddb_view (\<lambda>db. db) ddb_demo ddb_demo_db)"
    by (simp add: boundary_put_def ddb_demo_facts(2) now_unix_def)
  with dynamo_refines_contract [OF ddbref.dynamodb_store_axioms ddb_demo_facts(1) prod.collapse [symmetric]
      prod.collapse [symmetric], of "''b''" "30 * second" "PutIfAbsent ''seed'' ''10.0.0.2'' 1" 1]
  show ?thesis by simp
qed

text \<open>
  Mutual exclusion. Over DynamoDB, a lease that has not lapsed survives any sequence of
  operations by anyone who neither names its value nor is its owner renewing it: the key
  still holds it afterwards, whether or not calls failed on the way.
\<close>

theorem dynamo_lease_protected:
  assumes "dynamodb_store serve rows holds" and "ddb_wf rows d db"
    and "ddb_view rows d db k = Some l"
    and "list_all (\<lambda>(own, t, op). \<not> lapsed_at ddb_rule t l \<and> \<not> entitled k l own op) evs"
  shows "ddb_view rows d (snd (kv_run (ddb_exec serve d) evs db)) k = Some l"
  by (rule kv_contract.run_protected [OF dynamodb_store.store_contract [OF assms(1)] assms(2,3)])
    (use assms(4) in \<open>auto simp: list_all_iff\<close>)

lemma dynamo_lease_protected_witness:
  "ddb_view (\<lambda>db. db) ddb_demo (snd (kv_run (ddb_exec ddb_ref_serve ddb_demo)
     [(''b'', 2 * second, PutIfAbsent ''seed'' ''10.0.0.2'' 0), (''b'', 3 * second, Delete ''seed'' (Some ''10.0.0.2''))]
     ddb_demo_db)) ''seed'' = Some \<lparr>l_val = ''10.0.0.1'', l_owner = ''a'', l_exp = Some 30\<rparr>"
  by (rule dynamo_lease_protected [OF ddbref.dynamodb_store_axioms ddb_demo_facts])
    (simp add: entitled_def now_unix_def)

text \<open>
  Seed election over a DynamoDB that answers. When owners race to put a free key with
  leases that outlast the race, exactly one put-if-absent answers true and its value and
  owner are what the table holds at the end.
\<close>

theorem dynamo_seed_election:
  assumes "dynamodb_up serve rows holds" and "ddb_wf rows d db" and "seed_race ddb_rule k evs"
    and "case ddb_view rows d db k of None \<Rightarrow> True | Some l \<Rightarrow> list_all (\<lambda>(own, t, op). lapsed_at ddb_rule t l) evs"
    and "list_ex (\<lambda>(own, t, op). case op of PutIfAbsent k' _ _ \<Rightarrow> k' = k | _ \<Rightarrow> False) evs"
  shows "\<exists>own v. kv_winners k evs (fst (kv_run (ddb_exec serve d) evs db)) = [(own, v)]
    \<and> (\<exists>l. ddb_view rows d (snd (kv_run (ddb_exec serve d) evs db)) k = Some l \<and> l_val l = v \<and> l_owner l = own)"
proof (rule kv_reliable.race_exactly_one_winner [OF dynamodb_up.store_reliable [OF assms(1)] assms(2,3)])
  show "case ddb_view rows d db k of None \<Rightarrow> True | Some l \<Rightarrow> \<forall>(own, t, op) \<in> set evs. lapsed_at ddb_rule t l"
    using assms(4) by (auto simp: list_all_iff split: option.splits)
  show "\<exists>own t v ttl. (own, t, PutIfAbsent k v ttl) \<in> set evs"
    using assms(5) by (fastforce simp: list_ex_iff split: kv_op.splits)
qed

definition ddb_demo_race :: "kv_event list" where
  "ddb_demo_race =
     [(''b'', 40 * second, PutIfAbsent ''seed'' ''10.0.0.2'' (60 * second)),
      (''c'', 41 * second, PutIfAbsent ''seed'' ''10.0.0.3'' (60 * second))]"

lemma dynamo_seed_election_witness:
  "\<exists>own v. kv_winners ''seed'' ddb_demo_race (fst (kv_run (ddb_exec ddb_ref_serve ddb_demo) ddb_demo_race ddb_demo_db)) = [(own, v)]
    \<and> (\<exists>l. ddb_view (\<lambda>db. db) ddb_demo (snd (kv_run (ddb_exec ddb_ref_serve ddb_demo) ddb_demo_race ddb_demo_db)) ''seed'' = Some l
         \<and> l_val l = v \<and> l_owner l = own)"
  by (rule dynamo_seed_election [OF ddbref.dynamodb_up_axioms ddb_demo_facts(1)])
    (simp_all add: ddb_demo_facts(2) ddb_demo_race_def seed_race_def race_event_def outlasts_def new_lease_def now_unix_def)

text \<open>
  The boundary second. In the second in which a DynamoDB lease ends the key is neither
  readable nor claimable: Get answers no value although PutIfAbsent still answers false.
\<close>

theorem dynamo_boundary_second:
  assumes "dynamodb_up serve rows holds" and "ddb_wf rows d db"
    and "ddb_view rows d db k = Some l" and "l_exp l = Some (now_unix t)"
  shows "fst (ddb_exec serve d own t (Get k) db) = RVal None
    \<and> fst (ddb_exec serve d own t (PutIfAbsent k v ttl) db) = RBool False"
proof -
  note r = dynamodb_up.store_reliable [OF assms(1), of d]
  show ?thesis
    using kv_reliable.exec_exact [OF r assms(2), of own t "Get k"]
      kv_reliable.exec_exact [OF r assms(2), of own t "PutIfAbsent k v ttl"] assms(3,4) by simp
qed

lemma dynamo_boundary_second_witness:
  "fst (ddb_exec ddb_ref_serve ddb_demo ''b'' (30 * second) (Get ''seed'') ddb_demo_db) = RVal None
    \<and> fst (ddb_exec ddb_ref_serve ddb_demo ''b'' (30 * second) (PutIfAbsent ''seed'' ''10.0.0.2'' 0) ddb_demo_db) = RBool False"
  by (rule dynamo_boundary_second [OF ddbref.dynamodb_up_axioms ddb_demo_facts]) (simp add: now_unix_def)

end
