(* ===== verification/GCS_KV.thy ===== *)
theory GCS_KV
  imports Mem_KV Go_Strings
begin

text \<open>
  The Cloud Storage store of internal/provider/gcp/kv.go. One operation is several calls on
  the storage service, so each is written as a program: a tree whose nodes are a request to
  the service (\<open>Rpc\<close>), a reading of the local clock (\<open>Clock\<close>) and the result (\<open>Ret\<close>). The
  service itself is code outside the repository and stays a parameter \<open>serve\<close>; what the code
  relies on is the locale \<open>gcs_service\<close>. \<open>gcs_run\<close> runs one program alone; the theory
  \<open>GCS_Race\<close> interleaves many. \<^verbatim>\<open>g.now().Add(ttl).UTC().Format(time.RFC3339)\<close> only labels the
  object for a human reader, so the format is a field of the store.
\<close>

section \<open>Requests, programs and the store\<close>

datatype gcs_cond = DoesNotExist | GenerationMatch int

type_synonym gcs_meta = "string \<rightharpoonup> string"

datatype gcs_req =
    GAttrs string
  | GRead string int
  | GWrite string gcs_cond string gcs_meta
  | GDelete string "gcs_cond option"

datatype gcs_resp =
    GAttrsOk int gcs_meta time
  | GBody string
  | GOk
  | GPrecond
  | GNotFound
  | GFail go_error

datatype 'r gcs_prog =
    Ret 'r
  | Rpc gcs_req "gcs_resp \<Rightarrow> 'r gcs_prog"
  | Clock "time \<Rightarrow> 'r gcs_prog"

record gcs_kv =
  g_prefix :: string
  g_owner :: string
  g_rfc3339 :: "time \<Rightarrow> string"

definition leasePrefix :: string where
  "leasePrefix = ''leases''"

definition gcs_obj :: "gcs_kv \<Rightarrow> string \<Rightarrow> string" where
  "gcs_obj g key =
     (let name = leasePrefix @ ''/'';
          name = (if g_prefix g \<noteq> [] then name @ g_prefix g @ ''/'' else name)
      in name @ key)"

record entryState =
  es_val :: string
  es_gen :: int
  es_owner :: string
  es_expires :: "time option"

definition es_live :: "entryState \<Rightarrow> time \<Rightarrow> bool" where
  "es_live e now = (case es_expires e of None \<Rightarrow> True | Some x \<Rightarrow> now < x)"

definition meta_get :: "gcs_meta \<Rightarrow> string \<Rightarrow> string" where
  "meta_get md k = (case md k of None \<Rightarrow> [] | Some v \<Rightarrow> v)"

definition gcs_entry :: "string \<Rightarrow> int \<Rightarrow> gcs_meta \<Rightarrow> time \<Rightarrow> entryState" where
  "gcs_entry body gen md upd =
     \<lparr>es_val = body, es_gen = gen, es_owner = meta_get md ''owner'',
      es_expires = (case parse_int64 (meta_get md ''ttl_ms'') of
                      Some ms \<Rightarrow> (if 0 < ms then Some (upd + wrap64 (ms * millisecond)) else None)
                    | None \<Rightarrow> None)\<rparr>"

text \<open>Any response a call does not expect is an error of that call.\<close>

fun resp_err :: "gcs_resp \<Rightarrow> go_error" where
  "resp_err (GFail e) = e"
| "resp_err GPrecond = External ''412''"
| "resp_err GNotFound = External ''404''"
| "resp_err _ = External ''unexpected response''"

definition gcs_read ::
  "gcs_kv \<Rightarrow> string \<Rightarrow> ((entryState option) go_result \<Rightarrow> 'r gcs_prog) \<Rightarrow> 'r gcs_prog" where
  "gcs_read g key cont =
     Rpc (GAttrs (gcs_obj g key)) (\<lambda>r. case r of
         GNotFound \<Rightarrow> cont (Inr None)
       | GAttrsOk gen md upd \<Rightarrow>
           Rpc (GRead (gcs_obj g key) gen) (\<lambda>r. case r of
               GNotFound \<Rightarrow> cont (Inr None)
             | GBody body \<Rightarrow> cont (Inr (Some (gcs_entry body gen md upd)))
             | _ \<Rightarrow> cont (Inl (resp_err r)))
       | _ \<Rightarrow> cont (Inl (resp_err r)))"

fun write_result :: "gcs_resp \<Rightarrow> bool go_result" where
  "write_result GOk = Inr True"
| "write_result GPrecond = Inr False"
| "write_result r = Inl (resp_err r)"

definition gcs_write ::
  "gcs_kv \<Rightarrow> string \<Rightarrow> string \<Rightarrow> duration \<Rightarrow> gcs_cond \<Rightarrow> (bool go_result \<Rightarrow> 'r gcs_prog) \<Rightarrow> 'r gcs_prog" where
  "gcs_write g key val ttl cond cont =
     (let md = [''owner'' \<mapsto> g_owner g];
          put = (\<lambda>md. Rpc (GWrite (gcs_obj g key) cond val md) (\<lambda>r. cont (write_result r)))
      in if 0 < ttl
         then Clock (\<lambda>now. put (md(''ttl_ms'' \<mapsto> format_int (ttl div millisecond),
                                   ''expires_at'' \<mapsto> g_rfc3339 g (now + ttl))))
         else put md)"

section \<open>The operations\<close>

definition gcs_put_if_absent :: "gcs_kv \<Rightarrow> string \<Rightarrow> string \<Rightarrow> duration \<Rightarrow> (bool go_result) gcs_prog" where
  "gcs_put_if_absent g key val ttl =
     gcs_write g key val ttl DoesNotExist (\<lambda>w. case w of
         Inl e \<Rightarrow> Ret (Inl (Wrapf ''kv put_if_absent %q: %w'' [key] e))
       | Inr ok \<Rightarrow>
           if ok then Ret (Inr True)
           else gcs_read g key (\<lambda>r. case r of
               Inl e \<Rightarrow> Ret (Inl (Wrapf ''kv put_if_absent %q: %w'' [key] e))
             | Inr None \<Rightarrow> Ret (Inr False)
             | Inr (Some e) \<Rightarrow> Clock (\<lambda>now.
                 if es_live e now then Ret (Inr False)
                 else gcs_write g key val ttl (GenerationMatch (es_gen e)) (\<lambda>w. case w of
                     Inl err \<Rightarrow> Ret (Inl (Wrapf ''kv put_if_absent %q: %w'' [key] err))
                   | Inr ok \<Rightarrow> Ret (Inr ok)))))"

definition gcs_compare_and_swap ::
  "gcs_kv \<Rightarrow> string \<Rightarrow> string \<Rightarrow> string \<Rightarrow> duration \<Rightarrow> (bool go_result) gcs_prog" where
  "gcs_compare_and_swap g key oldV newV ttl =
     gcs_read g key (\<lambda>r. case r of
         Inl e \<Rightarrow> Ret (Inl (Wrapf ''kv compare_and_swap %q: %w'' [key] e))
       | Inr None \<Rightarrow> Ret (Inr False)
       | Inr (Some e) \<Rightarrow> Clock (\<lambda>now.
           if \<not> es_live e now \<or> es_val e \<noteq> oldV then Ret (Inr False)
           else gcs_write g key newV ttl (GenerationMatch (es_gen e)) (\<lambda>w. case w of
               Inl err \<Rightarrow> Ret (Inl (Wrapf ''kv compare_and_swap %q: %w'' [key] err))
             | Inr ok \<Rightarrow> Ret (Inr ok))))"

definition gcs_get :: "gcs_kv \<Rightarrow> string \<Rightarrow> ((string option) go_result) gcs_prog" where
  "gcs_get g key =
     gcs_read g key (\<lambda>r. case r of
         Inl e \<Rightarrow> Ret (Inl (Wrapf ''kv get %q: %w'' [key] e))
       | Inr None \<Rightarrow> Ret (Inr None)
       | Inr (Some e) \<Rightarrow> Clock (\<lambda>now. Ret (Inr (if es_live e now then Some (es_val e) else None))))"

definition gcs_delete :: "gcs_kv \<Rightarrow> string \<Rightarrow> string option \<Rightarrow> (bool go_result) gcs_prog" where
  "gcs_delete g key ifValue =
     (case ifValue of
        None \<Rightarrow> Rpc (GDelete (gcs_obj g key) None) (\<lambda>r. case r of
            GOk \<Rightarrow> Ret (Inr True)
          | GNotFound \<Rightarrow> Ret (Inr True)
          | _ \<Rightarrow> Ret (Inl (Wrapf ''kv delete %q: %w'' [key] (resp_err r))))
      | Some v \<Rightarrow> gcs_read g key (\<lambda>r. case r of
            Inl e \<Rightarrow> Ret (Inl (Wrapf ''kv delete %q: %w'' [key] e))
          | Inr None \<Rightarrow> Ret (Inr False)
          | Inr (Some e) \<Rightarrow>
              if es_val e \<noteq> v then Ret (Inr False)
              else Rpc (GDelete (gcs_obj g key) (Some (GenerationMatch (es_gen e)))) (\<lambda>r. case r of
                  GOk \<Rightarrow> Ret (Inr True)
                | GPrecond \<Rightarrow> Ret (Inr False)
                | GNotFound \<Rightarrow> Ret (Inr False)
                | _ \<Rightarrow> Ret (Inl (Wrapf ''kv delete %q: %w'' [key] (resp_err r))))))"

definition gcs_renew :: "gcs_kv \<Rightarrow> string \<Rightarrow> duration \<Rightarrow> (bool go_result) gcs_prog" where
  "gcs_renew g key ttl =
     (if ttl \<le> 0 then Ret (Inl (Errorf ''kv renew %q: ttl must be positive'' [key]))
      else gcs_read g key (\<lambda>r. case r of
          Inl e \<Rightarrow> Ret (Inl (Wrapf ''kv renew %q: %w'' [key] e))
        | Inr None \<Rightarrow> Ret (Inr False)
        | Inr (Some e) \<Rightarrow>
            if es_expires e = None then Ret (Inr False)
            else Clock (\<lambda>now.
              if \<not> es_live e now \<or> es_owner e \<noteq> g_owner g then Ret (Inr False)
              else gcs_write g key (es_val e) ttl (GenerationMatch (es_gen e)) (\<lambda>w. case w of
                  Inl err \<Rightarrow> Ret (Inl (Wrapf ''kv renew %q: %w'' [key] err))
                | Inr ok \<Rightarrow> Ret (Inr ok)))))"

section \<open>One program alone\<close>

primrec gcs_run ::
  "(time \<Rightarrow> gcs_req \<Rightarrow> 's \<Rightarrow> gcs_resp \<times> 's) \<Rightarrow> time \<Rightarrow> 'r gcs_prog \<Rightarrow> 's \<Rightarrow> 'r \<times> 's" where
  "gcs_run serve t (Ret r) = (\<lambda>s. (r, s))"
| "gcs_run serve t (Rpc q k) = (\<lambda>s. case serve t q s of (a, s') \<Rightarrow> gcs_run serve t (k a) s')"
| "gcs_run serve t (Clock k) = (\<lambda>s. gcs_run serve t (k t) s)"

fun gcs_op ::
  "(time \<Rightarrow> gcs_req \<Rightarrow> 's \<Rightarrow> gcs_resp \<times> 's) \<Rightarrow> gcs_kv \<Rightarrow> time \<Rightarrow> kv_op \<Rightarrow> 's \<Rightarrow> kv_res \<times> 's" where
  "gcs_op serve g t (PutIfAbsent k v ttl) s = apfst bool_res (gcs_run serve t (gcs_put_if_absent g k v ttl) s)"
| "gcs_op serve g t (CompareAndSwap k old new ttl) s =
     apfst bool_res (gcs_run serve t (gcs_compare_and_swap g k old new ttl) s)"
| "gcs_op serve g t (Get k) s = apfst val_res (gcs_run serve t (gcs_get g k) s)"
| "gcs_op serve g t (Delete k ifv) s = apfst bool_res (gcs_run serve t (gcs_delete g k ifv) s)"
| "gcs_op serve g t (Renew k ttl) s = apfst bool_res (gcs_run serve t (gcs_renew g k ttl) s)"

definition gcs_exec ::
  "(time \<Rightarrow> gcs_req \<Rightarrow> 's \<Rightarrow> gcs_resp \<times> 's) \<Rightarrow> gcs_kv \<Rightarrow> string \<Rightarrow> time \<Rightarrow> kv_op \<Rightarrow> 's \<Rightarrow> kv_res \<times> 's" where
  "gcs_exec serve g own t op s = gcs_op serve (g\<lparr>g_owner := own\<rparr>) t op s"

section \<open>What the code relies on in Cloud Storage\<close>

record gobj =
  o_gen :: int
  o_body :: string
  o_meta :: gcs_meta
  o_updated :: time

definition cond_holds :: "gcs_cond \<Rightarrow> gobj option \<Rightarrow> bool" where
  "cond_holds c oo =
     (case c of DoesNotExist \<Rightarrow> oo = None
      | GenerationMatch g \<Rightarrow> (case oo of None \<Rightarrow> False | Some ob \<Rightarrow> o_gen ob = g))"

text \<open>
  Reads are strongly consistent; a write or delete under a precondition is applied exactly
  when the precondition holds and answers 412 (a delete possibly 404) when it does not; a
  write gives the object a generation no object ever had and stamps it with the server's
  time; a failed call may or may not have been applied. \<open>objs\<close> is the bucket's content and
  \<open>last_gen\<close> bounds the generations handed out so far.
\<close>

locale gcs_service =
  fixes serve :: "time \<Rightarrow> gcs_req \<Rightarrow> 's \<Rightarrow> gcs_resp \<times> 's"
    and objs :: "'s \<Rightarrow> string \<Rightarrow> gobj option"
    and last_gen :: "'s \<Rightarrow> int"
    and srv_ok :: "'s \<Rightarrow> bool"
  assumes srv_ok_serve: "srv_ok s \<Longrightarrow> serve t q s = (a, s') \<Longrightarrow> srv_ok s' \<and> last_gen s \<le> last_gen s'"
    and gen_bound: "srv_ok s \<Longrightarrow> objs s n = Some ob \<Longrightarrow> o_gen ob \<le> last_gen s"
    and serve_attrs: "srv_ok s \<Longrightarrow> serve t (GAttrs n) s = (a, s') \<Longrightarrow>
      objs s' = objs s \<and> ((\<exists>e. a = GFail e) \<or>
        a = (case objs s n of None \<Rightarrow> GNotFound | Some ob \<Rightarrow> GAttrsOk (o_gen ob) (o_meta ob) (o_updated ob)))"
    and serve_read: "srv_ok s \<Longrightarrow> serve t (GRead n gen) s = (a, s') \<Longrightarrow>
      objs s' = objs s \<and> ((\<exists>e. a = GFail e) \<or>
        a = (case objs s n of None \<Rightarrow> GNotFound
             | Some ob \<Rightarrow> if o_gen ob = gen then GBody (o_body ob) else GNotFound))"
    and serve_write: "srv_ok s \<Longrightarrow> serve t (GWrite n c body md) s = (a, s') \<Longrightarrow>
      (a = GPrecond \<and> \<not> cond_holds c (objs s n) \<and> objs s' = objs s)
      \<or> ((a = GOk \<or> (\<exists>e. a = GFail e)) \<and> cond_holds c (objs s n) \<and>
         (\<exists>g. last_gen s < g \<and> objs s' = (objs s)(n \<mapsto> \<lparr>o_gen = g, o_body = body, o_meta = md, o_updated = t\<rparr>)))
      \<or> ((\<exists>e. a = GFail e) \<and> objs s' = objs s)"
    and serve_delete: "srv_ok s \<Longrightarrow> serve t (GDelete n oc) s = (a, s') \<Longrightarrow>
      (let ok = (case oc of None \<Rightarrow> objs s n \<noteq> None | Some c \<Rightarrow> cond_holds c (objs s n))
       in ((a = GOk \<or> (\<exists>e. a = GFail e)) \<and> ok \<and> objs s' = (objs s)(n := None))
          \<or> ((a = GNotFound \<or> (oc \<noteq> None \<and> a = GPrecond)) \<and> \<not> ok \<and> objs s' = objs s)
          \<or> ((\<exists>e. a = GFail e) \<and> objs s' = objs s))"

section \<open>The leases a bucket holds\<close>

definition gobj_entry :: "gobj \<Rightarrow> entryState" where
  "gobj_entry ob = gcs_entry (o_body ob) (o_gen ob) (o_meta ob) (o_updated ob)"

definition es_lease :: "entryState \<Rightarrow> lease" where
  "es_lease e = \<lparr>l_val = es_val e, l_owner = es_owner e, l_exp = es_expires e\<rparr>"

definition gcs_view :: "('s \<Rightarrow> string \<Rightarrow> gobj option) \<Rightarrow> gcs_kv \<Rightarrow> 's \<Rightarrow> kv_map" where
  "gcs_view objs g s k = map_option (\<lambda>ob. es_lease (gobj_entry ob)) (objs s (gcs_obj g k))"

text \<open>
  What the code makes of a ttl: a lease lasts its whole milliseconds from the server's write
  time; a ttl below one millisecond leaves no lease at all, so the key is permanent, which the
  contract does not allow. (A Go duration is below 2^63 nanoseconds, so for one neither the upper
  bound nor the wrap-around of the product applies.)
\<close>

definition gcs_expiry :: "time \<Rightarrow> duration \<Rightarrow> time option" where
  "gcs_expiry t ttl =
     (let ms = ttl div millisecond
      in if 0 < ms \<and> ms < 2 ^ 63 then Some (t + wrap64 (ms * millisecond)) else None)"

definition gcs_rule :: lease_rule where
  "gcs_rule = \<lparr>live_at = (\<lambda>t l. \<not> expired t l), lapsed_at = expired, expiry_at = gcs_expiry\<rparr>"

lemma gcs_rule_simps [simp]:
  "live_at gcs_rule t l = (\<not> expired t l)"
  "lapsed_at gcs_rule t l = expired t l"
  "expiry_at gcs_rule = gcs_expiry"
  by (simp_all add: gcs_rule_def)

lemma es_live_expired: "es_live e t = (\<not> expired t (es_lease e))"
  by (auto simp: es_live_def expired_def es_lease_def split: option.splits)

lemma es_lease_sel [simp]:
  "l_val (es_lease e) = es_val e" "l_owner (es_lease e) = es_owner e" "l_exp (es_lease e) = es_expires e"
  by (simp_all add: es_lease_def)

lemma gcs_obj_inj: "gcs_obj g k = gcs_obj g k' \<longleftrightarrow> k = k'"
  by (simp add: gcs_obj_def Let_def)

lemma gcs_obj_owner [simp]: "gcs_obj (g\<lparr>g_owner := own\<rparr>) k = gcs_obj g k"
  by (cases "g_prefix g = []") (simp_all add: gcs_obj_def)

lemma gcs_view_upd:
  "objs s' = (objs s)(gcs_obj g k := new) \<Longrightarrow>
   gcs_view objs g s' = (gcs_view objs g s)(k := map_option (\<lambda>ob. es_lease (gobj_entry ob)) new)"
  by (auto simp: fun_eq_iff gcs_view_def gcs_obj_inj)

lemma gcs_view_same: "objs s' = objs s \<Longrightarrow> gcs_view objs g s' = gcs_view objs g s"
  by (simp add: fun_eq_iff gcs_view_def)

lemma gcs_view_owner [simp]: "gcs_view objs (g\<lparr>g_owner := own\<rparr>) = gcs_view objs g"
  by (simp add: fun_eq_iff gcs_view_def)

lemma cond_holds_simps [simp]:
  "cond_holds DoesNotExist oo = (oo = None)"
  "cond_holds (GenerationMatch gen) None = False"
  "cond_holds (GenerationMatch gen) (Some ob) = (o_gen ob = gen)"
  by (simp_all add: cond_holds_def)

lemma gobj_entry_gen [simp]: "es_gen (gobj_entry ob) = o_gen ob"
  by (simp add: gobj_entry_def gcs_entry_def)

text \<open>The metadata a write stores, and the lease it reads back as.\<close>

definition written_meta :: "gcs_kv \<Rightarrow> duration \<Rightarrow> time \<Rightarrow> gcs_meta" where
  "written_meta g ttl now =
     (if 0 < ttl
      then [''owner'' \<mapsto> g_owner g, ''ttl_ms'' \<mapsto> format_int (ttl div millisecond),
            ''expires_at'' \<mapsto> g_rfc3339 g (now + ttl)]
      else [''owner'' \<mapsto> g_owner g])"

lemma parse_int64_range: "parse_int64 s = Some v \<Longrightarrow> - (2 ^ 63) \<le> v \<and> v < 2 ^ 63"
  by (auto simp: parse_int64_def Let_def split: option.splits if_splits prod.splits)

lemma parse_format_big:
  assumes "2 ^ 63 \<le> i"
  shows "parse_int64 (format_int i) = None"
proof -
  obtain c cs where s: "format_nat (nat i) = c # cs"
    by (cases "format_nat (nat i)") auto
  from format_nat_hd_digit [OF s] have "c \<noteq> CHR ''-''" and "c \<noteq> CHR ''+''" by auto
  moreover have "parse_nat (c # cs) = Some (nat i)" by (simp flip: s)
  ultimately show ?thesis using assms by (simp add: parse_int64_def format_int_def s)
qed

lemma written_entry:
  "es_lease (gcs_entry v gen (written_meta g ttl now) t) = new_lease gcs_rule (g_owner g) t v ttl"
proof (cases "0 < ttl")
  case False
  then have "ttl div millisecond \<le> 0" by (simp add: div_nonpos_pos_le0)
  with False show ?thesis
    by (auto simp: written_meta_def gcs_entry_def meta_get_def es_lease_def new_lease_def gcs_expiry_def
        parse_int64_def parse_nat_def Let_def)
next
  case True
  let ?ms = "ttl div millisecond"
  have nn: "0 \<le> ?ms" using True by simp
  show ?thesis
  proof (cases "?ms < 2 ^ 63")
    case small: True
    with nn have "parse_int64 (format_int ?ms) = Some ?ms" by (intro parse_format_int) auto
    with True small show ?thesis
      by (auto simp: written_meta_def gcs_entry_def meta_get_def es_lease_def new_lease_def gcs_expiry_def Let_def)
  next
    case False
    then have "parse_int64 (format_int ?ms) = None" by (intro parse_format_big) auto
    with True False show ?thesis
      by (auto simp: written_meta_def gcs_entry_def meta_get_def es_lease_def new_lease_def gcs_expiry_def Let_def)
  qed
qed

section \<open>A program alone refines the specification\<close>

text \<open>
  What one operation must leave behind: a state the service may be in, and either exactly
  the answer and the leases of the specification or, if the service ever fails, an error
  with the write applied or not.
\<close>

definition gcs_fails :: "(time \<Rightarrow> gcs_req \<Rightarrow> 's \<Rightarrow> gcs_resp \<times> 's) \<Rightarrow> bool" where
  "gcs_fails serve \<longleftrightarrow> (\<exists>t q s e. fst (serve t q s) = GFail e)"

lemma gcs_failsI: "serve t q s = (GFail e, s') \<Longrightarrow> gcs_fails serve"
  unfolding gcs_fails_def by (metis fst_conv)

definition gcs_post ::
  "bool \<Rightarrow> ('s \<Rightarrow> string \<Rightarrow> gobj option) \<Rightarrow> ('s \<Rightarrow> bool) \<Rightarrow> gcs_kv \<Rightarrow> kv_res \<times> kv_map \<Rightarrow> kv_map \<Rightarrow> kv_res \<times> 's \<Rightarrow> bool" where
  "gcs_post fails objs srv_ok g spec m out \<longleftrightarrow>
     srv_ok (snd out) \<and>
       ((fst out = fst spec \<and> gcs_view objs g (snd out) = snd spec)
        \<or> (fails \<and> (\<exists>e. fst out = RErr e)
           \<and> (gcs_view objs g (snd out) = snd spec \<or> gcs_view objs g (snd out) = m)))"

definition gcs_step_ok ::
  "(time \<Rightarrow> gcs_req \<Rightarrow> 's \<Rightarrow> gcs_resp \<times> 's) \<Rightarrow> ('s \<Rightarrow> string \<Rightarrow> gobj option) \<Rightarrow> ('s \<Rightarrow> bool) \<Rightarrow> gcs_kv
    \<Rightarrow> string \<Rightarrow> time \<Rightarrow> kv_op \<Rightarrow> 's \<Rightarrow> bool" where
  "gcs_step_ok serve objs srv_ok g own t op s \<longleftrightarrow>
     gcs_post (gcs_fails serve) objs srv_ok g (kv_spec gcs_rule own t op (gcs_view objs g s)) (gcs_view objs g s)
       (gcs_exec serve g own t op s)"

lemma gcs_post_exact:
  "srv_ok s' \<Longrightarrow> spec = (r, gcs_view objs g s') \<Longrightarrow> gcs_post fails objs srv_ok g spec m (r, s')"
  by (simp add: gcs_post_def)

lemma gcs_post_fail:
  "fails \<Longrightarrow> srv_ok s' \<Longrightarrow> gcs_view objs g s' = m \<or> gcs_view objs g s' = snd spec
    \<Longrightarrow> gcs_post fails objs srv_ok g spec m (RErr e, s')"
  by (auto simp: gcs_post_def)

context gcs_service
begin

lemma gcs_fails_answer: "serve t q s = (a, s') \<Longrightarrow> a = GFail e \<Longrightarrow> gcs_fails serve"
  by (auto intro: gcs_failsI)

text \<open>A read answers the current entry, or fails; it changes no object.\<close>

lemma run_read:
  assumes "srv_ok s"
  obtains s' x where "srv_ok s'" and "objs s' = objs s" and "last_gen s \<le> last_gen s'"
    and "gcs_run serve t (gcs_read g k cont) s = gcs_run serve t (cont x) s'"
    and "x = Inr (map_option gobj_entry (objs s (gcs_obj g k))) \<or> (gcs_fails serve \<and> (\<exists>e. x = Inl e))"
proof -
  let ?n = "gcs_obj g k"
  obtain a s1 where s1: "serve t (GAttrs ?n) s = (a, s1)" by fastforce
  note ok1 = srv_ok_serve [OF assms s1]
  note at = serve_attrs [OF assms s1]
  show ?thesis
  proof (cases a)
    case (GAttrsOk gen md upd)
    with at obtain ob where ob: "objs s ?n = Some ob" and gen: "gen = o_gen ob" "md = o_meta ob" "upd = o_updated ob"
      by (auto split: option.splits)
    obtain b s2 where s2: "serve t (GRead ?n gen) s1 = (b, s2)" by fastforce
    have ok1': "srv_ok s1" using ok1 ..
    note ok2 = srv_ok_serve [OF ok1' s2]
    note rd = serve_read [OF ok1' s2]
    have "b = GBody (o_body ob) \<or> (\<exists>e. b = GFail e)"
      using rd at ob gen by auto
    then show ?thesis
    proof
      assume b: "b = GBody (o_body ob)"
      show ?thesis
        by (rule that [of s2 "Inr (Some (gcs_entry (o_body ob) gen md upd))"])
          (use ok1 ok2 rd at s1 s2 GAttrsOk b ob gen in \<open>auto simp: gcs_read_def gobj_entry_def\<close>)
    next
      assume "\<exists>e. b = GFail e"
      then obtain e where b: "b = GFail e" ..
      with s2 have "gcs_fails serve" by (blast intro: gcs_failsI)
      then show ?thesis
        by (intro that [of s2 "Inl e"])
          (use ok1 ok2 rd at s1 s2 GAttrsOk b ob gen in \<open>auto simp: gcs_read_def\<close>)
    qed
  next
    case GNotFound
    show ?thesis
      by (rule that [of s1 "Inr None"])
        (use ok1 at s1 GNotFound in \<open>auto simp: gcs_read_def split: option.splits\<close>)
  next
    case (GFail e)
    with s1 have "gcs_fails serve" by (blast intro: gcs_failsI)
    then show ?thesis
      by (intro that [of s1 "Inl e"]) (use ok1 at s1 GFail in \<open>auto simp: gcs_read_def\<close>)
  qed (use at in \<open>auto split: option.splits\<close>)
qed

text \<open>A write under a precondition, run alone.\<close>

lemma run_write:
  assumes "srv_ok s"
  obtains (refused) s' where "srv_ok s'" and "\<not> cond_holds c (objs s (gcs_obj g k))" and "objs s' = objs s"
      and "gcs_run serve t (gcs_write g k v ttl c cont) s = gcs_run serve t (cont (Inr False)) s'"
    | (written) s' where "srv_ok s'" and "cond_holds c (objs s (gcs_obj g k))"
      and "gcs_view objs g s' = (gcs_view objs g s)(k \<mapsto> new_lease gcs_rule (g_owner g) t v ttl)"
      and "gcs_run serve t (gcs_write g k v ttl c cont) s = gcs_run serve t (cont (Inr True)) s'"
    | (failed) s' e where "srv_ok s'" and "gcs_fails serve"
      and "gcs_view objs g s' = gcs_view objs g s \<or> (cond_holds c (objs s (gcs_obj g k))
             \<and> gcs_view objs g s' = (gcs_view objs g s)(k \<mapsto> new_lease gcs_rule (g_owner g) t v ttl))"
      and "gcs_run serve t (gcs_write g k v ttl c cont) s = gcs_run serve t (cont (Inl e)) s'"
proof -
  let ?n = "gcs_obj g k"
  obtain a s1 where s1: "serve t (GWrite ?n c v (written_meta g ttl t)) s = (a, s1)" by fastforce
  have run: "gcs_run serve t (gcs_write g k v ttl c cont) s = gcs_run serve t (cont (write_result a)) s1"
    using s1 by (cases "0 < ttl") (simp_all add: gcs_write_def written_meta_def Let_def)
  note ok = srv_ok_serve [OF assms s1]
  have upd: "gcs_view objs g s1 = (gcs_view objs g s)(k \<mapsto> new_lease gcs_rule (g_owner g) t v ttl)"
    if "objs s1 = (objs s)(?n \<mapsto> \<lparr>o_gen = gen, o_body = v, o_meta = written_meta g ttl t, o_updated = t\<rparr>)" for gen
    using gcs_view_upd [OF that] by (simp add: gobj_entry_def written_entry)
  from serve_write [OF assms s1] consider
      "a = GPrecond" "\<not> cond_holds c (objs s ?n)" "objs s1 = objs s"
    | gen where "a = GOk" "cond_holds c (objs s ?n)"
        "objs s1 = (objs s)(?n \<mapsto> \<lparr>o_gen = gen, o_body = v, o_meta = written_meta g ttl t, o_updated = t\<rparr>)"
    | e gen where "a = GFail e" "cond_holds c (objs s ?n)"
        "objs s1 = (objs s)(?n \<mapsto> \<lparr>o_gen = gen, o_body = v, o_meta = written_meta g ttl t, o_updated = t\<rparr>)"
    | e where "a = GFail e" "objs s1 = objs s"
    by blast
  then show ?thesis
  proof cases
    case 1
    with ok run show ?thesis by (intro refused) auto
  next
    case 2
    with ok run upd show ?thesis by (intro written) auto
  next
    case 3
    with s1 have "gcs_fails serve" by (blast intro: gcs_failsI)
    with 3 ok run upd show ?thesis by (intro failed [of s1 e]) auto
  next
    case 4
    have "gcs_view objs g s1 = gcs_view objs g s" using 4(2) by (rule gcs_view_same)
    moreover from 4 s1 have "gcs_fails serve" by (blast intro: gcs_failsI)
    ultimately show ?thesis using 4 ok run by (intro failed [of s1 e]) auto
  qed
qed

text \<open>The two rules by which an operation's program is followed call by call.\<close>

lemma read_rule:
  assumes "srv_ok s"
    and "\<And>s'. srv_ok s' \<Longrightarrow> objs s' = objs s \<Longrightarrow> gcs_view objs g s' = gcs_view objs g s \<Longrightarrow>
      gcs_post (gcs_fails serve) objs srv_ok g sp m
        (apfst f (gcs_run serve t (cont (Inr (map_option gobj_entry (objs s (gcs_obj g' k))))) s'))"
    and "\<And>s' e. gcs_fails serve \<Longrightarrow> srv_ok s' \<Longrightarrow> gcs_view objs g s' = gcs_view objs g s \<Longrightarrow>
      gcs_post (gcs_fails serve) objs srv_ok g sp m (apfst f (gcs_run serve t (cont (Inl e)) s'))"
  shows "gcs_post (gcs_fails serve) objs srv_ok g sp m (apfst f (gcs_run serve t (gcs_read g' k cont) s))"
  by (rule run_read [where g = g' and k = k and t = t and cont = cont, OF assms(1)])
    (use assms(2,3) gcs_view_same in metis)

lemma write_rule:
  assumes "srv_ok s" and "gcs_obj g' = gcs_obj g" and "g_owner g' = own"
    and "\<And>s'. srv_ok s' \<Longrightarrow> \<not> cond_holds c (objs s (gcs_obj g k)) \<Longrightarrow> objs s' = objs s \<Longrightarrow>
      gcs_post (gcs_fails serve) objs srv_ok g sp m (apfst f (gcs_run serve t (cont (Inr False)) s'))"
    and "\<And>s'. srv_ok s' \<Longrightarrow> cond_holds c (objs s (gcs_obj g k)) \<Longrightarrow>
      gcs_view objs g s' = (gcs_view objs g s)(k \<mapsto> new_lease gcs_rule own t v ttl) \<Longrightarrow>
      gcs_post (gcs_fails serve) objs srv_ok g sp m (apfst f (gcs_run serve t (cont (Inr True)) s'))"
    and "\<And>s' e. gcs_fails serve \<Longrightarrow> srv_ok s' \<Longrightarrow> gcs_view objs g s' = gcs_view objs g s
        \<or> (cond_holds c (objs s (gcs_obj g k))
           \<and> gcs_view objs g s' = (gcs_view objs g s)(k \<mapsto> new_lease gcs_rule own t v ttl)) \<Longrightarrow>
      gcs_post (gcs_fails serve) objs srv_ok g sp m (apfst f (gcs_run serve t (cont (Inl e)) s'))"
  shows "gcs_post (gcs_fails serve) objs srv_ok g sp m (apfst f (gcs_run serve t (gcs_write g' k v ttl c cont) s))"
proof -
  have view: "gcs_view objs g' = gcs_view objs g" using assms(2) by (simp add: fun_eq_iff gcs_view_def)
  from assms(1) show ?thesis
    by (cases rule: run_write [where g = g' and k = k and v = v and ttl = ttl and c = c and t = t and cont = cont])
      (use assms(2-6) in \<open>simp_all add: view\<close>)
qed

lemma view_obj:
  "gcs_view objs g s k = map_option (\<lambda>ob. es_lease (gobj_entry ob)) (objs s (gcs_obj g k))"
  by (simp add: gcs_view_def)

lemma put_step:
  assumes "srv_ok s"
  shows "gcs_step_ok serve objs srv_ok g own t (PutIfAbsent k v ttl) s"
  unfolding gcs_step_ok_def gcs_exec_def gcs_op.simps gcs_put_if_absent_def
proof (rule write_rule [OF assms, of _ _ own], goal_cases)
  case (3 s1)
  then obtain ob where ob: "objs s (gcs_obj g k) = Some ob" by auto
  then have view: "gcs_view objs g s k = Some (es_lease (gobj_entry ob))" by (simp add: view_obj)
  have same: "gcs_view objs g s1 = gcs_view objs g s" using 3(3) by (rule gcs_view_same)
  show ?case
    unfolding sum.case if_False
  proof (rule read_rule [OF 3(1)], goal_cases)
    case (1 s2)
    show ?case
    proof (cases "es_live (gobj_entry ob) t")
      case True
      with 1 3 ob view same show ?thesis
        by (simp add: es_live_expired) (rule gcs_post_exact, simp_all add: es_live_expired)
    next
      case False
      have "gcs_post (gcs_fails serve) objs srv_ok g
          (kv_spec gcs_rule own t (PutIfAbsent k v ttl) (gcs_view objs g s)) (gcs_view objs g s)
          (apfst bool_res (gcs_run serve t (gcs_write (g\<lparr>g_owner := own\<rparr>) k v ttl (GenerationMatch (o_gen ob))
             (\<lambda>w. case w of Inl err \<Rightarrow> Ret (Inl (Wrapf ''kv put_if_absent %q: %w'' [k] err)) | Inr ok \<Rightarrow> Ret (Inr ok))) s2))"
      proof (rule write_rule [OF 1(1), of _ _ own], goal_cases)
        case (3 s3)
        then show ?case using 1(2) \<open>objs s1 = objs s\<close> ob by simp
      next
        case (4 s3)
        then show ?case using 1 same view False by (auto simp: gcs_post_def es_live_expired)
      next
        case (5 s3 e)
        then show ?case using 1 same view False by (auto simp: gcs_post_def es_live_expired)
      qed (simp_all add: fun_eq_iff)
      with 3(3) ob False show ?thesis by simp
    qed
  next
    case (2 s2 e)
    with same show ?case by (simp add: gcs_post_fail)
  qed
next
  case (4 s1)
  then show ?case by (simp add: gcs_post_def view_obj)
next
  case (5 s1 e)
  then show ?case by (auto simp: gcs_post_def view_obj)
qed (simp_all add: fun_eq_iff)

lemma cas_step:
  assumes "srv_ok s"
  shows "gcs_step_ok serve objs srv_ok g own t (CompareAndSwap k old new ttl) s"
  unfolding gcs_step_ok_def gcs_exec_def gcs_op.simps gcs_compare_and_swap_def
proof (rule read_rule [OF assms], goal_cases)
  case (1 s1)
  show ?case
  proof (cases "objs s (gcs_obj g k)")
    case None
    with 1 show ?thesis by (simp add: gcs_post_def view_obj)
  next
    case (Some ob)
    let ?e = "gobj_entry ob"
    from Some have view: "gcs_view objs g s k = Some (es_lease ?e)" by (simp add: view_obj)
    show ?thesis
    proof (cases "es_live ?e t \<and> es_val ?e = old")
      case False
      with 1 Some view show ?thesis by (auto simp: gcs_post_def es_live_expired)
    next
      case True
      have "gcs_post (gcs_fails serve) objs srv_ok g (kv_spec gcs_rule own t (CompareAndSwap k old new ttl) (gcs_view objs g s))
          (gcs_view objs g s)
          (apfst bool_res (gcs_run serve t (gcs_write (g\<lparr>g_owner := own\<rparr>) k new ttl (GenerationMatch (o_gen ob))
             (\<lambda>w. case w of Inl err \<Rightarrow> Ret (Inl (Wrapf ''kv compare_and_swap %q: %w'' [k] err)) | Inr ok \<Rightarrow> Ret (Inr ok))) s1))"
        by (rule write_rule [OF 1(1), of _ _ own])
          (use 1 Some True view in \<open>auto simp: gcs_post_def fun_eq_iff es_live_expired\<close>)
      with Some True show ?thesis by simp
    qed
  qed
next
  case (2 s1 e)
  then show ?case by (simp add: gcs_post_fail)
qed

lemma get_step:
  assumes "srv_ok s"
  shows "gcs_step_ok serve objs srv_ok g own t (Get k) s"
  unfolding gcs_step_ok_def gcs_exec_def gcs_op.simps gcs_get_def
proof (rule read_rule [OF assms], goal_cases)
  case (1 s1)
  then show ?case
    by (cases "objs s (gcs_obj g k)") (auto simp: gcs_post_def view_obj es_live_expired)
next
  case (2 s1 e)
  then show ?case by (simp add: gcs_post_fail)
qed

lemma renew_step:
  assumes "srv_ok s"
  shows "gcs_step_ok serve objs srv_ok g own t (Renew k ttl) s"
proof (cases "ttl \<le> 0")
  case True
  with assms show ?thesis
    by (simp add: gcs_step_ok_def gcs_exec_def gcs_renew_def gcs_post_def renew_error_def)
next
  case pos: False
  show ?thesis
    unfolding gcs_step_ok_def gcs_exec_def gcs_op.simps gcs_renew_def if_not_P [OF pos]
  proof (rule read_rule [OF assms], goal_cases)
    case (1 s1)
    show ?case
    proof (cases "objs s (gcs_obj g k)")
      case None
      with 1 pos show ?thesis by (simp add: gcs_post_def view_obj)
    next
      case (Some ob)
      let ?e = "gobj_entry ob"
      from Some have view: "gcs_view objs g s k = Some (es_lease ?e)" by (simp add: view_obj)
      show ?thesis
      proof (cases "es_expires ?e \<noteq> None \<and> es_live ?e t \<and> es_owner ?e = own")
        case False
        with 1 Some view pos show ?thesis
          by (cases "es_expires ?e") (auto simp: gcs_post_def es_live_expired)
      next
        case True
        then have lease: "new_lease gcs_rule own t (es_val ?e) ttl = (es_lease ?e)\<lparr>l_exp := gcs_expiry t ttl\<rparr>"
          by (simp add: new_lease_def es_lease_def)
        have "gcs_post (gcs_fails serve) objs srv_ok g (kv_spec gcs_rule own t (Renew k ttl) (gcs_view objs g s))
            (gcs_view objs g s)
            (apfst bool_res (gcs_run serve t (gcs_write (g\<lparr>g_owner := own\<rparr>) k (es_val ?e) ttl (GenerationMatch (o_gen ob))
               (\<lambda>w. case w of Inl err \<Rightarrow> Ret (Inl (Wrapf ''kv renew %q: %w'' [k] err)) | Inr ok \<Rightarrow> Ret (Inr ok))) s1))"
          by (rule write_rule [OF 1(1), of _ _ own])
            (use 1 Some True view pos lease in \<open>auto simp: gcs_post_def fun_eq_iff es_live_expired\<close>)
        with Some True show ?thesis by (auto simp del: kv_spec.simps)
      qed
    qed
  next
    case (2 s1 e)
    then show ?case by (simp add: gcs_post_fail)
  qed
qed

lemma delete_any_step:
  assumes "srv_ok s"
  shows "gcs_step_ok serve objs srv_ok g own t (Delete k None) s"
proof -
  obtain a s' where s': "serve t (GDelete (gcs_obj g k) None) s = (a, s')" by fastforce
  have ok: "srv_ok s'" using srv_ok_serve [OF assms s'] ..
  note fail = gcs_failsI [of serve t "GDelete (gcs_obj g k) None" s]
  have run: "gcs_exec serve g own t (Delete k None) s = apfst bool_res (gcs_run serve t (case a of
      GOk \<Rightarrow> Ret (Inr True) | GNotFound \<Rightarrow> Ret (Inr True)
    | _ \<Rightarrow> Ret (Inl (Wrapf ''kv delete %q: %w'' [k] (resp_err a)))) s')"
    using s' by (simp add: gcs_exec_def gcs_delete_def)
  from serve_delete [OF assms s'] consider
      "a = GOk \<or> (\<exists>e. a = GFail e)" "objs s' = (objs s)(gcs_obj g k := None)"
    | "a = GNotFound" "objs s (gcs_obj g k) = None" "objs s' = objs s"
    | "\<exists>e. a = GFail e" "objs s' = objs s"
    by (auto simp: Let_def)
  then show ?thesis
  proof cases
    case 1
    from gcs_view_upd [OF 1(2)] 1(1) ok run fail s' show ?thesis
      by (auto simp: gcs_step_ok_def gcs_post_def)
  next
    case 2
    then have "gcs_view objs g s' = (gcs_view objs g s)(k := None)" by (auto simp: fun_eq_iff gcs_view_def)
    with 2 ok run show ?thesis by (auto simp: gcs_step_ok_def gcs_post_def)
  next
    case 3
    from gcs_view_same [OF 3(2)] 3(1) ok run fail s' show ?thesis
      by (auto simp: gcs_step_ok_def gcs_post_def)
  qed
qed

text \<open>The conditional delete of what was read, if nothing happened in between.\<close>

lemma delete_read:
  assumes "srv_ok s" and ob: "objs s (gcs_obj g k) = Some ob"
    and s': "serve t (GDelete (gcs_obj g k) (Some (GenerationMatch (o_gen ob)))) s = (a, s')"
  shows "(a = GOk \<and> gcs_view objs g s' = (gcs_view objs g s)(k := None)) \<or>
    (gcs_fails serve \<and> (\<exists>e. a = GFail e) \<and> (gcs_view objs g s' = (gcs_view objs g s)(k := None)
       \<or> gcs_view objs g s' = gcs_view objs g s))"
proof -
  have "(a = GOk \<or> (\<exists>e. a = GFail e)) \<and> objs s' = (objs s)(gcs_obj g k := None)
      \<or> (\<exists>e. a = GFail e) \<and> objs s' = objs s"
    using serve_delete [OF assms(1) s'] ob by (auto simp: Let_def)
  then show ?thesis
    using gcs_view_upd [of objs s' s g k None] gcs_view_same [of objs s' s g] gcs_fails_answer [OF s'] by auto
qed

lemma delete_if_step:
  assumes "srv_ok s"
  shows "gcs_step_ok serve objs srv_ok g own t (Delete k (Some v)) s"
  unfolding gcs_step_ok_def gcs_exec_def gcs_op.simps gcs_delete_def option.case
proof (rule read_rule [OF assms], goal_cases)
  case (1 s1)
  show ?case
  proof (cases "objs s (gcs_obj g k)")
    case None
    with 1 show ?thesis by (simp add: gcs_post_def view_obj)
  next
    case ob: (Some ob)
    then have view: "gcs_view objs g s k = Some (es_lease (gobj_entry ob))" by (simp add: view_obj)
    obtain a s' where s': "serve t (GDelete (gcs_obj g k) (Some (GenerationMatch (o_gen ob)))) s1 = (a, s')" by fastforce
    have "srv_ok s'" using srv_ok_serve [OF 1(1) s'] ..
    moreover have "objs s1 (gcs_obj g k) = Some ob" using 1(2) ob by simp
    ultimately show ?thesis
      using delete_read [OF 1(1) _ s'] 1 ob view s' by (auto simp: gcs_post_def)
  qed
next
  case (2 s1 e)
  then show ?case by (simp add: gcs_post_fail)
qed

lemma delete_step: "srv_ok s \<Longrightarrow> gcs_step_ok serve objs srv_ok g own t (Delete k ifv) s"
  by (cases ifv) (simp_all add: delete_any_step delete_if_step)

lemma all_steps: "srv_ok s \<Longrightarrow> gcs_step_ok serve objs srv_ok g own t op s"
  by (cases op) (simp_all add: put_step cas_step get_step delete_step renew_step)

end

section \<open>The contract\<close>

locale gcs_store = gcs_service serve objs last_gen srv_ok
  for serve :: "time \<Rightarrow> gcs_req \<Rightarrow> 's \<Rightarrow> gcs_resp \<times> 's"
    and objs :: "'s \<Rightarrow> string \<Rightarrow> gobj option"
    and last_gen :: "'s \<Rightarrow> int"
    and srv_ok :: "'s \<Rightarrow> bool" +
  fixes g :: gcs_kv
begin

sublocale leases: kv_contract "gcs_exec serve g" "gcs_view objs g" gcs_rule srv_ok
proof unfold_locales
  fix st own t op
  assume "srv_ok st"
  then have "gcs_step_ok serve objs srv_ok g own t op st" by (rule all_steps)
  then show "srv_ok (snd (gcs_exec serve g own t op st))"
    and "(fst (gcs_exec serve g own t op st) = fst (kv_spec gcs_rule own t op (gcs_view objs g st))
        \<and> gcs_view objs g (snd (gcs_exec serve g own t op st)) = snd (kv_spec gcs_rule own t op (gcs_view objs g st)))
      \<or> ((\<exists>e. fst (gcs_exec serve g own t op st) = RErr e)
        \<and> (gcs_view objs g (snd (gcs_exec serve g own t op st)) = snd (kv_spec gcs_rule own t op (gcs_view objs g st))
           \<or> gcs_view objs g (snd (gcs_exec serve g own t op st)) = gcs_view objs g st))"
    by (auto simp: gcs_step_ok_def gcs_post_def)
qed auto

lemma store_contract: "kv_contract (gcs_exec serve g) (gcs_view objs g) gcs_rule srv_ok"
  by unfold_locales

end

locale gcs_up = gcs_store serve objs last_gen srv_ok g
  for serve :: "time \<Rightarrow> gcs_req \<Rightarrow> 's \<Rightarrow> gcs_resp \<times> 's"
    and objs :: "'s \<Rightarrow> string \<Rightarrow> gobj option"
    and last_gen :: "'s \<Rightarrow> int"
    and srv_ok :: "'s \<Rightarrow> bool"
    and g :: gcs_kv +
  assumes never_fails: "\<not> gcs_fails serve"
begin

sublocale up: kv_reliable "gcs_exec serve g" "gcs_view objs g" gcs_rule srv_ok
proof unfold_locales
  fix st own t op
  assume "srv_ok st"
  then have "gcs_step_ok serve objs srv_ok g own t op st" by (rule all_steps)
  then show "fst (gcs_exec serve g own t op st) = fst (kv_spec gcs_rule own t op (gcs_view objs g st))
        \<and> gcs_view objs g (snd (gcs_exec serve g own t op st)) = snd (kv_spec gcs_rule own t op (gcs_view objs g st))"
    using never_fails by (simp add: gcs_step_ok_def gcs_post_def)
qed

lemma store_exact:
  "srv_ok st \<Longrightarrow>
    fst (gcs_exec serve g own t op st) = fst (kv_spec gcs_rule own t op (gcs_view objs g st))
    \<and> gcs_view objs g (snd (gcs_exec serve g own t op st)) = snd (kv_spec gcs_rule own t op (gcs_view objs g st))"
  by (rule up.exec_exact)

lemma store_reliable: "kv_reliable (gcs_exec serve g) (gcs_view objs g) gcs_rule srv_ok"
  by unfold_locales

end

section \<open>A reference service\<close>

text \<open>A bucket as a map of objects with a counter of generations: the parameter's concrete instance.\<close>

record gcs_bucket =
  b_objs :: "string \<rightharpoonup> gobj"
  b_gen :: int

fun gcs_ref_serve :: "time \<Rightarrow> gcs_req \<Rightarrow> gcs_bucket \<Rightarrow> gcs_resp \<times> gcs_bucket" where
  "gcs_ref_serve t (GAttrs n) b =
     ((case b_objs b n of None \<Rightarrow> GNotFound | Some ob \<Rightarrow> GAttrsOk (o_gen ob) (o_meta ob) (o_updated ob)), b)"
| "gcs_ref_serve t (GRead n gen) b =
     ((case b_objs b n of None \<Rightarrow> GNotFound
       | Some ob \<Rightarrow> if o_gen ob = gen then GBody (o_body ob) else GNotFound), b)"
| "gcs_ref_serve t (GWrite n c body md) b =
     (if cond_holds c (b_objs b n)
      then (GOk, \<lparr>b_objs = (b_objs b)(n \<mapsto> \<lparr>o_gen = b_gen b + 1, o_body = body, o_meta = md, o_updated = t\<rparr>),
                  b_gen = b_gen b + 1\<rparr>)
      else (GPrecond, b))"
| "gcs_ref_serve t (GDelete n oc) b =
     (if (case oc of None \<Rightarrow> b_objs b n \<noteq> None | Some c \<Rightarrow> cond_holds c (b_objs b n))
      then (GOk, b\<lparr>b_objs := (b_objs b)(n := None)\<rparr>) else (GNotFound, b))"

definition gcs_ref_ok :: "gcs_bucket \<Rightarrow> bool" where
  "gcs_ref_ok b \<longleftrightarrow> (\<forall>n ob. b_objs b n = Some ob \<longrightarrow> o_gen ob \<le> b_gen b)"

lemma gcs_ref_no_fail: "fst (gcs_ref_serve t q b) \<noteq> GFail e"
  by (cases q) (auto split: option.splits)

lemma gcs_ref_ok_step: "gcs_ref_ok b \<Longrightarrow> gcs_ref_serve t q b = (a, b') \<Longrightarrow> gcs_ref_ok b' \<and> b_gen b \<le> b_gen b'"
  by (cases q) (fastforce simp: gcs_ref_ok_def split: if_splits)+

interpretation gcsref: gcs_up gcs_ref_serve b_objs b_gen gcs_ref_ok g for g
proof unfold_locales
  fix s t q a s'
  assume "gcs_ref_ok s" and "gcs_ref_serve t q s = (a, s')"
  then show "gcs_ref_ok s' \<and> b_gen s \<le> b_gen s'" by (rule gcs_ref_ok_step)
next
  show "\<not> gcs_fails gcs_ref_serve" by (simp add: gcs_fails_def gcs_ref_no_fail)
next
  fix s t n c body md a s'
  assume "gcs_ref_serve t (GWrite n c body md) s = (a, s')"
  moreover have "b_gen s < b_gen s + 1" by simp
  ultimately show "(a = GPrecond \<and> \<not> cond_holds c (b_objs s n) \<and> b_objs s' = b_objs s)
      \<or> ((a = GOk \<or> (\<exists>e. a = GFail e)) \<and> cond_holds c (b_objs s n) \<and>
         (\<exists>g > b_gen s. b_objs s' = (b_objs s)(n \<mapsto> \<lparr>o_gen = g, o_body = body, o_meta = md, o_updated = t\<rparr>)))
      \<or> ((\<exists>e. a = GFail e) \<and> b_objs s' = b_objs s)"
    by (auto split: if_splits intro!: exI [of _ "b_gen s + 1"])
qed (auto simp: gcs_ref_ok_def Let_def split: option.splits if_splits)

section \<open>Properties\<close>

lemma gcs_spec_lasting: "lasting op \<Longrightarrow> kv_spec gcs_rule own t op m = kv_spec ms_rule own t op m"
  by (rule lasting_spec)
    (auto simp: gcs_rule_def ms_rule_def gcs_expiry_def Let_def lasting_ms div_nonpos_pos_le0 not_le dest: lasting_ms(3))

text \<open>
  C7: over any service with Cloud Storage's preconditions, an operation of the object store
  run alone, its several requests and clock readings together, answers what the KVStore
  contract says and leaves exactly the leases it says, provided the ttl it is given is not a
  positive one below a millisecond: the store keeps whole milliseconds, so the deadline lies less
  than a millisecond before the one asked for, and a positive ttl below one millisecond, which it
  would store as a permanent key, is excluded here. If a call fails the store reports an error and
  the write was applied as a whole or not at all.
\<close>

theorem gcs_refines_contract:
  assumes "gcs_store serve objs last_gen srv_ok" and "srv_ok s" and "lasting op"
    and "gcs_exec serve g own t op s = (r, s')"
    and "kv_spec ms_rule own t op (gcs_view objs g s) = (spec, m')"
  shows "srv_ok s' \<and>
    ((r = spec \<and> gcs_view objs g s' = m')
     \<or> ((\<exists>e. r = RErr e) \<and> (gcs_view objs g s' = m' \<or> gcs_view objs g s' = gcs_view objs g s)))
    \<and> (0 < ttl \<longrightarrow> (\<exists>e. expiry_at ms_rule t ttl = Some e \<and> t + ttl - millisecond < e \<and> e \<le> t + ttl))"
proof -
  note c = gcs_store.store_contract [OF assms(1), of g]
  show ?thesis
    using kv_contract.exec_invar [OF c assms(2), of own t op] kv_contract.exec_refines [OF c assms(2), of own t op]
      gcs_spec_lasting [OF assms(3), of own t "gcs_view objs g s"] assms(4,5) ms_deadline [of ttl t] by simp
qed

definition gcs_demo :: gcs_kv where
  "gcs_demo = \<lparr>g_prefix = ''tikv'', g_owner = ''vm-1'', g_rfc3339 = (\<lambda>_. [])\<rparr>"

definition gcs_demo_bucket :: gcs_bucket where
  "gcs_demo_bucket = snd (gcs_exec gcs_ref_serve gcs_demo ''a'' 0 (PutIfAbsent ''seed'' ''10.0.0.1'' (30 * second))
     \<lparr>b_objs = (\<lambda>_. None), b_gen = 0\<rparr>)"

lemma gcs_demo_ok: "gcs_ref_ok gcs_demo_bucket"
proof -
  have "gcs_ref_ok \<lparr>b_objs = (\<lambda>_. None), b_gen = 0\<rparr>" by (simp add: gcs_ref_ok_def)
  then show ?thesis unfolding gcs_demo_bucket_def by (rule gcsref.leases.exec_invar)
qed

lemma gcs_refines_contract_witness:
  "gcs_ref_ok (snd (gcs_exec gcs_ref_serve gcs_demo ''b'' 7 (PutIfAbsent ''seed'' ''x'' second) gcs_demo_bucket))"
  using gcs_refines_contract [OF gcsref.gcs_store_axioms gcs_demo_ok _ prod.collapse [symmetric] prod.collapse [symmetric],
      of "PutIfAbsent ''seed'' ''x'' second" gcs_demo "''b''" 7 second]
  by (simp add: lasting_def lasting_ttl_def)

text \<open>
  A lease shorter than a millisecond is no lease. PutIfAbsent with such a ttl on a free
  key answers true and leaves an entry that never expires, although a ttl above zero asks
  for one that does.
\<close>

theorem gcs_submillisecond_is_permanent:
  assumes "gcs_up serve objs last_gen srv_ok" and "srv_ok s" and "gcs_view objs g s k = None"
    and "0 < ttl" and "ttl < millisecond"
  shows "fst (gcs_exec serve g own t (PutIfAbsent k v ttl) s) = RBool True
    \<and> gcs_view objs g (snd (gcs_exec serve g own t (PutIfAbsent k v ttl) s)) k
      = Some \<lparr>l_val = v, l_owner = own, l_exp = None\<rparr>"
proof -
  have "gcs_expiry t ttl = None" using assms(4,5) by (simp add: gcs_expiry_def)
  with gcs_up.store_exact [OF assms(1,2), of g own t "PutIfAbsent k v ttl"] assms(3)
  show ?thesis by (simp add: new_lease_def)
qed

lemma gcs_submillisecond_is_permanent_witness:
  "gcs_view b_objs gcs_demo (snd (gcs_exec gcs_ref_serve gcs_demo ''a'' 5 (PutIfAbsent ''lock'' ''x'' 1000)
     \<lparr>b_objs = (\<lambda>_. None), b_gen = 0\<rparr>)) ''lock'' = Some \<lparr>l_val = ''x'', l_owner = ''a'', l_exp = None\<rparr>"
  using gcs_submillisecond_is_permanent [OF gcsref.gcs_up_axioms,
      of "\<lparr>b_objs = (\<lambda>_. None), b_gen = 0\<rparr>" gcs_demo "''lock''" 1000 "''a''" 5 "''x''"]
  by (simp add: gcs_ref_ok_def gcs_view_def)

end
