(* ===== verification/GCS_Race.thy ===== *)
theory GCS_Race
  imports GCS_KV
begin

text \<open>
  Several processes run \<^verbatim>\<open>PutIfAbsent\<close> of internal/provider/gcp/kv.go on one key at the same
  time. The programs are those of \<open>GCS_KV\<close>; a schedule says which process makes its next
  call, and when, so the calls of different processes interleave in every possible order.
  What keeps the race safe is that a write is conditional on the generation its process
  read, and that no generation is ever used twice.
\<close>

section \<open>Interleaving\<close>

definition gcs_turn ::
  "(time \<Rightarrow> gcs_req \<Rightarrow> 's \<Rightarrow> gcs_resp \<times> 's) \<Rightarrow> nat \<Rightarrow> time \<Rightarrow> 'r gcs_prog list \<times> 's \<Rightarrow> 'r gcs_prog list \<times> 's" where
  "gcs_turn serve i t c =
     (case c of (ps, s) \<Rightarrow>
        if i < length ps
        then (case ps ! i of
                Ret r \<Rightarrow> (ps, s)
              | Clock k \<Rightarrow> (ps[i := k t], s)
              | Rpc q k \<Rightarrow> (case serve t q s of (a, s') \<Rightarrow> (ps[i := k a], s')))
        else (ps, s))"

fun gcs_sched ::
  "(time \<Rightarrow> gcs_req \<Rightarrow> 's \<Rightarrow> gcs_resp \<times> 's) \<Rightarrow> (nat \<times> time) list \<Rightarrow> 'r gcs_prog list \<times> 's
    \<Rightarrow> 'r gcs_prog list \<times> 's" where
  "gcs_sched serve [] c = c"
| "gcs_sched serve ((i, t) # evs) c = gcs_sched serve evs (gcs_turn serve i t c)"

type_synonym racer = "string \<times> string \<times> duration"

definition gcs_racer :: "gcs_kv \<Rightarrow> string \<Rightarrow> racer \<Rightarrow> (bool go_result) gcs_prog" where
  "gcs_racer g key r = (case r of (own, v, ttl) \<Rightarrow> gcs_put_if_absent (g\<lparr>g_owner := own\<rparr>) key v ttl)"

definition gcs_race ::
  "(time \<Rightarrow> gcs_req \<Rightarrow> 's \<Rightarrow> gcs_resp \<times> 's) \<Rightarrow> gcs_kv \<Rightarrow> string \<Rightarrow> racer list \<Rightarrow> (nat \<times> time) list \<Rightarrow> 's
    \<Rightarrow> (bool go_result) gcs_prog list \<times> 's" where
  "gcs_race serve g key rs evs s = gcs_sched serve evs (map (gcs_racer g key) rs, s)"

definition race_winners :: "(bool go_result) gcs_prog list \<Rightarrow> nat list" where
  "race_winners ps = filter (\<lambda>i. ps ! i = Ret (Inr True)) [0..<length ps]"

text \<open>
  The window of the race: all its clock readings fall in it, and a lease any racer takes at
  one of its instants is still running at every other.
\<close>

definition outlasts_window :: "time \<Rightarrow> time \<Rightarrow> racer \<Rightarrow> bool" where
  "outlasts_window lo hi r =
     (case r of (own, v, ttl) \<Rightarrow> (case gcs_expiry lo ttl of None \<Rightarrow> True | Some e \<Rightarrow> hi < e))"

definition in_window :: "time \<Rightarrow> time \<Rightarrow> (nat \<times> time) list \<Rightarrow> bool" where
  "in_window lo hi evs = list_all (\<lambda>(i, t). lo \<le> t \<and> t \<le> hi) evs"

section \<open>What a racing program may still do\<close>

text \<open>
  \<open>meta_live\<close>: an object with this metadata and update time is unexpired through the window.
  \<open>tame\<close>: whatever the service answers, as long as reads show the initial object or one that
  is unexpired through the window, the program only writes the key under a condition the
  initial object's successors fail, and returns true only from an applied write.
\<close>

definition meta_live :: "time \<Rightarrow> gcs_meta \<Rightarrow> time \<Rightarrow> bool" where
  "meta_live hi md upd = es_live (gcs_entry [] 0 md upd) hi"

definition attrs_answer :: "gobj option \<Rightarrow> gcs_resp" where
  "attrs_answer oo =
     (case oo of None \<Rightarrow> GNotFound | Some ob \<Rightarrow> GAttrsOk (o_gen ob) (o_meta ob) (o_updated ob))"

definition race_cond :: "gobj option \<Rightarrow> gcs_cond \<Rightarrow> bool" where
  "race_cond o0 c \<longleftrightarrow> c = DoesNotExist \<or> (\<exists>ob. o0 = Some ob \<and> c = GenerationMatch (o_gen ob))"

primrec tame ::
  "time \<Rightarrow> time \<Rightarrow> gobj option \<Rightarrow> string \<Rightarrow> (string \<Rightarrow> gcs_meta \<Rightarrow> bool) \<Rightarrow> (bool go_result) gcs_prog \<Rightarrow> bool" where
  "tame lo hi o0 n wr (Ret r) = (r \<noteq> Inr True)"
| "tame lo hi o0 n wr (Clock k) = (\<forall>t. lo \<le> t \<and> t \<le> hi \<longrightarrow> tame lo hi o0 n wr (k t))"
| "tame lo hi o0 n wr (Rpc q k) =
     (case q of
        GAttrs m \<Rightarrow> m = n \<and> (\<forall>a. a = attrs_answer o0 \<or> (\<exists>e. a = GFail e)
                               \<or> (\<exists>gen md upd. a = GAttrsOk gen md upd \<and> meta_live hi md upd)
                      \<longrightarrow> tame lo hi o0 n wr (k a))
      | GRead m gen \<Rightarrow> m = n \<and> (\<forall>a. tame lo hi o0 n wr (k a))
      | GWrite m c body md \<Rightarrow>
          m = n \<and> race_cond o0 c \<and> wr body md
          \<and> (\<forall>t. lo \<le> t \<and> t \<le> hi \<longrightarrow> meta_live hi md t)
          \<and> k GOk = Ret (Inr True) \<and> (\<forall>a. a \<noteq> GOk \<longrightarrow> tame lo hi o0 n wr (k a))
      | GDelete m oc \<Rightarrow> False)"

text \<open>
  \<open>keen\<close>: while the key still holds the initial object and no call fails, the program has not
  returned, and goes on to a write whose condition the initial object meets.
\<close>

primrec keen :: "time \<Rightarrow> time \<Rightarrow> gobj option \<Rightarrow> (bool go_result) gcs_prog \<Rightarrow> bool" where
  "keen lo hi o0 (Ret r) = False"
| "keen lo hi o0 (Clock k) = (\<forall>t. lo \<le> t \<and> t \<le> hi \<longrightarrow> keen lo hi o0 (k t))"
| "keen lo hi o0 (Rpc q k) =
     (case q of
        GAttrs m \<Rightarrow> keen lo hi o0 (k (attrs_answer o0))
      | GRead m gen \<Rightarrow> (\<exists>ob. o0 = Some ob \<and> o_gen ob = gen \<and> keen lo hi o0 (k (GBody (o_body ob))))
      | GWrite m c body md \<Rightarrow> cond_holds c o0 \<or> keen lo hi o0 (k GPrecond)
      | GDelete m oc \<Rightarrow> False)"

text \<open>The calls a program has left, at most.\<close>

fun calls_le :: "nat \<Rightarrow> 'r gcs_prog \<Rightarrow> bool" where
  "calls_le n (Ret r) = True"
| "calls_le 0 p = False"
| "calls_le (Suc n) (Clock k) = (\<forall>t. calls_le n (k t))"
| "calls_le (Suc n) (Rpc q k) = (\<forall>a. calls_le n (k a))"

lemma es_live_entry: "es_live (gcs_entry body gen md upd) t = meta_live t md upd"
  by (simp add: es_live_def gcs_entry_def meta_live_def)

lemma es_gen_entry [simp]: "es_gen (gcs_entry body gen md upd) = gen"
  by (simp add: gcs_entry_def)

lemma meta_live_mono: "meta_live hi md upd \<Longrightarrow> t \<le> hi \<Longrightarrow> meta_live t md upd"
  by (auto simp: meta_live_def es_live_def split: option.splits)

lemma written_meta_live:
  assumes "outlasts_window lo hi (own, v, ttl)" and "lo \<le> t"
  shows "meta_live hi (written_meta (g\<lparr>g_owner := own\<rparr>) ttl now) t"
proof -
  have "es_lease (gcs_entry [] 0 (written_meta (g\<lparr>g_owner := own\<rparr>) ttl now) t) = new_lease gcs_rule own t [] ttl"
    by (simp add: written_entry)
  moreover have "\<not> expired hi (new_lease gcs_rule own t [] ttl)"
    using assms by (auto simp: expired_def new_lease_def outlasts_window_def gcs_expiry_def Let_def
        split: option.splits if_splits)
  ultimately show ?thesis by (simp add: meta_live_def es_live_expired)
qed

lemma gcs_write_unfold:
  "gcs_write g k v ttl c cont =
     (if 0 < ttl
      then Clock (\<lambda>now. Rpc (GWrite (gcs_obj g k) c v (written_meta g ttl now)) (\<lambda>r. cont (write_result r)))
      else Rpc (GWrite (gcs_obj g k) c v (written_meta g ttl 0)) (\<lambda>r. cont (write_result r)))"
  by (simp add: gcs_write_def written_meta_def Let_def)

text \<open>What a racer writes: its value, labelled with its name.\<close>

definition racer_write :: "racer \<Rightarrow> string \<Rightarrow> gcs_meta \<Rightarrow> bool" where
  "racer_write r body md = (case r of (own, v, ttl) \<Rightarrow> body = v \<and> md ''owner'' = Some own)"

lemma racer_write_written [simp]:
  "racer_write (own, v, ttl) v (written_meta (g\<lparr>g_owner := own\<rparr>) ttl' now)"
  by (simp add: racer_write_def written_meta_def)

lemma tame_write:
  assumes "outlasts_window lo hi (own, v, ttl)" and "race_cond o0 c"
    and "cont (Inr True) = Ret (Inr True)"
    and "\<And>w. w \<noteq> Inr True \<Longrightarrow> tame lo hi o0 (gcs_obj g k) (racer_write (own, v, ttl)) (cont w)"
  shows "tame lo hi o0 (gcs_obj g k) (racer_write (own, v, ttl))
    (gcs_write (g\<lparr>g_owner := own\<rparr>) k v ttl c cont)"
proof -
  have "write_result a \<noteq> Inr True" if "a \<noteq> GOk" for a using that by (cases a) auto
  with assms show ?thesis by (auto simp: gcs_write_unfold written_meta_live)
qed

text \<open>The racer's program in stages: after the first write, after the read, after the clock, after the last write.\<close>

definition pia_end :: "string \<Rightarrow> bool go_result \<Rightarrow> (bool go_result) gcs_prog" where
  "pia_end k w = (case w of
       Inl err \<Rightarrow> Ret (Inl (Wrapf ''kv put_if_absent %q: %w'' [k] err)) | Inr ok \<Rightarrow> Ret (Inr ok))"

definition pia_stale ::
  "gcs_kv \<Rightarrow> string \<Rightarrow> string \<Rightarrow> duration \<Rightarrow> entryState \<Rightarrow> time \<Rightarrow> (bool go_result) gcs_prog" where
  "pia_stale g k v ttl e now =
     (if es_live e now then Ret (Inr False) else gcs_write g k v ttl (GenerationMatch (es_gen e)) (pia_end k))"

definition pia_read ::
  "gcs_kv \<Rightarrow> string \<Rightarrow> string \<Rightarrow> duration \<Rightarrow> (entryState option) go_result \<Rightarrow> (bool go_result) gcs_prog" where
  "pia_read g k v ttl r = (case r of
       Inl e \<Rightarrow> Ret (Inl (Wrapf ''kv put_if_absent %q: %w'' [k] e))
     | Inr None \<Rightarrow> Ret (Inr False)
     | Inr (Some e) \<Rightarrow> Clock (pia_stale g k v ttl e))"

definition pia_first ::
  "gcs_kv \<Rightarrow> string \<Rightarrow> string \<Rightarrow> duration \<Rightarrow> bool go_result \<Rightarrow> (bool go_result) gcs_prog" where
  "pia_first g k v ttl w = (case w of
       Inl e \<Rightarrow> Ret (Inl (Wrapf ''kv put_if_absent %q: %w'' [k] e))
     | Inr ok \<Rightarrow> if ok then Ret (Inr True) else gcs_read g k (pia_read g k v ttl))"

lemma gcs_racer_stages:
  "gcs_racer g k (own, v, ttl) =
     gcs_write (g\<lparr>g_owner := own\<rparr>) k v ttl DoesNotExist (pia_first (g\<lparr>g_owner := own\<rparr>) k v ttl)"
  unfolding gcs_racer_def prod.case gcs_put_if_absent_def pia_first_def pia_read_def pia_stale_def pia_end_def ..

lemma pia_simps [simp]:
  "pia_end k (Inr ok) = Ret (Inr ok)"
  "pia_end k (Inl err) = Ret (Inl (Wrapf ''kv put_if_absent %q: %w'' [k] err))"
  "pia_read g k v ttl (Inl err) = Ret (Inl (Wrapf ''kv put_if_absent %q: %w'' [k] err))"
  "pia_read g k v ttl (Inr None) = Ret (Inr False)"
  "pia_read g k v ttl (Inr (Some e)) = Clock (pia_stale g k v ttl e)"
  "pia_first g k v ttl (Inl err) = Ret (Inl (Wrapf ''kv put_if_absent %q: %w'' [k] err))"
  "pia_first g k v ttl (Inr True) = Ret (Inr True)"
  "pia_first g k v ttl (Inr False) = gcs_read g k (pia_read g k v ttl)"
  by (simp_all add: pia_end_def pia_read_def pia_first_def)

lemma go_bool_cases: obtains (err) e where "w = Inl e" | (yes) "w = Inr True" | (no) "w = Inr False"
  by (cases w) auto

lemma tame_stale:
  assumes "outlasts_window lo hi (own, v, ttl)" and "t \<le> hi"
    and "attrs_answer o0 = GAttrsOk gen md upd \<or> meta_live hi md upd"
  shows "tame lo hi o0 (gcs_obj g k) (racer_write (own, v, ttl))
    (pia_stale (g\<lparr>g_owner := own\<rparr>) k v ttl (gcs_entry body gen md upd) t)"
proof (cases "meta_live hi md upd")
  case True
  with assms(2) show ?thesis by (simp add: pia_stale_def es_live_entry meta_live_mono)
next
  case False
  with assms(3) have "race_cond o0 (GenerationMatch gen)"
    by (auto simp: attrs_answer_def race_cond_def split: option.splits)
  then have "tame lo hi o0 (gcs_obj g k) (racer_write (own, v, ttl))
      (gcs_write (g\<lparr>g_owner := own\<rparr>) k v ttl (GenerationMatch gen) (pia_end k))"
  proof (rule tame_write [OF assms(1)])
    fix w :: "bool go_result"
    assume "w \<noteq> Inr True"
    then show "tame lo hi o0 (gcs_obj g k) (racer_write (own, v, ttl)) (pia_end k w)"
      by (cases w rule: go_bool_cases) simp_all
  qed simp
  then show ?thesis by (simp add: pia_stale_def)
qed

lemma tame_read:
  assumes "outlasts_window lo hi (own, v, ttl)"
  shows "tame lo hi o0 (gcs_obj g k) (racer_write (own, v, ttl))
    (gcs_read (g\<lparr>g_owner := own\<rparr>) k (pia_read (g\<lparr>g_owner := own\<rparr>) k v ttl))"
proof -
  have body: "tame lo hi o0 (gcs_obj g k) (racer_write (own, v, ttl))
      (case a of GAttrsOk gen md upd \<Rightarrow> Rpc (GRead (gcs_obj g k) gen) (\<lambda>r. case r of
          GNotFound \<Rightarrow> pia_read (g\<lparr>g_owner := own\<rparr>) k v ttl (Inr None)
        | GBody body \<Rightarrow> pia_read (g\<lparr>g_owner := own\<rparr>) k v ttl (Inr (Some (gcs_entry body gen md upd)))
        | _ \<Rightarrow> pia_read (g\<lparr>g_owner := own\<rparr>) k v ttl (Inl (resp_err r))) | _ \<Rightarrow> Ret (Inr False))"
    if "\<And>gen md upd. a = GAttrsOk gen md upd \<Longrightarrow> attrs_answer o0 = a \<or> meta_live hi md upd" for a
    using that assms by (auto intro!: tame_stale split: gcs_resp.splits)
  have 1: "\<And>gen md upd. attrs_answer o0 = GAttrsOk gen md upd \<Longrightarrow> attrs_answer o0 = attrs_answer o0 \<or> meta_live hi md upd"
    by simp
  show ?thesis
    unfolding gcs_read_def
    using body [OF 1] body [of "GAttrsOk gen md upd" for gen md upd]
    by (auto split: gcs_resp.splits)
qed

lemma tame_racer:
  assumes "outlasts_window lo hi r"
  shows "tame lo hi o0 (gcs_obj g k) (racer_write r) (gcs_racer g k r)"
proof -
  obtain own v ttl where r: "r = (own, v, ttl)" by (cases r)
  note out = assms [unfolded r]
  have "tame lo hi o0 (gcs_obj g k) (racer_write (own, v, ttl)) (gcs_racer g k (own, v, ttl))"
    unfolding gcs_racer_stages
  proof (rule tame_write [OF out])
    fix w :: "bool go_result"
    assume "w \<noteq> Inr True"
    then show "tame lo hi o0 (gcs_obj g k) (racer_write (own, v, ttl)) (pia_first (g\<lparr>g_owner := own\<rparr>) k v ttl w)"
      by (cases w rule: go_bool_cases) (simp_all add: tame_read [OF out])
  qed (simp_all add: race_cond_def)
  then show ?thesis by (simp add: r)
qed

lemma keen_write:
  assumes "cond_holds c o0 \<or> keen lo hi o0 (cont (Inr False))"
  shows "keen lo hi o0 (gcs_write g k v ttl c cont)"
  using assms by (auto simp: gcs_write_unfold)

lemma keen_racer:
  assumes "o0 = None \<or> (\<exists>ob. o0 = Some ob \<and> expired lo (es_lease (gobj_entry ob)))"
  shows "keen lo hi o0 (gcs_racer g k r)"
proof -
  obtain own v ttl where r: "r = (own, v, ttl)" by (cases r)
  let ?g = "g\<lparr>g_owner := own\<rparr>"
  have "keen lo hi o0 (gcs_write ?g k v ttl DoesNotExist (pia_first ?g k v ttl))"
  proof (rule keen_write, cases o0)
    case (Some ob)
    with assms have "\<not> es_live (gobj_entry ob) t" if "lo \<le> t" for t
      using that by (auto simp: es_live_def expired_def es_lease_def split: option.splits)
    then have "keen lo hi o0 (pia_stale ?g k v ttl (gobj_entry ob) t)" if "lo \<le> t" for t
      using that Some by (simp add: pia_stale_def keen_write)
    with Some show "cond_holds DoesNotExist o0 \<or> keen lo hi o0 (pia_first ?g k v ttl (Inr False))"
      by (simp add: gcs_read_def attrs_answer_def gobj_entry_def)
  qed simp
  then show ?thesis by (simp add: r gcs_racer_stages)
qed

lemma calls_le_Suc: "calls_le n p \<Longrightarrow> calls_le (Suc n) p"
  by (induction n p rule: calls_le.induct) auto

lemma calls_write: "(\<And>w. calls_le n (cont w)) \<Longrightarrow> calls_le (Suc (Suc n)) (gcs_write g k v ttl c cont)"
  by (simp add: gcs_write_unfold calls_le_Suc)

lemma calls_read: "(\<And>x. calls_le n (cont x)) \<Longrightarrow> calls_le (Suc (Suc n)) (gcs_read g k cont)"
  by (auto simp: gcs_read_def calls_le_Suc split: gcs_resp.splits)

lemma calls_racer: "calls_le 7 (gcs_racer g k r)"
proof -
  obtain own v ttl where r: "r = (own, v, ttl)" by (cases r)
  let ?g = "g\<lparr>g_owner := own\<rparr>"
  have e: "calls_le 0 (pia_end k w)" for w by (cases w) simp_all
  have s: "calls_le 2 (pia_stale ?g k v ttl en t)" for en t
    using calls_write [OF e] by (simp add: pia_stale_def numeral_2_eq_2)
  have p: "calls_le 3 (pia_read ?g k v ttl x)" for x
    using s by (cases x; cases "projr x") (simp_all add: numeral_3_eq_3 numeral_2_eq_2)
  have "calls_le 5 (gcs_read ?g k (pia_read ?g k v ttl))"
    using calls_read [OF p] by (simp add: eval_nat_numeral)
  then have "calls_le 5 (pia_first ?g k v ttl w)" for w
    by (cases w rule: go_bool_cases) (simp_all add: eval_nat_numeral)
  then have "calls_le (Suc (Suc 5)) (gcs_racer g k (own, v, ttl))"
    unfolding gcs_racer_stages by (rule calls_write)
  then show ?thesis by (simp add: r eval_nat_numeral)
qed

section \<open>The invariant of the race\<close>

text \<open>
  Before any write is applied the key holds the initial object \<open>o0\<close> (\<open>race_open\<close>); after it,
  the object of the one process \<open>w\<close> whose write was applied (\<open>race_taken\<close>), under a generation
  above \<open>g0\<close>, the last one handed out before the race. With \<open>kn\<close> no call fails and \<open>o0\<close> is free.
\<close>

definition race_open ::
  "bool \<Rightarrow> time \<Rightarrow> time \<Rightarrow> gobj option \<Rightarrow> string \<Rightarrow> racer list \<Rightarrow> (bool go_result) gcs_prog list
    \<Rightarrow> gobj option \<Rightarrow> bool" where
  "race_open kn lo hi o0 n rs ps oo \<longleftrightarrow>
     oo = o0 \<and> (\<forall>i < length rs. tame lo hi o0 n (racer_write (rs ! i)) (ps ! i) \<and> (kn \<longrightarrow> keen lo hi o0 (ps ! i)))"

definition race_taken ::
  "bool \<Rightarrow> time \<Rightarrow> time \<Rightarrow> gobj option \<Rightarrow> int \<Rightarrow> string \<Rightarrow> racer list \<Rightarrow> (bool go_result) gcs_prog list
    \<Rightarrow> gobj option \<Rightarrow> bool" where
  "race_taken kn lo hi o0 g0 n rs ps oo \<longleftrightarrow>
     (\<exists>ob w. oo = Some ob \<and> g0 < o_gen ob \<and> meta_live hi (o_meta ob) (o_updated ob)
        \<and> w < length rs \<and> racer_write (rs ! w) (o_body ob) (o_meta ob)
        \<and> (\<forall>i < length rs. i \<noteq> w \<longrightarrow> tame lo hi o0 n (racer_write (rs ! i)) (ps ! i))
        \<and> (ps ! w = Ret (Inr True) \<or> (\<not> kn \<and> tame lo hi o0 n (racer_write (rs ! w)) (ps ! w))))"

definition race_inv ::
  "bool \<Rightarrow> time \<Rightarrow> time \<Rightarrow> gobj option \<Rightarrow> int \<Rightarrow> string \<Rightarrow> racer list \<Rightarrow> (bool go_result) gcs_prog list
    \<Rightarrow> gobj option \<Rightarrow> bool" where
  "race_inv kn lo hi o0 g0 n rs ps oo \<longleftrightarrow>
     length ps = length rs \<and> (race_open kn lo hi o0 n rs ps oo \<or> race_taken kn lo hi o0 g0 n rs ps oo)"

text \<open>A process that stays tame keeps the invariant while the object stays.\<close>

lemma race_open_step:
  assumes "race_open kn lo hi o0 n rs ps oo" and "length ps = length rs" and "i < length rs"
    and "tame lo hi o0 n (racer_write (rs ! i)) p" and "kn \<longrightarrow> keen lo hi o0 p"
  shows "race_open kn lo hi o0 n rs (ps[i := p]) oo"
  using assms by (simp add: race_open_def nth_list_update)

lemma race_taken_step:
  assumes "race_taken kn lo hi o0 g0 n rs ps oo" and "length ps = length rs" and "i < length rs"
    and "ps ! i \<noteq> Ret (Inr True)"
    and "tame lo hi o0 n (racer_write (rs ! i)) (ps ! i) \<Longrightarrow> tame lo hi o0 n (racer_write (rs ! i)) p"
  shows "race_taken kn lo hi o0 g0 n rs (ps[i := p]) oo"
proof -
  from assms(1) obtain ob w where w: "oo = Some ob" "g0 < o_gen ob" "meta_live hi (o_meta ob) (o_updated ob)"
      "w < length rs" "racer_write (rs ! w) (o_body ob) (o_meta ob)"
      "\<forall>i < length rs. i \<noteq> w \<longrightarrow> tame lo hi o0 n (racer_write (rs ! i)) (ps ! i)"
      "ps ! w = Ret (Inr True) \<or> (\<not> kn \<and> tame lo hi o0 n (racer_write (rs ! w)) (ps ! w))"
    unfolding race_taken_def by blast
  have others: "\<forall>j < length rs. j \<noteq> w \<longrightarrow> tame lo hi o0 n (racer_write (rs ! j)) (ps[i := p] ! j)"
    using w(6) assms(2,3,5) by (auto simp: nth_list_update)
  have winner: "ps[i := p] ! w = Ret (Inr True)
      \<or> (\<not> kn \<and> tame lo hi o0 n (racer_write (rs ! w)) (ps[i := p] ! w))"
    using w(7) assms(2-5) by (cases "i = w") auto
  show ?thesis unfolding race_taken_def using w others winner by blast
qed

lemma race_taken_tame:
  assumes "race_taken kn lo hi o0 g0 n rs ps oo" and "i < length rs" and "ps ! i \<noteq> Ret (Inr True)"
  shows "tame lo hi o0 n (racer_write (rs ! i)) (ps ! i)"
  using assms unfolding race_taken_def by blast

text \<open>The process whose write is applied while the race is open takes the key.\<close>

lemma race_take:
  assumes "race_open kn lo hi o0 n rs ps oo" and "length ps = length rs" and "i < length rs"
    and "p = Ret (Inr True) \<or> (\<not> kn \<and> tame lo hi o0 n (racer_write (rs ! i)) p)"
    and "g0 < gen" and "meta_live hi md t" and "racer_write (rs ! i) body md"
  shows "race_taken kn lo hi o0 g0 n rs (ps[i := p])
    (Some \<lparr>o_gen = gen, o_body = body, o_meta = md, o_updated = t\<rparr>)"
  unfolding race_taken_def
  by (rule exI [of _ "\<lparr>o_gen = gen, o_body = body, o_meta = md, o_updated = t\<rparr>"], rule exI [of _ i])
    (use assms in \<open>auto simp: race_open_def nth_list_update\<close>)

lemma tame_not_winner: "tame lo hi o0 n wr p \<Longrightarrow> p \<noteq> Ret (Inr True)"
  by auto

lemma filter_eq_upto: "filter ((=) w) [0..<n] = (if w < n then [w] else [])"
  by (induction n) auto

lemma race_inv_winners:
  assumes "race_inv kn lo hi o0 g0 n rs ps oo"
  shows "race_winners ps = []
    \<or> (\<exists>w ob. race_winners ps = [w] \<and> oo = Some ob \<and> racer_write (rs ! w) (o_body ob) (o_meta ob))"
proof -
  have len: "length ps = length rs" using assms by (simp add: race_inv_def)
  have one: "race_winners ps = (if ps ! w = Ret (Inr True) then [w] else [])"
    if "w < length ps" and "\<forall>i < length ps. i \<noteq> w \<longrightarrow> ps ! i \<noteq> Ret (Inr True)" for w
  proof -
    have "race_winners ps = filter (\<lambda>i. i = w \<and> ps ! w = Ret (Inr True)) [0..<length ps]"
      unfolding race_winners_def using that(2) by (intro filter_cong) auto
    also have "\<dots> = (if ps ! w = Ret (Inr True) then filter ((=) w) [0..<length ps] else [])"
      by (auto simp: eq_commute [of w] intro: filter_cong)
    finally show ?thesis using that(1) by (simp add: filter_eq_upto)
  qed
  from assms consider "race_open kn lo hi o0 n rs ps oo" | "race_taken kn lo hi o0 g0 n rs ps oo"
    by (auto simp: race_inv_def)
  then show ?thesis
  proof cases
    case 1
    then have "\<forall>i < length ps. ps ! i \<noteq> Ret (Inr True)"
      using len by (auto simp: race_open_def dest: tame_not_winner)
    then show ?thesis by (simp add: race_winners_def filter_empty_conv)
  next
    case 2
    then obtain ob w where "oo = Some ob" "w < length ps" "racer_write (rs ! w) (o_body ob) (o_meta ob)"
      "\<forall>i < length ps. i \<noteq> w \<longrightarrow> ps ! i \<noteq> Ret (Inr True)"
      unfolding race_taken_def len by (blast dest: tame_not_winner)
    with one show ?thesis by auto
  qed
qed

lemma race_inv_one_winner:
  assumes "race_inv True lo hi o0 g0 n rs ps oo" and "i < length rs" and "ps ! i = Ret r"
  shows "\<exists>w. race_winners ps = [w]"
proof -
  have "race_taken True lo hi o0 g0 n rs ps oo"
    using assms by (auto simp: race_inv_def race_open_def)
  then obtain w where "w < length ps" and "ps ! w = Ret (Inr True)"
    using assms(1) by (auto simp: race_taken_def race_inv_def)
  then have "w \<in> set (race_winners ps)" by (simp add: race_winners_def)
  with race_inv_winners [OF assms(1)] show ?thesis by auto
qed

section \<open>Every racer returns\<close>

definition turns :: "nat \<Rightarrow> (nat \<times> time) list \<Rightarrow> nat" where
  "turns i evs = length (filter (\<lambda>(j, t). j = i) evs)"

lemma turn_calls:
  assumes "calls_le n (ps ! i)" and "i < length ps"
  shows "calls_le (if j = i then n - 1 else n) (fst (gcs_turn serve j t (ps, s)) ! i)"
    and "length (fst (gcs_turn serve j t (ps, s))) = length ps"
proof -
  show "length (fst (gcs_turn serve j t (ps, s))) = length ps"
    by (auto simp: gcs_turn_def split: gcs_prog.splits prod.splits)
  show "calls_le (if j = i then n - 1 else n) (fst (gcs_turn serve j t (ps, s)) ! i)"
    using assms by (cases "ps ! j"; cases n)
      (auto simp: gcs_turn_def nth_list_update split: gcs_prog.splits prod.splits)
qed

lemma sched_calls:
  assumes "calls_le n (ps ! i)" and "i < length ps"
  shows "calls_le (n - turns i evs) (fst (gcs_sched serve evs (ps, s)) ! i)"
  using assms
proof (induction evs arbitrary: n ps s)
  case Nil
  then show ?case by (simp add: turns_def)
next
  case (Cons ev evs)
  obtain j t where ev: "ev = (j, t)" by (cases ev)
  obtain ps1 s1 where turn: "gcs_turn serve j t (ps, s) = (ps1, s1)" by fastforce
  from turn_calls [where j = j and serve = serve and t = t and s = s, OF Cons.prems] turn Cons.prems(2)
  have "calls_le (if j = i then n - 1 else n) (ps1 ! i)" and "i < length ps1" by simp_all
  from Cons.IH [OF this] show ?case using ev turn by (auto simp: turns_def)
qed

lemma racer_returns:
  assumes "gcs_race serve g key rs evs s = (ps, s')" and "i < length rs" and "7 \<le> turns i evs"
  shows "\<exists>r. ps ! i = Ret r"
proof -
  have "calls_le (7 - turns i evs) (fst (gcs_sched serve evs (map (gcs_racer g key) rs, s)) ! i)"
    by (rule sched_calls) (use assms(2) calls_racer in simp_all)
  with assms have "calls_le 0 (ps ! i)" by (simp add: gcs_race_def)
  then show ?thesis by (cases "ps ! i") auto
qed

section \<open>The race\<close>

context gcs_service
begin

lemma turn_keep:
  assumes inv: "race_inv kn lo hi o0 g0 n rs ps ob" and i: "i < length rs" and notret: "ps ! i \<noteq> Ret (Inr True)"
    and p': "tame lo hi o0 n (racer_write (rs ! i)) p'"
      "\<lbrakk>kn; race_open kn lo hi o0 n rs ps ob\<rbrakk> \<Longrightarrow> keen lo hi o0 p'"
  shows "race_inv kn lo hi o0 g0 n rs (ps[i := p']) ob"
  using assms unfolding race_inv_def by (auto intro: race_open_step race_taken_step)

lemma turn_tame:
  assumes "race_inv kn lo hi o0 g0 n rs ps ob" and "i < length rs" and "ps ! i = Rpc q k"
  shows "tame lo hi o0 n (racer_write (rs ! i)) (Rpc q k)"
  using assms race_taken_tame [of kn lo hi o0 g0 n rs ps ob i] by (auto simp: race_inv_def race_open_def)

lemma turn_keen:
  assumes "race_open kn lo hi o0 n rs ps ob" and "i < length rs" and "ps ! i = Rpc q k" and kn
  shows "keen lo hi o0 (Rpc q k)"
  using assms by (auto simp: race_open_def)

lemma turn_attrs:
  assumes inv: "race_inv kn lo hi o0 g0 n rs ps (objs s n)" and ok: "srv_ok s" and kn: "kn \<Longrightarrow> \<not> gcs_fails serve"
    and i: "i < length rs" and p: "ps ! i = Rpc (GAttrs m) k" and s': "serve t (GAttrs m) s = (a, s')"
  shows "race_inv kn lo hi o0 g0 n rs (ps[i := k a]) (objs s' n)"
proof -
  note at = serve_attrs [OF ok s'] and tame = turn_tame [OF inv i p]
  from tame have m: "m = n" by simp
  have "objs s n = o0 \<or> (\<exists>ob. objs s n = Some ob \<and> g0 < o_gen ob \<and> meta_live hi (o_meta ob) (o_updated ob))"
    using inv by (auto simp: race_inv_def race_open_def race_taken_def)
  then have ans: "a = attrs_answer o0 \<or> (\<exists>e. a = GFail e) \<or> (\<exists>gen md upd. a = GAttrsOk gen md upd \<and> meta_live hi md upd)"
    using at by (auto simp: m attrs_answer_def)
  have "race_inv kn lo hi o0 g0 n rs (ps[i := k a]) (objs s n)"
  proof (rule turn_keep [OF inv i])
    show "ps ! i \<noteq> Ret (Inr True)" using p by simp
    show "tame lo hi o0 n (racer_write (rs ! i)) (k a)" using tame ans by auto
    assume kk: kn "race_open kn lo hi o0 n rs ps (objs s n)"
    then have "a = attrs_answer o0"
      using at kn [OF kk(1)] gcs_fails_answer [OF s'] by (auto simp: race_open_def attrs_answer_def m)
    with turn_keen [OF kk(2) i p kk(1)] show "keen lo hi o0 (k a)" by simp
  qed
  with at show ?thesis by simp
qed

lemma turn_read:
  assumes inv: "race_inv kn lo hi o0 g0 n rs ps (objs s n)" and ok: "srv_ok s" and kn: "kn \<Longrightarrow> \<not> gcs_fails serve"
    and i: "i < length rs" and p: "ps ! i = Rpc (GRead m gen) k" and s': "serve t (GRead m gen) s = (a, s')"
  shows "race_inv kn lo hi o0 g0 n rs (ps[i := k a]) (objs s' n)"
proof -
  note rd = serve_read [OF ok s'] and tame = turn_tame [OF inv i p]
  from tame have m: "m = n" by simp
  have "race_inv kn lo hi o0 g0 n rs (ps[i := k a]) (objs s n)"
  proof (rule turn_keep [OF inv i])
    show "ps ! i \<noteq> Ret (Inr True)" using p by simp
    show "tame lo hi o0 n (racer_write (rs ! i)) (k a)" using tame by auto
    assume kk: kn "race_open kn lo hi o0 n rs ps (objs s n)"
    then show "keen lo hi o0 (k a)"
      using turn_keen [OF kk(2) i p kk(1)] rd kn [OF kk(1)] gcs_fails_answer [OF s'] by (auto simp: race_open_def m)
  qed
  with rd show ?thesis by simp
qed

lemma turn_write:
  assumes inv: "race_inv kn lo hi o0 g0 n rs ps (objs s n)" and ok: "srv_ok s" "g0 \<le> last_gen s"
    and kn: "kn \<Longrightarrow> \<not> gcs_fails serve" and o0: "\<And>ob. o0 = Some ob \<Longrightarrow> o_gen ob \<le> g0"
    and i: "i < length rs" and p: "ps ! i = Rpc (GWrite m c body md) k" and t: "lo \<le> t" "t \<le> hi"
    and s': "serve t (GWrite m c body md) s = (a, s')"
  shows "race_inv kn lo hi o0 g0 n rs (ps[i := k a]) (objs s' n)"
proof -
  have notret: "ps ! i \<noteq> Ret (Inr True)" using p by simp
  have len: "length ps = length rs" using inv by (simp add: race_inv_def)
  have nf: "a \<noteq> GFail e" if kn for e using kn [OF that] gcs_fails_answer [OF s'] by blast
  from turn_tame [OF inv i p] have m: "m = n" and c: "race_cond o0 c" and wr: "racer_write (rs ! i) body md"
    and live: "meta_live hi md t" and won: "k GOk = Ret (Inr True)"
    and rest: "a \<noteq> GOk \<Longrightarrow> tame lo hi o0 n (racer_write (rs ! i)) (k a)" using t by auto
  from serve_write [OF ok(1) s'] consider
      (refused) "a = GPrecond" "\<not> cond_holds c (objs s n)" "objs s' = objs s"
    | (applied) gen where "a = GOk \<or> (\<exists>e. a = GFail e)" "cond_holds c (objs s n)" "last_gen s < gen"
        "objs s' = (objs s)(n \<mapsto> \<lparr>o_gen = gen, o_body = body, o_meta = md, o_updated = t\<rparr>)"
    | (failed) e where "a = GFail e" "objs s' = objs s"
    unfolding m by blast
  then show ?thesis
  proof cases
    case refused
    have "keen lo hi o0 (k a)" if kn and "race_open kn lo hi o0 n rs ps (objs s n)"
      using turn_keen [OF that(2) i p that(1)] that(2) refused by (auto simp: race_open_def)
    with turn_keep [OF inv i notret rest] refused show ?thesis by simp
  next
    case applied
    have "\<not> race_taken kn lo hi o0 g0 n rs ps (objs s n)"
      using applied(2) c o0 by (force simp: race_taken_def race_cond_def)
    then have "race_open kn lo hi o0 n rs ps (objs s n)" using inv by (auto simp: race_inv_def)
    moreover have "k a = Ret (Inr True) \<or> (\<not> kn \<and> tame lo hi o0 n (racer_write (rs ! i)) (k a))"
      using applied(1) won rest nf by auto
    ultimately show ?thesis
      using race_take [OF _ len i _ _ live wr] applied(3,4) ok(2) len by (auto simp: race_inv_def)
  next
    case failed
    with nf turn_keep [OF inv i notret rest] show ?thesis by auto
  qed
qed

lemma turn_rpc:
  assumes inv: "race_inv kn lo hi o0 g0 n rs ps (objs s n)" and ok: "srv_ok s" "g0 \<le> last_gen s"
    and kn: "kn \<Longrightarrow> \<not> gcs_fails serve" and o0: "\<And>ob. o0 = Some ob \<Longrightarrow> o_gen ob \<le> g0"
    and i: "i < length rs" and p: "ps ! i = Rpc q k" and t: "lo \<le> t" "t \<le> hi"
    and s': "serve t q s = (a, s')"
  shows "race_inv kn lo hi o0 g0 n rs (ps[i := k a]) (objs s' n)"
proof (cases q)
  case (GAttrs m)
  with turn_attrs [OF inv ok(1) kn i] p s' show ?thesis by simp
next
  case (GRead m gen)
  with turn_read [OF inv ok(1) kn i] p s' show ?thesis by simp
next
  case (GWrite m c body md)
  with turn_write [OF inv ok kn o0 i _ t] p s' show ?thesis by simp
next
  case (GDelete m oc)
  with turn_tame [OF inv i p] show ?thesis by simp
qed

lemma turn_inv:
  assumes inv: "race_inv kn lo hi o0 g0 n rs ps (objs s n)" and ok: "srv_ok s" "g0 \<le> last_gen s"
    and kn: "kn \<Longrightarrow> \<not> gcs_fails serve" and o0: "\<And>ob. o0 = Some ob \<Longrightarrow> o_gen ob \<le> g0"
    and t: "lo \<le> t" "t \<le> hi" and turn: "gcs_turn serve i t (ps, s) = (ps', s')"
  shows "race_inv kn lo hi o0 g0 n rs ps' (objs s' n) \<and> srv_ok s' \<and> g0 \<le> last_gen s'"
proof (cases "i < length ps")
  case False
  with assms show ?thesis by (simp add: gcs_turn_def)
next
  case i: True
  have len: "length ps = length rs" using inv by (simp add: race_inv_def)
  show ?thesis
  proof (cases "ps ! i")
    case (Ret r)
    with i assms show ?thesis by (simp add: gcs_turn_def)
  next
    case (Rpc q k)
    obtain a s1 where s1: "serve t q s = (a, s1)" by fastforce
    with i Rpc turn have "ps' = ps[i := k a]" and "s' = s1" by (simp_all add: gcs_turn_def)
    with turn_rpc [OF inv ok kn o0 _ Rpc t s1] srv_ok_serve [OF ok(1) s1] i len ok(2) show ?thesis by auto
  next
    case (Clock k)
    with i turn have res: "ps' = ps[i := k t]" "s' = s" by (simp_all add: gcs_turn_def)
    have "tame lo hi o0 n (racer_write (rs ! i)) (ps ! i) \<Longrightarrow> tame lo hi o0 n (racer_write (rs ! i)) (k t)"
      using Clock t by simp
    moreover have "keen lo hi o0 (ps ! i) \<Longrightarrow> keen lo hi o0 (k t)" using Clock t by simp
    moreover have "ps ! i \<noteq> Ret (Inr True)" using Clock by simp
    ultimately have "race_inv kn lo hi o0 g0 n rs (ps[i := k t]) (objs s n)"
      using inv i len unfolding race_inv_def
      by (auto intro!: race_open_step race_taken_step) (auto simp: race_open_def)
    with res ok show ?thesis by simp
  qed
qed

lemma sched_inv:
  assumes "race_inv kn lo hi o0 g0 n rs ps (objs s n)" and "srv_ok s" and "g0 \<le> last_gen s"
    and kn: "kn \<Longrightarrow> \<not> gcs_fails serve" and o0: "\<And>ob. o0 = Some ob \<Longrightarrow> o_gen ob \<le> g0"
    and "in_window lo hi evs" and "gcs_sched serve evs (ps, s) = (ps', s')"
  shows "race_inv kn lo hi o0 g0 n rs ps' (objs s' n)"
  using assms(1-3,6,7)
proof (induction evs arbitrary: ps s)
  case Nil
  then show ?case by simp
next
  case (Cons ev evs)
  obtain i t where ev: "ev = (i, t)" by (cases ev)
  obtain ps1 s1 where turn: "gcs_turn serve i t (ps, s) = (ps1, s1)" by fastforce
  have t: "lo \<le> t" "t \<le> hi" and win: "in_window lo hi evs" using Cons.prems(4) ev by (auto simp: in_window_def)
  from turn_inv [OF Cons.prems(1-3) kn o0 t turn] Cons.IH [OF _ _ _ win] Cons.prems(5) ev turn
  show ?case by auto
qed

lemma race_start:
  assumes "list_all (outlasts_window lo hi) rs"
    and "kn \<Longrightarrow> o0 = None \<or> (\<exists>ob. o0 = Some ob \<and> expired lo (es_lease (gobj_entry ob)))"
  shows "race_inv kn lo hi o0 g0 (gcs_obj g key) rs (map (gcs_racer g key) rs) o0"
  using assms by (auto simp: race_inv_def race_open_def list_all_length intro: tame_racer keen_racer)

lemma race_run_inv:
  assumes "srv_ok s" and "list_all (outlasts_window lo hi) rs" and "in_window lo hi evs"
    and "gcs_race serve g key rs evs s = (ps, s')"
    and "kn \<Longrightarrow> \<not> gcs_fails serve \<and> (case gcs_view objs g s key of None \<Rightarrow> True | Some l \<Rightarrow> expired lo l)"
  shows "race_inv kn lo hi (objs s (gcs_obj g key)) (last_gen s) (gcs_obj g key) rs ps (objs s' (gcs_obj g key))"
proof (rule sched_inv [OF race_start [OF assms(2)] assms(1) order_refl _ _ assms(3)])
  show "gcs_sched serve evs (map (gcs_racer g key) rs, s) = (ps, s')" using assms(4) by (simp add: gcs_race_def)
  show "objs s (gcs_obj g key) = Some ob \<Longrightarrow> o_gen ob \<le> last_gen s" for ob
    by (rule gen_bound [OF assms(1)])
  show "kn \<Longrightarrow> objs s (gcs_obj g key) = None
      \<or> (\<exists>ob. objs s (gcs_obj g key) = Some ob \<and> expired lo (es_lease (gobj_entry ob)))"
    using assms(5) by (auto simp: gcs_view_def split: option.splits)
  show "kn \<Longrightarrow> \<not> gcs_fails serve" using assms(5) by blast
qed

lemma race_safe:
  assumes "srv_ok s" and "list_all (outlasts_window lo hi) rs" and "in_window lo hi evs"
    and "gcs_race serve g key rs evs s = (ps, s')"
  shows "length (race_winners ps) \<le> 1"
    and "i \<in> set (race_winners ps) \<Longrightarrow>
      (\<exists>l. gcs_view objs g s' key = Some l \<and> rs ! i = (l_owner l, l_val l, snd (snd (rs ! i))))"
proof -
  have inv: "race_inv False lo hi (objs s (gcs_obj g key)) (last_gen s) (gcs_obj g key) rs ps (objs s' (gcs_obj g key))"
    using assms by (rule race_run_inv) simp
  show "length (race_winners ps) \<le> 1" using race_inv_winners [OF inv] by auto
  show "\<exists>l. gcs_view objs g s' key = Some l \<and> rs ! i = (l_owner l, l_val l, snd (snd (rs ! i)))"
    if "i \<in> set (race_winners ps)"
  proof -
    from that race_inv_winners [OF inv] obtain ob where "objs s' (gcs_obj g key) = Some ob"
      and "racer_write (rs ! i) (o_body ob) (o_meta ob)" by auto
    then show ?thesis
      by (cases "rs ! i")
        (auto simp: gcs_view_def racer_write_def gobj_entry_def gcs_entry_def meta_get_def es_lease_def)
  qed
qed

lemma race_live:
  assumes "srv_ok s" and "list_all (outlasts_window lo hi) rs" and "in_window lo hi evs"
    and "gcs_race serve g key rs evs s = (ps, s')"
    and "\<not> gcs_fails serve" and "case gcs_view objs g s key of None \<Rightarrow> True | Some l \<Rightarrow> expired lo l"
    and "i < length rs" and "ps ! i = Ret r"
  shows "\<exists>w. race_winners ps = [w]"
proof -
  have "race_inv True lo hi (objs s (gcs_obj g key)) (last_gen s) (gcs_obj g key) rs ps (objs s' (gcs_obj g key))"
    using assms(1-4) by (rule race_run_inv) (use assms(5,6) in blast)
  then show ?thesis by (rule race_inv_one_winner) (use assms(7,8) in auto)
qed

end

section \<open>Properties\<close>

text \<open>
  C5: safety of the seed race. However the requests of any number of concurrent PutIfAbsent
  calls on one key interleave, and even if some requests fail, at most one call answers true,
  and the object then carries that caller's value and owner. Leases must outlast the window
  of the race; what the key held before, live, expired or nothing, does not matter.
\<close>

theorem gcs_race_at_most_one:
  assumes "gcs_service serve objs last_gen srv_ok" and "srv_ok s"
    and "list_all (outlasts_window lo hi) rs" and "in_window lo hi evs"
    and "gcs_race serve g key rs evs s = (ps, s')"
  shows "length (race_winners ps) \<le> 1
    \<and> list_all (\<lambda>i. \<exists>l. gcs_view objs g s' key = Some l \<and> rs ! i = (l_owner l, l_val l, snd (snd (rs ! i))))
        (race_winners ps)"
  using gcs_service.race_safe [OF assms] by (simp add: list_all_iff)

definition demo_racers :: "racer list" where
  "demo_racers = [(''vm-1'', ''10.0.0.1'', 60 * second), (''vm-2'', ''10.0.0.2'', 60 * second)]"

definition demo_schedule :: "(nat \<times> time) list" where
  "demo_schedule = concat (map (\<lambda>t. [(0, t), (1, t + 1)]) [40 * second, 41 * second, 42 * second, 43 * second,
     44 * second, 45 * second, 46 * second])"

lemma demo_race_facts:
  "list_all (outlasts_window (40 * second) (50 * second)) demo_racers"
  "in_window (40 * second) (50 * second) demo_schedule"
  by (simp_all add: demo_racers_def demo_schedule_def outlasts_window_def gcs_expiry_def wrap64_def in_window_def)

lemma gcs_race_at_most_one_witness:
  "length (race_winners (fst (gcs_race gcs_ref_serve gcs_demo ''seed'' demo_racers demo_schedule gcs_demo_bucket))) \<le> 1"
  using gcs_race_at_most_one [OF gcsref.gcs_service_axioms gcs_demo_ok demo_race_facts prod.collapse [symmetric],
      of gcs_demo "''seed''"]
  by blast

text \<open>
  C18: the seed race elects. When no request fails, the key is free when the race begins, every
  clock reading and server stamp of the race falls into one window of time which every racer's
  lease outlasts, and every racer is given seven turns, each call returns and exactly one of them
  answers true. (Were a lease to run out during the race, a later racer could win as well.)
\<close>

theorem gcs_race_elects:
  assumes "gcs_service serve objs last_gen srv_ok" and "srv_ok s"
    and "list_all (outlasts_window lo hi) rs" and "in_window lo hi evs"
    and "gcs_race serve g key rs evs s = (ps, s')"
    and "\<not> gcs_fails serve" and "case gcs_view objs g s key of None \<Rightarrow> True | Some l \<Rightarrow> expired lo l"
    and "rs \<noteq> []" and "list_all (\<lambda>i. 7 \<le> turns i evs) [0..<length rs]"
  shows "list_all (\<lambda>i. \<exists>r. ps ! i = Ret r) [0..<length rs] \<and> (\<exists>w. race_winners ps = [w])"
proof
  show returned: "list_all (\<lambda>i. \<exists>r. ps ! i = Ret r) [0..<length rs]"
    using racer_returns [OF assms(5)] assms(9) by (simp add: list_all_iff)
  from assms(8) have "0 < length rs" by simp
  then have "0 \<in> set [0..<length rs]" by simp
  with returned obtain r where "ps ! 0 = Ret r" unfolding list_all_iff by blast
  with \<open>0 < length rs\<close> show "\<exists>w. race_winners ps = [w]"
    by (rule gcs_service.race_live [OF assms(1-7)])
qed

lemma demo_bucket_view: "gcs_view b_objs gcs_demo gcs_demo_bucket ''seed'' = Some \<lparr>l_val = ''10.0.0.1'', l_owner = ''a'', l_exp = Some (30 * second)\<rparr>"
proof -
  have "gcs_view b_objs gcs_demo \<lparr>b_objs = (\<lambda>_. None), b_gen = 0\<rparr> = Map.empty"
    by (simp add: fun_eq_iff gcs_view_def)
  moreover have "gcs_ref_ok \<lparr>b_objs = (\<lambda>_. None), b_gen = 0\<rparr>" by (simp add: gcs_ref_ok_def)
  ultimately show ?thesis
    unfolding gcs_demo_bucket_def by (simp add: gcsref.up.exec_exact new_lease_def gcs_expiry_def wrap64_def)
qed

lemma gcs_race_elects_witness:
  "\<exists>w. race_winners (fst (gcs_race gcs_ref_serve gcs_demo ''seed'' demo_racers demo_schedule gcs_demo_bucket)) = [w]"
proof -
  have "\<not> gcs_fails gcs_ref_serve" by (simp add: gcs_fails_def gcs_ref_no_fail)
  moreover have "case gcs_view b_objs gcs_demo gcs_demo_bucket ''seed'' of None \<Rightarrow> True | Some l \<Rightarrow> expired (40 * second) l"
    by (simp add: demo_bucket_view expired_def)
  moreover have "demo_racers \<noteq> []" by (simp add: demo_racers_def)
  moreover have "list_all (\<lambda>i. 7 \<le> turns i demo_schedule) [0..<length demo_racers]"
    by (simp add: turns_def demo_schedule_def demo_racers_def upt_rec)
  ultimately show ?thesis
    using gcs_race_elects [OF gcsref.gcs_service_axioms gcs_demo_ok demo_race_facts prod.collapse [symmetric],
        of gcs_demo "''seed''"]
    by blast
qed

end
