(* ===== verification/GCS_Lock.thy ===== *)
theory GCS_Lock
  imports GCS_Race
begin

text \<open>
  A lease on Cloud Storage as a lock. An operation of internal/provider/gcp/kv.go is several
  requests and clock readings, so here, unlike in \<open>Lease_Protocol\<close>, the calls of different replicas
  interleave request by request, and their clocks disagree: the service's clock is the reference
  and a replica's reading is off by at most \<open>\<delta>\<close>. A replica counts a lease from its own clock
  when it made the call, and gives it up three times \<open>\<delta>\<close> early: for the reading it started from, for the reading
  it ends by, and for the reading with which another replica judges the lease expired.

  The rule replicas follow: what a replica writes is recognisably its own value (\<open>whose\<close>), and it swaps
  or deletes only values of its own; nobody deletes unconditionally.
\<close>

section \<open>The system\<close>

text \<open>The program of an operation; what a Get answers says nothing about the lock.\<close>

fun lock_prog :: "gcs_kv \<Rightarrow> string \<Rightarrow> kv_op \<Rightarrow> (bool go_result) gcs_prog" where
  "lock_prog g own (PutIfAbsent k v ttl) = gcs_put_if_absent (g\<lparr>g_owner := own\<rparr>) k v ttl"
| "lock_prog g own (CompareAndSwap k old new ttl) = gcs_compare_and_swap (g\<lparr>g_owner := own\<rparr>) k old new ttl"
| "lock_prog g own (Get k) = map_gcs_prog (map_sum id (\<lambda>_. False)) (gcs_get (g\<lparr>g_owner := own\<rparr>) k)"
| "lock_prog g own (Delete k ifv) = gcs_delete (g\<lparr>g_owner := own\<rparr>) k ifv"
| "lock_prog g own (Renew k ttl) = gcs_renew (g\<lparr>g_owner := own\<rparr>) k ttl"

fun op_ttl :: "kv_op \<Rightarrow> duration option" where
  "op_ttl (PutIfAbsent k v ttl) = Some ttl"
| "op_ttl (CompareAndSwap k old new ttl) = Some ttl"
| "op_ttl (Get k) = None"
| "op_ttl (Delete k ifv) = None"
| "op_ttl (Renew k ttl) = Some ttl"

fun is_delete :: "kv_op \<Rightarrow> bool" where
  "is_delete (Delete k ifv) = True"
| "is_delete op = False"

fun polite :: "(string \<Rightarrow> string) \<Rightarrow> string \<Rightarrow> kv_op \<Rightarrow> bool" where
  "polite whose own (PutIfAbsent k v ttl) = (whose v = own)"
| "polite whose own (CompareAndSwap k old new ttl) = (whose old = own \<and> whose new = own)"
| "polite whose own (Get k) = True"
| "polite whose own (Delete k ifv) = (case ifv of None \<Rightarrow> False | Some v \<Rightarrow> whose v = own)"
| "polite whose own (Renew k ttl) = True"

text \<open>
  A belief is a deadline on the replica's own clock, or none for a lease that does not end. The
  deadline an operation started at \<open>L\<close> asks for; of two deadlines the sooner.
\<close>

definition lock_until :: "time \<Rightarrow> kv_op \<Rightarrow> (time option) option" where
  "lock_until L op = map_option (gcs_expiry L) (op_ttl op)"

definition sooner :: "time option \<Rightarrow> time option \<Rightarrow> time option" where
  "sooner a b = (case a of None \<Rightarrow> b | Some x \<Rightarrow> (case b of None \<Rightarrow> Some x | Some y \<Rightarrow> Some (min x y)))"

text \<open>
  While a call is under way a replica counts on the sooner of what it had and what it asks for,
  and on nothing while it releases; a failed call, which may have been applied, ends the belief.
\<close>

definition on_begin :: "time \<Rightarrow> kv_op \<Rightarrow> (time option) option \<Rightarrow> (time option) option" where
  "on_begin L op h =
     (if is_delete op then None
      else case lock_until L op of None \<Rightarrow> h | Some u \<Rightarrow> map_option (\<lambda>v. sooner v u) h)"

definition on_return :: "time \<Rightarrow> kv_op \<Rightarrow> bool go_result \<Rightarrow> (time option) option \<Rightarrow> (time option) option" where
  "on_return L op r h =
     (case r of Inl e \<Rightarrow> None | Inr ok \<Rightarrow> if ok then lock_until L op else h)"

record 's lock_sys =
  lk_store :: 's
  lk_now :: time
  lk_call :: "string \<Rightarrow> (kv_op \<times> time \<times> (bool go_result) gcs_prog) option"
  lk_held :: "string \<Rightarrow> (time option) option"

definition near :: "time \<Rightarrow> time \<Rightarrow> time \<Rightarrow> bool" where
  "near \<delta> now t \<longleftrightarrow> \<bar>t - now\<bar> \<le> \<delta>"

fun req_obj :: "gcs_req \<Rightarrow> string" where
  "req_obj (GAttrs n) = n"
| "req_obj (GRead n gen) = n"
| "req_obj (GWrite n c body md) = n"
| "req_obj (GDelete n oc) = n"

inductive lock_reach ::
  "(time \<Rightarrow> gcs_req \<Rightarrow> 's \<Rightarrow> gcs_resp \<times> 's) \<Rightarrow> gcs_kv \<Rightarrow> (string \<Rightarrow> string) \<Rightarrow> time \<Rightarrow> string \<Rightarrow> 's \<Rightarrow> time \<Rightarrow> 's lock_sys \<Rightarrow> bool"
  for serve g whose \<delta> k s0 t0 where
  start: "lock_reach serve g whose \<delta> k s0 t0
    \<lparr>lk_store = s0, lk_now = t0, lk_call = (\<lambda>_. None), lk_held = (\<lambda>_. None)\<rparr>"
| tick: "lock_reach serve g whose \<delta> k s0 t0 s \<Longrightarrow> lk_now s \<le> t \<Longrightarrow> lock_reach serve g whose \<delta> k s0 t0 (s\<lparr>lk_now := t\<rparr>)"
| begin_call: "lock_reach serve g whose \<delta> k s0 t0 s \<Longrightarrow> lk_call s own = None \<Longrightarrow> op_key op = k \<Longrightarrow> polite whose own op \<Longrightarrow>
    near \<delta> (lk_now s) L \<Longrightarrow>
    lock_reach serve g whose \<delta> k s0 t0 (s\<lparr>lk_call := (lk_call s)(own \<mapsto> (op, L, lock_prog g own op)),
                          lk_held := (lk_held s)(own := on_begin L op (lk_held s own))\<rparr>)"
| clock: "lock_reach serve g whose \<delta> k s0 t0 s \<Longrightarrow> lk_call s own = Some (op, L, Clock c) \<Longrightarrow> near \<delta> (lk_now s) t \<Longrightarrow>
    lock_reach serve g whose \<delta> k s0 t0 (s\<lparr>lk_call := (lk_call s)(own \<mapsto> (op, L, c t))\<rparr>)"
| request: "lock_reach serve g whose \<delta> k s0 t0 s \<Longrightarrow> lk_call s own = Some (op, L, Rpc q c) \<Longrightarrow>
    serve (lk_now s) q (lk_store s) = (a, st') \<Longrightarrow>
    lock_reach serve g whose \<delta> k s0 t0 (s\<lparr>lk_store := st', lk_call := (lk_call s)(own \<mapsto> (op, L, c a))\<rparr>)"
| return: "lock_reach serve g whose \<delta> k s0 t0 s \<Longrightarrow> lk_call s own = Some (op, L, Ret r) \<Longrightarrow>
    lock_reach serve g whose \<delta> k s0 t0 (s\<lparr>lk_call := (lk_call s)(own := None),
                          lk_held := (lk_held s)(own := on_return L op r (lk_held s own))\<rparr>)"
| crash: "lock_reach serve g whose \<delta> k s0 t0 s \<Longrightarrow>
    lock_reach serve g whose \<delta> k s0 t0 (s\<lparr>lk_call := (lk_call s)(own := None), lk_held := (lk_held s)(own := None)\<rparr>)"
| elsewhere: "lock_reach serve g whose \<delta> k s0 t0 s \<Longrightarrow> req_obj q \<noteq> gcs_obj g k \<Longrightarrow>
    serve (lk_now s) q (lk_store s) = (a, st') \<Longrightarrow> lock_reach serve g whose \<delta> k s0 t0 (s\<lparr>lk_store := st'\<rparr>)"

text \<open>A replica takes itself for the holder while its own clock is more than the margin before the deadline.\<close>

definition holds_lock :: "time \<Rightarrow> string \<Rightarrow> 's lock_sys \<Rightarrow> bool" where
  "holds_lock \<delta> own s \<longleftrightarrow>
     (\<exists>u. lk_held s own = Some u \<and> (\<forall>d. u = Some d \<longrightarrow> (\<exists>L. near \<delta> (lk_now s) L \<and> L + 3 * \<delta> < d)))"

section \<open>What a program may do, given what it has read\<close>

text \<open>
  A replica knows metadata (\<open>KN\<close>) and bodies (\<open>KB\<close>) of generations, and the latest reading \<open>R\<close> of its
  clock. It may replace a generation that was expired at that reading, or carried its name, or
  a value of its own.
\<close>

type_synonym attrs_known = "int \<rightharpoonup> gcs_meta \<times> time"
type_synonym bodies_known = "int \<rightharpoonup> string"

definition owner_of :: "gcs_meta \<Rightarrow> string" where
  "owner_of md = meta_get md ''owner''"

definition may_replace :: "(string \<Rightarrow> string) \<Rightarrow> string \<Rightarrow> attrs_known \<Rightarrow> bodies_known \<Rightarrow> time \<Rightarrow> int \<Rightarrow> bool" where
  "may_replace whose own KN KB R gen \<longleftrightarrow>
     (\<exists>md upd. KN gen = Some (md, upd) \<and> (\<not> meta_live R md upd \<or> owner_of md = own))
     \<or> (\<exists>b. KB gen = Some b \<and> whose b = own)"

definition may_write :: "(string \<Rightarrow> string) \<Rightarrow> string \<Rightarrow> attrs_known \<Rightarrow> bodies_known \<Rightarrow> time \<Rightarrow> gcs_cond \<Rightarrow> string \<Rightarrow> bool" where
  "may_write whose own KN KB R c body =
     (case c of
        DoesNotExist \<Rightarrow> whose body = own
      | GenerationMatch gen \<Rightarrow>
          may_replace whose own KN KB R gen
          \<and> (whose body = own \<or> (KB gen = Some body \<and> (\<exists>md upd. KN gen = Some (md, upd) \<and> owner_of md = own))))"

definition learn_attrs :: "gcs_resp \<Rightarrow> attrs_known \<Rightarrow> attrs_known" where
  "learn_attrs a KN = (case a of GAttrsOk gen md upd \<Rightarrow> KN(gen \<mapsto> (md, upd)) | _ \<Rightarrow> KN)"

definition learn_body :: "int \<Rightarrow> gcs_resp \<Rightarrow> bodies_known \<Rightarrow> bodies_known" where
  "learn_body gen a KB = (case a of GBody b \<Rightarrow> KB(gen \<mapsto> b) | _ \<Rightarrow> KB)"

primrec ok_prog ::
  "gcs_kv \<Rightarrow> (string \<Rightarrow> string) \<Rightarrow> string \<Rightarrow> string \<Rightarrow> kv_op \<Rightarrow> (bool go_result) gcs_prog
    \<Rightarrow> attrs_known \<Rightarrow> bodies_known \<Rightarrow> time \<Rightarrow> bool" where
  "ok_prog g whose own n op (Ret r) = (\<lambda>KN KB R. op_ttl op = None \<or> r \<noteq> Inr True)"
| "ok_prog g whose own n op (Clock c) = (\<lambda>KN KB R. \<forall>t. ok_prog g whose own n op (c t) KN KB (max R t))"
| "ok_prog g whose own n op (Rpc q c) = (\<lambda>KN KB R.
     (case q of
        GAttrs m \<Rightarrow> m = n \<and> (\<forall>a. ok_prog g whose own n op (c a) (learn_attrs a KN) KB R)
      | GRead m gen \<Rightarrow> m = n \<and> (\<forall>a. ok_prog g whose own n op (c a) KN (learn_body gen a KB) R)
      | GWrite m cond body md \<Rightarrow>
          m = n \<and> may_write whose own KN KB R cond body
          \<and> (\<exists>ttl t. op_ttl op = Some ttl \<and> md = written_meta (g\<lparr>g_owner := own\<rparr>) ttl t)
          \<and> c GOk = Ret (Inr True) \<and> (\<forall>a. a \<noteq> GOk \<longrightarrow> ok_prog g whose own n op (c a) KN KB R)
      | GDelete m oc \<Rightarrow>
          m = n \<and> is_delete op \<and> (\<exists>gen b. oc = Some (GenerationMatch gen) \<and> KB gen = Some b \<and> whose b = own)
          \<and> (\<forall>a. ok_prog g whose own n op (c a) KN KB R)))"

lemma ok_read:
  assumes "\<And>KN KB e. ok_prog g whose own (gcs_obj g k) op (cont (Inl e)) KN KB R"
    and "\<And>KN KB. ok_prog g whose own (gcs_obj g k) op (cont (Inr None)) KN KB R"
    and "\<And>KN KB body gen md upd. KN gen = Some (md, upd) \<Longrightarrow> KB gen = Some body \<Longrightarrow>
      ok_prog g whose own (gcs_obj g k) op (cont (Inr (Some (gcs_entry body gen md upd)))) KN KB R"
  shows "ok_prog g whose own (gcs_obj g k) op (gcs_read (g\<lparr>g_owner := own\<rparr>) k cont) KN KB R"
  using assms by (auto simp: gcs_read_def learn_attrs_def learn_body_def split: gcs_resp.splits)

lemma ok_write:
  assumes "op_ttl op = Some ttl" and "\<And>R'. R \<le> R' \<Longrightarrow> may_write whose own KN KB R' c v"
    and "cont (Inr True) = Ret (Inr True)"
    and "\<And>w R'. w \<noteq> Inr True \<Longrightarrow> R \<le> R' \<Longrightarrow> ok_prog g whose own (gcs_obj g k) op (cont w) KN KB R'"
  shows "ok_prog g whose own (gcs_obj g k) op (gcs_write (g\<lparr>g_owner := own\<rparr>) k v ttl c cont) KN KB R"
proof -
  have "write_result a \<noteq> Inr True" if "a \<noteq> GOk" for a using that by (cases a) auto
  with assms show ?thesis by (auto simp: gcs_write_unfold)
qed

lemma may_replace_later:
  assumes "may_replace whose own KN KB R gen" and "R \<le> R'"
  shows "may_replace whose own KN KB R' gen"
  using assms meta_live_mono by (auto simp: may_replace_def)

lemma gcs_entry_owner [simp]: "es_owner (gcs_entry body gen md upd) = owner_of md"
  by (simp add: gcs_entry_def owner_of_def)

lemma gcs_entry_val [simp]: "es_val (gcs_entry body gen md upd) = body"
  by (simp add: gcs_entry_def)

lemma ok_put:
  assumes "whose v = own"
  shows "ok_prog g whose own (gcs_obj g k) (PutIfAbsent k v ttl) (gcs_racer g k (own, v, ttl)) KN KB R"
  unfolding gcs_racer_stages
proof (rule ok_write)
  fix w :: "bool go_result" and R'
  assume w: "w \<noteq> Inr True" "R \<le> R'"
  show "ok_prog g whose own (gcs_obj g k) (PutIfAbsent k v ttl) (pia_first (g\<lparr>g_owner := own\<rparr>) k v ttl w) KN KB R'"
  proof (cases w)
    case (Inr ok)
    have stale: "ok_prog g whose own (gcs_obj g k) (PutIfAbsent k v ttl)
        (pia_stale (g\<lparr>g_owner := own\<rparr>) k v ttl (gcs_entry body gen md upd) now) KN KB (max R' now)"
      if "KN gen = Some (md, upd)" for KN KB body gen md upd now
    proof (cases "meta_live now md upd")
      case False
      then have dead: "\<not> meta_live R'' md upd" if "now \<le> R''" for R'' using that meta_live_mono by blast
      have "pia_end k w = Ret w \<or> (\<exists>e. pia_end k w = Ret (Inl e))" for w by (cases w) auto
      with False that dead assms show ?thesis
        by (auto simp: pia_stale_def es_live_entry may_write_def may_replace_def pia_end_def split: sum.splits intro!: ok_write)
    qed (simp add: pia_stale_def es_live_entry)
    from w Inr show ?thesis by (auto intro!: ok_read stale)
  qed simp
qed (simp_all add: may_write_def assms)

lemma ok_cas:
  assumes "whose old = own" and "whose new = own"
  shows "ok_prog g whose own (gcs_obj g k) (CompareAndSwap k old new ttl)
    (gcs_compare_and_swap (g\<lparr>g_owner := own\<rparr>) k old new ttl) KN KB R"
  unfolding gcs_compare_and_swap_def
  by (rule ok_read) (auto simp: may_write_def may_replace_def assms split: sum.splits intro!: ok_write)

lemma ok_renew:
  "ok_prog g whose own (gcs_obj g k) (Renew k ttl) (gcs_renew (g\<lparr>g_owner := own\<rparr>) k ttl) KN KB R"
  unfolding gcs_renew_def
  by (cases "ttl \<le> 0") (auto simp: may_write_def may_replace_def split: sum.splits intro!: ok_read ok_write)

lemma ok_delete:
  assumes "whose v = own"
  shows "ok_prog g whose own (gcs_obj g k) (Delete k (Some v)) (gcs_delete (g\<lparr>g_owner := own\<rparr>) k (Some v)) KN KB R"
  unfolding gcs_delete_def option.case
  by (rule ok_read) (auto simp: assms split: gcs_resp.splits)

lemma ok_get: "ok_prog g whose own (gcs_obj g k) (Get k) (lock_prog g own (Get k)) KN KB R"
  by (auto simp: gcs_get_def gcs_read_def comp_def learn_attrs_def learn_body_def split: gcs_resp.splits)

lemma ok_lock_prog:
  assumes "polite whose own op" and "op_key op = k"
  shows "ok_prog g whose own (gcs_obj g k) op (lock_prog g own op) KN KB R"
  using assms ok_put [of whose _ own g k, unfolded gcs_racer_def] ok_get
  by (cases op) (auto intro: ok_cas ok_renew ok_delete split: option.splits)

section \<open>The invariant\<close>

text \<open>
  \<open>fresh\<close>: by the service's clock a replica may still take this belief for good. \<open>covers\<close>: the object outlives
  the belief up to one reading's error. A call that is about to return true counts as a belief.
\<close>

definition fresh :: "time \<Rightarrow> time \<Rightarrow> time option \<Rightarrow> bool" where
  "fresh \<delta> now u \<longleftrightarrow> (\<forall>d. u = Some d \<longrightarrow> now < d - 2 * \<delta>)"

definition covers :: "time \<Rightarrow> gobj \<Rightarrow> time option \<Rightarrow> bool" where
  "covers \<delta> ob u \<longleftrightarrow>
     (\<forall>x. es_expires (gobj_entry ob) = Some x \<longrightarrow> (\<exists>d. u = Some d \<and> d - \<delta> \<le> x))"

definition no_later :: "time option \<Rightarrow> time option \<Rightarrow> bool" where
  "no_later u u' \<longleftrightarrow> (\<forall>d'. u' = Some d' \<longrightarrow> (\<exists>d. u = Some d \<and> d \<le> d'))"

definition claims :: "'s lock_sys \<Rightarrow> string \<Rightarrow> time option \<Rightarrow> bool" where
  "claims s own u \<longleftrightarrow>
     lk_held s own = Some u
     \<or> (\<exists>op L. lk_call s own = Some (op, L, Ret (Inr True)) \<and> lock_until L op = Some u)"

definition knows :: "gobj option \<Rightarrow> int \<Rightarrow> attrs_known \<Rightarrow> bodies_known \<Rightarrow> bool" where
  "knows cur lg KN KB \<longleftrightarrow>
     (\<forall>gen md upd. KN gen = Some (md, upd) \<longrightarrow>
        gen \<le> lg \<and> (\<forall>ob. cur = Some ob \<and> o_gen ob = gen \<longrightarrow> o_meta ob = md \<and> o_updated ob = upd))
     \<and> (\<forall>gen b. KB gen = Some b \<longrightarrow> gen \<le> lg \<and> (\<forall>ob. cur = Some ob \<and> o_gen ob = gen \<longrightarrow> o_body ob = b))"

definition call_ok ::
  "gcs_kv \<Rightarrow> (string \<Rightarrow> string) \<Rightarrow> time \<Rightarrow> string \<Rightarrow> gobj option \<Rightarrow> int \<Rightarrow> time \<Rightarrow> string \<Rightarrow> (time option) option
    \<Rightarrow> kv_op \<times> time \<times> (bool go_result) gcs_prog \<Rightarrow> bool" where
  "call_ok g whose \<delta> n cur lg now own held c =
     (case c of (op, L, p) \<Rightarrow>
        L \<le> now + \<delta> \<and> (is_delete op \<longrightarrow> held = None)
        \<and> (\<forall>u u'. held = Some u \<longrightarrow> lock_until L op = Some u' \<longrightarrow> no_later u u')
        \<and> (p = Ret (Inr True)
           \<or> (\<exists>KN KB R. R \<le> now + \<delta> \<and> knows cur lg KN KB \<and> ok_prog g whose own n op p KN KB R)))"

definition honest :: "(string \<Rightarrow> string) \<Rightarrow> gobj option \<Rightarrow> bool" where
  "honest whose cur \<longleftrightarrow> (\<forall>ob. cur = Some ob \<longrightarrow> whose (o_body ob) = owner_of (o_meta ob))"

definition lock_inv ::
  "('s \<Rightarrow> string \<Rightarrow> gobj option) \<Rightarrow> ('s \<Rightarrow> int) \<Rightarrow> gcs_kv \<Rightarrow> (string \<Rightarrow> string) \<Rightarrow> time \<Rightarrow> string \<Rightarrow> 's lock_sys \<Rightarrow> bool" where
  "lock_inv objs last_gen g whose \<delta> n s \<longleftrightarrow>
     honest whose (objs (lk_store s) n)
     \<and> (\<forall>own u. claims s own u \<and> fresh \<delta> (lk_now s) u \<longrightarrow>
          (\<exists>ob. objs (lk_store s) n = Some ob \<and> owner_of (o_meta ob) = own \<and> covers \<delta> ob u))
     \<and> (\<forall>own c. lk_call s own = Some c \<longrightarrow>
          call_ok g whose \<delta> n (objs (lk_store s) n) (last_gen (lk_store s)) (lk_now s) own (lk_held s own) c)"

lemma no_later_refl [simp]: "no_later u u"
  by (simp add: no_later_def)

lemma no_later_sooner [simp]: "no_later (sooner u v) u" "no_later (sooner u v) v"
  by (auto simp: no_later_def sooner_def split: option.splits)

lemma on_begin_SomeD: "on_begin L op h = Some u \<Longrightarrow> \<exists>v. h = Some v \<and> no_later u v"
  by (auto simp: on_begin_def split: if_splits option.splits)

lemma knows_step:
  assumes "knows cur lg KN KB" and "lg \<le> lg'"
    and "cur' = cur \<or> (\<forall>ob. cur' = Some ob \<longrightarrow> lg < o_gen ob)"
  shows "knows cur' lg' KN KB"
  using assms(3)
proof
  assume "cur' = cur"
  with assms(1,2) show ?thesis by (fastforce simp: knows_def)
next
  assume new: "\<forall>ob. cur' = Some ob \<longrightarrow> lg < o_gen ob"
  have "gen \<le> lg" if "KN gen = Some (md, upd)" for gen md upd using assms(1) that by (auto simp: knows_def)
  moreover have "gen \<le> lg" if "KB gen = Some b" for gen b using assms(1) that by (auto simp: knows_def)
  ultimately show ?thesis using new assms(2) unfolding knows_def by (cases cur') (fastforce+)
qed

lemma knows_attrs:
  assumes "knows (Some ob) lg KN KB" and "o_gen ob \<le> lg"
  shows "knows (Some ob) lg (KN(o_gen ob \<mapsto> (o_meta ob, o_updated ob))) KB"
  using assms by (auto simp: knows_def)

lemma knows_body:
  assumes "knows (Some ob) lg KN KB" and "o_gen ob \<le> lg"
  shows "knows (Some ob) lg KN (KB(o_gen ob \<mapsto> o_body ob))"
  using assms by (auto simp: knows_def)

lemma call_ok_step:
  assumes "call_ok g whose \<delta> n cur lg now own held c" and "lg \<le> lg'" and "now \<le> now'"
    and "cur' = cur \<or> (\<forall>ob. cur' = Some ob \<longrightarrow> lg < o_gen ob)"
  shows "call_ok g whose \<delta> n cur' lg' now' own held c"
  using assms knows_step [OF _ assms(2,4)] unfolding call_ok_def by (cases c) fastforce

lemma call_ok_later:
  "call_ok g whose \<delta> n cur lg now own held c \<Longrightarrow> lg \<le> lg' \<Longrightarrow> now \<le> now' \<Longrightarrow> call_ok g whose \<delta> n cur lg' now' own held c"
  by (rule call_ok_step) auto

text \<open>A belief that is fresh forbids everybody else to replace the object.\<close>

lemma fresh_protects:
  assumes "honest whose (Some ob)" and "knows (Some ob) lg KN KB" and "R \<le> now + \<delta>"
    and "owner_of (o_meta ob) = a" "covers \<delta> ob u" "fresh \<delta> now u"
    and "may_replace whose own KN KB R (o_gen ob)"
  shows "own = a"
proof -
  from assms(7) consider (attrs) md upd where "KN (o_gen ob) = Some (md, upd)" "\<not> meta_live R md upd \<or> owner_of md = own"
    | (body) b where "KB (o_gen ob) = Some b" "whose b = own" by (auto simp: may_replace_def)
  then show ?thesis
  proof cases
    case attrs
    then have eq: "md = o_meta ob" "upd = o_updated ob" using assms(2) by (auto simp: knows_def)
    have "meta_live R md upd"
    proof (rule ccontr)
      assume "\<not> meta_live R md upd"
      then obtain x where x: "es_expires (gobj_entry ob) = Some x" "x \<le> R"
        by (auto simp: eq meta_live_def es_live_def gobj_entry_def gcs_entry_def split: option.splits)
      with assms(5) obtain d where "u = Some d" "d - \<delta> \<le> x" by (auto simp: covers_def)
      with x(2) assms(3,6) show False by (auto simp: fresh_def)
    qed
    with attrs eq assms(4) show ?thesis by simp
  next
    case body
    with assms(1,2,4) show ?thesis by (auto simp: knows_def honest_def)
  qed
qed

text \<open>What a write of the caller's makes good: every deadline that counts from its start.\<close>

lemma written_covers:
  assumes "no_later u (gcs_expiry L ttl)" and "L \<le> now + \<delta>"
  shows "covers \<delta> \<lparr>o_gen = gen, o_body = body, o_meta = written_meta g ttl t, o_updated = now\<rparr> u"
proof -
  have "es_expires (gcs_entry body gen (written_meta g ttl t) now) = gcs_expiry now ttl"
    using arg_cong [OF written_entry [of body gen g ttl t now], of l_exp] by (simp add: new_lease_def)
  with assms show ?thesis
    by (auto simp: covers_def gobj_entry_def no_later_def gcs_expiry_def Let_def split: if_splits)
qed

section \<open>Steps\<close>

text \<open>
  What a request of a well-behaved call does to the object: nothing; or it replaces one the
  caller may replace by one of its own, with the lease it asked for; or it removes one of the caller's.
\<close>

datatype effect = Quiet | Wrote duration gobj | Removed_own

definition lock_effect ::
  "gcs_kv \<Rightarrow> (string \<Rightarrow> string) \<Rightarrow> string \<Rightarrow> string \<Rightarrow> kv_op \<Rightarrow> attrs_known \<Rightarrow> bodies_known \<Rightarrow> time \<Rightarrow> time
    \<Rightarrow> gobj option \<Rightarrow> int \<Rightarrow> gobj option \<Rightarrow> effect \<Rightarrow> bool" where
  "lock_effect g whose own n op KN KB R now cur lg cur' e =
     (case e of
        Quiet \<Rightarrow> cur' = cur
      | Wrote ttl ob \<Rightarrow>
          cur' = Some ob \<and> op_ttl op = Some ttl \<and> lg < o_gen ob \<and> whose (o_body ob) = own \<and> o_updated ob = now
          \<and> (\<exists>t. o_meta ob = written_meta (g\<lparr>g_owner := own\<rparr>) ttl t)
          \<and> (\<forall>old. cur = Some old \<longrightarrow> may_replace whose own KN KB R (o_gen old))
      | Removed_own \<Rightarrow> cur' = None \<and> is_delete op \<and> (\<forall>old. cur = Some old \<longrightarrow> may_replace whose own KN KB R (o_gen old)))"

context gcs_service
begin

text \<open>The call after the request: about to return true because its write was applied, or still well-behaved.\<close>

definition request_post where
  "request_post g whose own n op c a s' R e \<longleftrightarrow>
     c a = Ret (Inr True) \<and> (\<exists>ttl ob. e = Wrote ttl ob)
     \<or> (\<exists>KN' KB'. knows (objs s' n) (last_gen s') KN' KB' \<and> ok_prog g whose own n op (c a) KN' KB' R)"

lemma request_attrs:
  assumes ok: "srv_ok s" and p: "ok_prog g whose own n op (Rpc (GAttrs m) c) KN KB R"
    and kn: "knows (objs s n) (last_gen s) KN KB" and s': "serve now (GAttrs m) s = (a, s')"
  shows "objs s' n = objs s n \<and> request_post g whose own n op c a s' R Quiet"
proof -
  from p have m: "m = n" and next_ok: "ok_prog g whose own n op (c a) (learn_attrs a KN) KB R" by auto
  from serve_attrs [OF ok s'] m have cur: "objs s' n = objs s n"
    and ans: "(\<exists>e. a = GFail e) \<or> a = attrs_answer (objs s n)" by (auto simp: attrs_answer_def)
  have "knows (objs s n) (last_gen s) (learn_attrs a KN) KB"
    using ans kn gen_bound [OF ok, of n]
    by (cases "objs s n") (auto simp: learn_attrs_def attrs_answer_def intro!: knows_attrs)
  with knows_step [OF this, of "last_gen s'" "objs s' n"] srv_ok_serve [OF ok s'] next_ok cur show ?thesis
    by (auto simp: request_post_def)
qed

lemma request_read:
  assumes ok: "srv_ok s" and p: "ok_prog g whose own n op (Rpc (GRead m gen) c) KN KB R"
    and kn: "knows (objs s n) (last_gen s) KN KB" and s': "serve now (GRead m gen) s = (a, s')"
  shows "objs s' n = objs s n \<and> request_post g whose own n op c a s' R Quiet"
proof -
  from p have m: "m = n" and next_ok: "ok_prog g whose own n op (c a) KN (learn_body gen a KB) R" by auto
  note rd = serve_read [OF ok s' [unfolded m]]
  have "knows (objs s n) (last_gen s) KN (learn_body gen a KB)"
    using rd kn gen_bound [OF ok, of n]
    by (cases "objs s n") (auto simp: learn_body_def split: if_splits intro!: knows_body)
  with knows_step [OF this, of "last_gen s'" "objs s' n"] srv_ok_serve [OF ok s'] next_ok rd show ?thesis
    by (auto simp: request_post_def)
qed

lemma request_write:
  assumes ok: "srv_ok s" and p: "ok_prog g whose own n op (Rpc (GWrite m cond body md) c) KN KB R"
    and kn: "knows (objs s n) (last_gen s) KN KB" and hon: "honest whose (objs s n)"
    and s': "serve now (GWrite m cond body md) s = (a, s')"
  shows "\<exists>e. lock_effect g whose own n op KN KB R now (objs s n) (last_gen s) (objs s' n) e
    \<and> request_post g whose own n op c a s' R e"
proof -
  from p obtain ttl t where m: "m = n" and w: "may_write whose own KN KB R cond body"
    and md: "op_ttl op = Some ttl" "md = written_meta (g\<lparr>g_owner := own\<rparr>) ttl t"
    and won: "c GOk = Ret (Inr True)" and rest: "a \<noteq> GOk \<Longrightarrow> ok_prog g whose own n op (c a) KN KB R" by auto
  note keep = knows_step [OF kn, of "last_gen s'" "objs s' n"] srv_ok_serve [OF ok s']
  from serve_write [OF ok s' [unfolded m]] consider
      (same) "a \<noteq> GOk" "objs s' n = objs s n"
    | (applied) gen where "cond_holds cond (objs s n)" "last_gen s < gen"
        "objs s' n = Some \<lparr>o_gen = gen, o_body = body, o_meta = md, o_updated = now\<rparr>" by auto
  then show ?thesis
  proof cases
    case same
    with rest keep show ?thesis by (intro exI [of _ Quiet]) (auto simp: lock_effect_def request_post_def)
  next
    case applied
    let ?e = "Wrote ttl \<lparr>o_gen = gen, o_body = body, o_meta = md, o_updated = now\<rparr>"
    have "whose body = own"
      using w applied(1) kn hon by (cases "objs s n") (auto simp: may_write_def knows_def honest_def split: gcs_cond.splits)
    moreover have "may_replace whose own KN KB R (o_gen old)" if "objs s n = Some old" for old
      using that w applied(1) by (auto simp: may_write_def split: gcs_cond.splits)
    ultimately have "lock_effect g whose own n op KN KB R now (objs s n) (last_gen s) (objs s' n) ?e"
      using applied md by (auto simp: lock_effect_def)
    moreover have "request_post g whose own n op c a s' R ?e"
      using won rest keep applied by (cases "a = GOk") (auto simp: request_post_def)
    ultimately show ?thesis by blast
  qed
qed

lemma request_delete:
  assumes ok: "srv_ok s" and p: "ok_prog g whose own n op (Rpc (GDelete m oc) c) KN KB R"
    and kn: "knows (objs s n) (last_gen s) KN KB" and s': "serve now (GDelete m oc) s = (a, s')"
  shows "\<exists>e. lock_effect g whose own n op KN KB R now (objs s n) (last_gen s) (objs s' n) e
    \<and> request_post g whose own n op c a s' R e"
proof -
  from p obtain gen b where m: "m = n" and del: "is_delete op" and oc: "oc = Some (GenerationMatch gen)"
    and b: "KB gen = Some b" "whose b = own" and rest: "ok_prog g whose own n op (c a) KN KB R" by auto
  note keep = knows_step [OF kn, of "last_gen s'" "objs s' n"] srv_ok_serve [OF ok s']
  from serve_delete [OF ok s' [unfolded m oc]] consider
      (same) "objs s' n = objs s n"
    | (applied) old where "objs s n = Some old" "o_gen old = gen" "objs s' n = None"
    by (cases "objs s n") (auto simp: Let_def)
  then show ?thesis
  proof cases
    case same
    with rest keep show ?thesis by (intro exI [of _ Quiet]) (auto simp: lock_effect_def request_post_def)
  next
    case applied
    with b del rest keep show ?thesis
      by (intro exI [of _ Removed_own]) (auto simp: lock_effect_def request_post_def may_replace_def)
  qed
qed

lemma request_effect:
  assumes "srv_ok s" and "ok_prog g whose own n op (Rpc q c) KN KB R" and "knows (objs s n) (last_gen s) KN KB"
    and "honest whose (objs s n)" and "serve now q s = (a, s')"
  shows "\<exists>e. lock_effect g whose own n op KN KB R now (objs s n) (last_gen s) (objs s' n) e
    \<and> request_post g whose own n op c a s' R e"
proof (cases q)
  case (GAttrs m)
  from request_attrs [OF assms(1) assms(2,3,5) [unfolded GAttrs]] show ?thesis
    by (intro exI [of _ Quiet]) (simp add: lock_effect_def)
next
  case (GRead m gen)
  from request_read [OF assms(1) assms(2,3,5) [unfolded GRead]] show ?thesis
    by (intro exI [of _ Quiet]) (simp add: lock_effect_def)
next
  case (GWrite m cond body md)
  from request_write [OF assms(1) assms(2,3,4,5) [unfolded GWrite]] show ?thesis .
next
  case (GDelete m oc)
  from request_delete [OF assms(1) assms(2,3,5) [unfolded GDelete]] show ?thesis .
qed

lemma other_object:
  assumes "srv_ok s" and "req_obj q \<noteq> n" and "serve t q s = (a, s')"
  shows "objs s' n = objs s n"
proof (cases q)
  case (GWrite m c body md)
  with serve_write [OF assms(1) assms(3) [unfolded GWrite]] assms(2) show ?thesis by auto
next
  case (GDelete m oc)
  with serve_delete [OF assms(1) assms(3) [unfolded GDelete]] assms(2) show ?thesis by (auto simp: Let_def)
next
  case (GAttrs m)
  with serve_attrs [OF assms(1) assms(3) [unfolded GAttrs]] show ?thesis by simp
next
  case (GRead m gen)
  with serve_read [OF assms(1) assms(3) [unfolded GRead]] show ?thesis by simp
qed

lemma owner_of_written [simp]: "owner_of (written_meta (g\<lparr>g_owner := own\<rparr>) ttl t) = own"
  by (simp add: owner_of_def written_meta_def meta_get_def)

text \<open>A call that changes the object leaves no fresh belief of anybody else.\<close>

lemma effect_alone:
  assumes "lock_effect g whose own n op KN KB R now cur lg cur' e" and "e \<noteq> Quiet"
    and "honest whose cur" and "knows cur lg KN KB" and "R \<le> now + \<delta>"
    and "cur = Some ob" "owner_of (o_meta ob) = a" "covers \<delta> ob u" "fresh \<delta> now u"
  shows "a = own"
proof -
  have "may_replace whose own KN KB R (o_gen ob)" using assms(1,2,6) by (cases e) (auto simp: lock_effect_def)
  with fresh_protects [of whose ob lg KN KB R now \<delta> a u own] assms show ?thesis by simp
qed

lemma effect_claim:
  assumes eff: "lock_effect g whose own n op KN KB R (lk_now s) (objs (lk_store s) n) lg cur' e"
    and inv: "honest whose (objs (lk_store s) n)" "knows (objs (lk_store s) n) lg KN KB" "R \<le> lk_now s + \<delta>"
    and call: "L \<le> lk_now s + \<delta>" "is_delete op \<longrightarrow> lk_held s own = None"
      "\<And>u u'. lk_held s own = Some u \<Longrightarrow> lock_until L op = Some u' \<Longrightarrow> no_later u u'"
    and cl: "lk_held s a = Some u \<or> (a = own \<and> (\<exists>ttl ob. e = Wrote ttl ob) \<and> lock_until L op = Some u) \<or> (a \<noteq> own \<and> claims s a u)"
      "fresh \<delta> (lk_now s) u"
    and old: "claims s a u \<Longrightarrow> \<exists>ob. objs (lk_store s) n = Some ob \<and> owner_of (o_meta ob) = a \<and> covers \<delta> ob u"
  shows "\<exists>ob. cur' = Some ob \<and> owner_of (o_meta ob) = a \<and> covers \<delta> ob u"
proof (cases "e = Quiet")
  case True
  with cl have "claims s a u" by (auto simp: claims_def)
  with old True eff show ?thesis by (simp add: lock_effect_def)
next
  case False
  have a: "a = own"
  proof (rule ccontr)
    assume "a \<noteq> own"
    with cl(1) old have "\<exists>ob. objs (lk_store s) n = Some ob \<and> owner_of (o_meta ob) = a \<and> covers \<delta> ob u"
      by (auto simp: claims_def)
    with effect_alone [OF eff False inv] cl(2) \<open>a \<noteq> own\<close> show False by blast
  qed
  show ?thesis
  proof (cases e)
    case (Wrote ttl ob)
    with eff obtain t where ob: "cur' = Some ob" "op_ttl op = Some ttl" "o_updated ob = lk_now s"
      "o_meta ob = written_meta (g\<lparr>g_owner := own\<rparr>) ttl t" by (auto simp: lock_effect_def)
    then have "no_later u (gcs_expiry L ttl)"
      using cl(1) a call(3) by (auto simp: lock_until_def no_later_def)
    from written_covers [OF this call(1)] ob a show ?thesis by (cases ob) auto
  next
    case Removed_own
    with eff call(2) cl(1) a show ?thesis by (auto simp: lock_effect_def)
  qed (use False in simp)
qed

lemma inv_request:
  assumes inv: "lock_inv objs last_gen g whose \<delta> n s" and ok: "srv_ok (lk_store s)"
    and call: "lk_call s own = Some (op, L, Rpc q c)" and s': "serve (lk_now s) q (lk_store s) = (a, st')"
  shows "lock_inv objs last_gen g whose \<delta> n (s\<lparr>lk_store := st', lk_call := (lk_call s)(own \<mapsto> (op, L, c a))\<rparr>)"
    (is "lock_inv _ _ _ _ _ _ ?s'")
proof -
  let ?cur = "objs (lk_store s) n"
  have hon: "honest whose ?cur" using inv by (simp add: lock_inv_def)
  from inv call have "call_ok g whose \<delta> n ?cur (last_gen (lk_store s)) (lk_now s) own (lk_held s own) (op, L, Rpc q c)"
    by (simp add: lock_inv_def)
  then obtain KN KB R where c: "L \<le> lk_now s + \<delta>" "is_delete op \<longrightarrow> lk_held s own = None"
      "\<And>u u'. lk_held s own = Some u \<Longrightarrow> lock_until L op = Some u' \<Longrightarrow> no_later u u'"
    and R: "R \<le> lk_now s + \<delta>" "knows ?cur (last_gen (lk_store s)) KN KB" "ok_prog g whose own n op (Rpc q c) KN KB R"
    by (auto simp: call_ok_def)
  from request_effect [OF ok R(3,2) hon s'] obtain e where
    eff: "lock_effect g whose own n op KN KB R (lk_now s) ?cur (last_gen (lk_store s)) (objs st' n) e"
    and post: "request_post g whose own n op c a st' R e" by blast
  have mono: "last_gen (lk_store s) \<le> last_gen st'" using srv_ok_serve [OF ok s'] by simp
  have "honest whose (objs st' n)" using eff hon by (cases e) (auto simp: lock_effect_def honest_def)
  moreover have "\<exists>ob. objs st' n = Some ob \<and> owner_of (o_meta ob) = b \<and> covers \<delta> ob u"
    if "claims ?s' b u" "fresh \<delta> (lk_now s) u" for b u
  proof (rule effect_claim [OF eff hon R(2,1) c _ that(2)])
    show "lk_held s b = Some u \<or> (b = own \<and> (\<exists>ttl ob. e = Wrote ttl ob) \<and> lock_until L op = Some u) \<or> (b \<noteq> own \<and> claims s b u)"
      using that(1) post by (auto simp: claims_def request_post_def lock_until_def split: if_splits)
    show "\<exists>ob. ?cur = Some ob \<and> owner_of (o_meta ob) = b \<and> covers \<delta> ob u" if "claims s b u"
      using inv that \<open>fresh \<delta> (lk_now s) u\<close> by (simp add: lock_inv_def)
  qed
  moreover have "call_ok g whose \<delta> n (objs st' n) (last_gen st') (lk_now s) b (lk_held s b) d"
    if d: "lk_call ?s' b = Some d" for b d
  proof (cases "b = own")
    case True
    with d c R(1) post show ?thesis by (auto simp: call_ok_def request_post_def)
  next
    case False
    with d inv have "call_ok g whose \<delta> n ?cur (last_gen (lk_store s)) (lk_now s) b (lk_held s b) d"
      by (cases d) (simp add: lock_inv_def)
    moreover have "objs st' n = ?cur \<or> (\<forall>ob. objs st' n = Some ob \<longrightarrow> last_gen (lk_store s) < o_gen ob)"
      using eff by (cases e) (auto simp: lock_effect_def)
    ultimately show ?thesis using call_ok_step [OF _ mono] by blast
  qed
  ultimately show ?thesis by (simp add: lock_inv_def)
qed

lemma inv_begin:
  assumes "lock_inv objs last_gen g whose \<delta> (gcs_obj g k) s" and "op_key op = k" and "polite whose own op"
    and "near \<delta> (lk_now s) L" and "lk_call s own = None"
  shows "lock_inv objs last_gen g whose \<delta> (gcs_obj g k)
    (s\<lparr>lk_call := (lk_call s)(own \<mapsto> (op, L, lock_prog g own op)), lk_held := (lk_held s)(own := on_begin L op (lk_held s own))\<rparr>)"
    (is "lock_inv _ _ _ _ _ ?n ?s'")
proof -
  note ok = ok_lock_prog [OF assms(3,2), of g Map.empty Map.empty L]
  have L: "L \<le> lk_now s + \<delta>" using assms(4) by (simp add: near_def)
  have "\<exists>ob. objs (lk_store s) ?n = Some ob \<and> owner_of (o_meta ob) = b \<and> covers \<delta> ob u"
    if "claims ?s' b u" "fresh \<delta> (lk_now s) u" for b u
  proof -
    have "lock_until L op = None" if "lock_prog g own op = Ret (Inr True)" using ok that by (simp add: lock_until_def)
    with that(1) have "(b = own \<and> on_begin L op (lk_held s own) = Some u) \<or> claims s b u"
      by (auto simp: claims_def split: if_splits)
    then have "\<exists>v. claims s b v \<and> no_later u v" by (auto simp: claims_def dest!: on_begin_SomeD)
    then obtain v where v: "claims s b v" "no_later u v" by blast
    then have "fresh \<delta> (lk_now s) v" using that(2) by (fastforce simp: fresh_def no_later_def)
    with assms(1) v(1) obtain ob where
      "objs (lk_store s) ?n = Some ob" "owner_of (o_meta ob) = b" "covers \<delta> ob v" by (auto simp: lock_inv_def)
    with v(2) show ?thesis by (fastforce simp: covers_def no_later_def)
  qed
  moreover have "call_ok g whose \<delta> ?n (objs (lk_store s) ?n) (last_gen (lk_store s)) (lk_now s) own (on_begin L op (lk_held s own))
      (op, L, lock_prog g own op)"
  proof -
    have "no_later u u'" if "on_begin L op (lk_held s own) = Some u" "lock_until L op = Some u'" for u u'
      using that by (auto simp: on_begin_def split: if_splits)
    moreover have "knows (objs (lk_store s) ?n) (last_gen (lk_store s)) Map.empty Map.empty" by (simp add: knows_def)
    ultimately show ?thesis using L ok by (auto simp: call_ok_def on_begin_def)
  qed
  ultimately show ?thesis using assms(1) by (auto simp: lock_inv_def)
qed

lemma inv_clock:
  assumes inv: "lock_inv objs last_gen g whose \<delta> n s" and call: "lk_call s own = Some (op, L, Clock c)" and "near \<delta> (lk_now s) t"
  shows "lock_inv objs last_gen g whose \<delta> n (s\<lparr>lk_call := (lk_call s)(own \<mapsto> (op, L, c t))\<rparr>)"
proof -
  from inv call have "call_ok g whose \<delta> n (objs (lk_store s) n) (last_gen (lk_store s)) (lk_now s) own
      (lk_held s own) (op, L, Clock c)" by (simp add: lock_inv_def)
  then obtain KN KB R where c: "R \<le> lk_now s + \<delta>" "knows (objs (lk_store s) n) (last_gen (lk_store s)) KN KB"
      "ok_prog g whose own n op (c t) KN KB (max R t)"
    and rest: "L \<le> lk_now s + \<delta>" "is_delete op \<longrightarrow> lk_held s own = None"
      "\<And>u u'. lk_held s own = Some u \<Longrightarrow> lock_until L op = Some u' \<Longrightarrow> no_later u u'"
    by (auto simp: call_ok_def)
  have "max R t \<le> lk_now s + \<delta>" using c(1) assms(3) by (auto simp: near_def)
  with c(2,3) rest have "call_ok g whose \<delta> n (objs (lk_store s) n) (last_gen (lk_store s)) (lk_now s) own (lk_held s own) (op, L, c t)"
    by (auto simp: call_ok_def)
  moreover have "lock_until L op = None" if "c t = Ret (Inr True)" using c(3) that by (simp add: lock_until_def)
  ultimately show ?thesis using inv by (auto simp: lock_inv_def claims_def)
qed

lemma reach_lock_inv:
  assumes "lock_reach serve g whose \<delta> k s0 t0 s" and "srv_ok s0" and "honest whose (objs s0 (gcs_obj g k))" and "0 \<le> \<delta>"
  shows "srv_ok (lk_store s) \<and> lock_inv objs last_gen g whose \<delta> (gcs_obj g k) s"
  using assms
proof (induction rule: lock_reach.induct)
  case start
  then show ?case by (simp add: lock_inv_def claims_def)
next
  case (tick s t)
  moreover have "fresh \<delta> (lk_now s) u" if "fresh \<delta> t u" for u using that tick.hyps(2) by (auto simp: fresh_def)
  ultimately show ?case using call_ok_later [OF _ order_refl tick.hyps(2)] by (auto simp: lock_inv_def claims_def)
next
  case (begin_call s own op L)
  then show ?case using inv_begin by simp
next
  case (clock s own op L c t)
  then show ?case using inv_clock by simp
next
  case (request s own op L q c a st')
  with inv_request srv_ok_serve show ?case by fastforce
next
  case (return s own op L r)
  then show ?case
    by (auto simp: lock_inv_def claims_def on_return_def split: sum.splits if_splits)
next
  case (crash s own)
  then show ?case by (auto simp: lock_inv_def claims_def)
next
  case (elsewhere s q a st')
  moreover have le: "last_gen (lk_store s) \<le> last_gen st'" and "srv_ok st'" using srv_ok_serve elsewhere by blast+
  moreover have "objs st' (gcs_obj g k) = objs (lk_store s) (gcs_obj g k)" using other_object elsewhere by blast
  ultimately show ?case using call_ok_later [OF _ le order_refl] by (auto simp: lock_inv_def claims_def)
qed

lemma holder_is_owner:
  assumes "lock_reach serve g whose \<delta> k s0 t0 s" and "srv_ok s0" and "honest whose (objs s0 (gcs_obj g k))" and "0 \<le> \<delta>"
    and "holds_lock \<delta> a s"
  shows "\<exists>ob. objs (lk_store s) (gcs_obj g k) = Some ob \<and> owner_of (o_meta ob) = a
    \<and> (\<forall>t. near \<delta> (lk_now s) t \<longrightarrow> es_live (gobj_entry ob) t)"
proof -
  from assms(5) obtain u where u: "lk_held s a = Some u" "\<And>d. u = Some d \<Longrightarrow> lk_now s + 2 * \<delta> < d"
    by (fastforce simp: holds_lock_def near_def)
  then have "claims s a u" "fresh \<delta> (lk_now s) u" by (auto simp: claims_def fresh_def)
  with reach_lock_inv [OF assms(1-4)] obtain ob where ob: "objs (lk_store s) (gcs_obj g k) = Some ob"
    "owner_of (o_meta ob) = a" "covers \<delta> ob u" by (auto simp: lock_inv_def)
  then have "es_live (gobj_entry ob) t" if "near \<delta> (lk_now s) t" for t
    using that u(2) by (fastforce simp: covers_def es_live_def near_def split: option.splits)
  with ob show ?thesis by blast
qed

end

section \<open>Properties\<close>

text \<open>
  C4: mutual exclusion on Cloud Storage. However the requests of claims, renewals, swaps and
  releases of any number of replicas interleave, with failed requests, crashes and clocks that
  are off by up to \<open>\<delta>\<close>, two replicas never hold the lease at the same time, as long as each
  stops \<open>3 \<delta>\<close> before the deadline it asked for and swaps and deletes only values of its own. The
  object in the bucket then names the holder, and nobody's clock reads it as expired.
\<close>

theorem gcs_mutual_exclusion:
  assumes "gcs_service serve objs last_gen srv_ok" and "srv_ok s0" and "honest whose (objs s0 (gcs_obj g k))" and "0 \<le> \<delta>"
    and "lock_reach serve g whose \<delta> k s0 t0 s" and "holds_lock \<delta> a s"
  shows "(holds_lock \<delta> b s \<longrightarrow> b = a)
    \<and> (\<exists>ob. objs (lk_store s) (gcs_obj g k) = Some ob \<and> owner_of (o_meta ob) = a
        \<and> (\<forall>t. near \<delta> (lk_now s) t \<longrightarrow> es_live (gobj_entry ob) t))"
  using gcs_service.holder_is_owner [OF assms(1,5,2,3,4,6)] gcs_service.holder_is_owner [OF assms(1,5,2,3,4), of b] by auto

text \<open>A replica claims a free key: three steps of its own, each at the service's second zero.\<close>

definition demo_whose :: "string \<Rightarrow> string" where
  "demo_whose v = (if v = ''10.0.0.1'' then ''vm-1'' else ''vm-2'')"

definition demo_empty :: gcs_bucket where
  "demo_empty = \<lparr>b_objs = (\<lambda>_. None), b_gen = 0\<rparr>"

definition demo_put :: kv_op where
  "demo_put = PutIfAbsent ''seed'' ''10.0.0.1'' (30 * second)"

lemma demo_put_runs:
  "\<exists>c st. lock_prog gcs_demo ''vm-1'' demo_put = Clock c
     \<and> (\<exists>q d a. c 0 = Rpc q d \<and> gcs_ref_serve 0 q demo_empty = (a, st) \<and> d a = Ret (Inr True))"
  by (simp add: demo_put_def gcs_put_if_absent_def gcs_write_def Let_def demo_empty_def)

lemma demo_put_facts:
  "op_key demo_put = ''seed''" "polite demo_whose ''vm-1'' demo_put" "on_begin 0 demo_put None = None"
  "lock_until 0 demo_put = Some (Some (30 * second))"
  by (auto simp: demo_put_def demo_whose_def on_begin_def lock_until_def gcs_expiry_def wrap64_def)

lemma demo_lock_reach:
  "\<exists>s. lock_reach gcs_ref_serve gcs_demo demo_whose second ''seed'' demo_empty 0 s \<and> holds_lock second ''vm-1'' s"
proof -
  let ?r = "lock_reach gcs_ref_serve gcs_demo demo_whose second ''seed'' demo_empty 0"
  from demo_put_runs obtain c st q d a where p: "lock_prog gcs_demo ''vm-1'' demo_put = Clock c" "c 0 = Rpc q d"
    "gcs_ref_serve 0 q demo_empty = (a, st)" "d a = Ret (Inr True)" by blast
  have "?r \<lparr>lk_store = demo_empty, lk_now = 0, lk_call = (\<lambda>_. None), lk_held = (\<lambda>_. None)\<rparr>" by (rule lock_reach.start)
  from lock_reach.begin_call [OF this, of "''vm-1''" demo_put 0]
  have "?r \<lparr>lk_store = demo_empty, lk_now = 0, lk_call = [''vm-1'' \<mapsto> (demo_put, 0, Clock c)], lk_held = (\<lambda>_. None)\<rparr>"
    by (simp add: demo_put_facts near_def p fun_upd_def)
  from lock_reach.clock [OF this, of "''vm-1''" demo_put 0 c 0]
  have "?r \<lparr>lk_store = demo_empty, lk_now = 0, lk_call = [''vm-1'' \<mapsto> (demo_put, 0, Rpc q d)], lk_held = (\<lambda>_. None)\<rparr>"
    by (simp add: near_def p)
  from lock_reach.request [OF this, of "''vm-1''" demo_put 0 q d a st]
  have "?r \<lparr>lk_store = st, lk_now = 0, lk_call = [''vm-1'' \<mapsto> (demo_put, 0, Ret (Inr True))], lk_held = (\<lambda>_. None)\<rparr>"
    by (simp add: p)
  from lock_reach.return [OF this, of "''vm-1''" demo_put 0 "Inr True"]
  have "?r \<lparr>lk_store = st, lk_now = 0, lk_call = Map.empty(''vm-1'' := None), lk_held = [''vm-1'' \<mapsto> Some (30 * second)]\<rparr>"
    by (simp add: on_return_def demo_put_facts)
  moreover have "holds_lock second ''vm-1''
      \<lparr>lk_store = st, lk_now = 0, lk_call = Map.empty(''vm-1'' := None), lk_held = [''vm-1'' \<mapsto> Some (30 * second)]\<rparr>"
    by (auto simp: holds_lock_def near_def intro!: exI [of _ 0])
  ultimately show ?thesis by blast
qed

lemma gcs_mutual_exclusion_witness:
  "\<exists>s :: gcs_bucket lock_sys. holds_lock second ''vm-1'' s \<and> \<not> holds_lock second ''vm-2'' s
     \<and> (\<exists>ob. b_objs (lk_store s) (gcs_obj gcs_demo ''seed'') = Some ob \<and> owner_of (o_meta ob) = ''vm-1'')"
proof -
  have "gcs_ref_ok demo_empty" "honest demo_whose (b_objs demo_empty (gcs_obj gcs_demo ''seed''))"
    by (simp_all add: demo_empty_def gcs_ref_ok_def honest_def)
  moreover obtain s where "lock_reach gcs_ref_serve gcs_demo demo_whose second ''seed'' demo_empty 0 s" "holds_lock second ''vm-1'' s"
    using demo_lock_reach by blast
  ultimately have "(holds_lock second ''vm-2'' s \<longrightarrow> ''vm-2'' = ''vm-1'')
    \<and> (\<exists>ob. b_objs (lk_store s) (gcs_obj gcs_demo ''seed'') = Some ob \<and> owner_of (o_meta ob) = ''vm-1''
        \<and> (\<forall>t. near second (lk_now s) t \<longrightarrow> es_live (gobj_entry ob) t))"
    by (intro gcs_mutual_exclusion [OF gcsref.gcs_service_axioms]) auto
  with \<open>holds_lock second ''vm-1'' s\<close> show ?thesis by (intro exI [of _ s]) auto
qed

end
