(* ===== verification/Firestore_KV.thy ===== *)
theory Firestore_KV
  imports Mem_KV
begin

text \<open>
  The Firestore store of internal/provider/gcp/firestore.go. Every conditional operation is the
  body of a transaction that the client library may run several times before one run commits,
  while the answer is left in a variable the body captures; so a body is a function of that
  variable as earlier runs left it, of the clock and of what the document read returned. The
  library's \<^verbatim>\<open>RunTransaction\<close> and the service are parameters, the locale \<open>firestore\<close> says what
  the code relies on. A document is a map of typed fields with the server's update time.
  Characters of a key stand for the code points the Go loop ranges over.
\<close>

section \<open>Documents\<close>

datatype fs_value = FsStr string | FsInt int | FsTime time

type_synonym fs_fields = "string \<rightharpoonup> fs_value"
type_synonym fs_docs = "string \<times> string \<Rightarrow> (fs_fields \<times> time) option"

datatype fs_get = FsSnap fs_fields time | FsNotFound | FsGetFail go_error

datatype tx_act = TxFail go_error | TxDone | TxSet fs_fields | TxDelete

type_synonym tx_body = "bool \<Rightarrow> time \<Rightarrow> fs_get \<Rightarrow> bool \<times> tx_act"

type_synonym 's tx_runner = "time \<Rightarrow> string \<times> string \<Rightarrow> tx_body \<Rightarrow> bool \<Rightarrow> 's \<Rightarrow> (go_error option \<times> bool) \<times> 's"

type_synonym 's fs_reader = "time \<Rightarrow> string \<times> string \<Rightarrow> 's \<Rightarrow> fs_get \<times> 's"
type_synonym 's fs_deleter = "time \<Rightarrow> string \<times> string \<Rightarrow> 's \<Rightarrow> go_error option \<times> 's"

section \<open>The store\<close>

record firestoreKV =
  f_collection :: string
  f_prefix :: string
  f_owner :: string

definition doc_char :: "char \<Rightarrow> string" where
  "doc_char r = (if r = CHR ''/'' then ''%2F'' else if r = CHR ''%'' then ''%25'' else [r])"

definition docID :: "string \<Rightarrow> string" where
  "docID key = ''kv-'' @ concat (map doc_char key)"

definition fs_doc :: "firestoreKV \<Rightarrow> string \<Rightarrow> string \<times> string" where
  "fs_doc f key =
     (let key = (if f_prefix f \<noteq> [] then f_prefix f @ ''/'' @ key else key)
      in (f_collection f, docID key))"

record fsEntry =
  fe_val :: string
  fe_owner :: string
  fe_expires :: "time option"

definition fe_live :: "fsEntry \<Rightarrow> time \<Rightarrow> bool" where
  "fe_live e now = (case fe_expires e of None \<Rightarrow> True | Some x \<Rightarrow> now < x)"

text \<open>\<^verbatim>\<open>DataTo\<close>: a field of another type is an error, a missing one the zero value.\<close>

definition str_field :: "fs_fields \<Rightarrow> string \<Rightarrow> string option" where
  "str_field m k = (case m k of None \<Rightarrow> Some [] | Some (FsStr s) \<Rightarrow> Some s | _ \<Rightarrow> None)"

definition int_field :: "fs_fields \<Rightarrow> string \<Rightarrow> int option" where
  "int_field m k = (case m k of None \<Rightarrow> Some 0 | Some (FsInt i) \<Rightarrow> Some i | _ \<Rightarrow> None)"

definition fs_decode :: "fs_get \<Rightarrow> fsEntry option" where
  "fs_decode snap =
     (case snap of
        FsSnap m upd \<Rightarrow>
          (case (str_field m ''val'', str_field m ''owner'', int_field m ''ttl_ms'') of
             (Some v, Some own, Some ms) \<Rightarrow>
               Some \<lparr>fe_val = v, fe_owner = own,
                     fe_expires = (if 0 < ms then Some (upd + wrap64 (ms * millisecond)) else None)\<rparr>
           | _ \<Rightarrow> None)
      | _ \<Rightarrow> None)"

definition fs_payload :: "firestoreKV \<Rightarrow> time \<Rightarrow> string \<Rightarrow> duration \<Rightarrow> fs_fields" where
  "fs_payload f now val ttl =
     (let m = [''val'' \<mapsto> FsStr val, ''owner'' \<mapsto> FsStr (f_owner f)]
      in if 0 < ttl then m(''ttl_ms'' \<mapsto> FsInt (ttl div millisecond), ''expires_at'' \<mapsto> FsTime (now + ttl)) else m)"

definition txGet :: "fs_get \<Rightarrow> (fsEntry option) go_result" where
  "txGet r = (case r of FsGetFail e \<Rightarrow> Inl e | _ \<Rightarrow> Inr (fs_decode r))"

section \<open>The operations\<close>

text \<open>The bodies: \<open>_\<close> is the captured variable, which every body resets first.\<close>

definition fs_put_body :: "firestoreKV \<Rightarrow> string \<Rightarrow> duration \<Rightarrow> tx_body" where
  "fs_put_body f val ttl _ now r =
     (let won = False
      in case txGet r of
           Inl err \<Rightarrow> (won, TxFail err)
         | Inr found \<Rightarrow>
             (if (case found of Some e \<Rightarrow> fe_live e now | None \<Rightarrow> False) then (won, TxDone)
              else (True, TxSet (fs_payload f now val ttl))))"

definition fs_cas_body :: "firestoreKV \<Rightarrow> string \<Rightarrow> string \<Rightarrow> duration \<Rightarrow> tx_body" where
  "fs_cas_body f oldV newV ttl _ now r =
     (let swapped = False
      in case txGet r of
           Inl err \<Rightarrow> (swapped, TxFail err)
         | Inr None \<Rightarrow> (swapped, TxDone)
         | Inr (Some e) \<Rightarrow>
             (if \<not> fe_live e now \<or> fe_val e \<noteq> oldV then (swapped, TxDone)
              else (True, TxSet (fs_payload f now newV ttl))))"

definition fs_delete_body :: "string \<Rightarrow> tx_body" where
  "fs_delete_body v _ now r =
     (let deleted = False
      in case txGet r of
           Inl err \<Rightarrow> (deleted, TxFail err)
         | Inr None \<Rightarrow> (deleted, TxDone)
         | Inr (Some e) \<Rightarrow> (if fe_val e \<noteq> v then (deleted, TxDone) else (True, TxDelete)))"

definition fs_renew_body :: "firestoreKV \<Rightarrow> duration \<Rightarrow> tx_body" where
  "fs_renew_body f ttl _ now r =
     (let renewed = False
      in case txGet r of
           Inl err \<Rightarrow> (renewed, TxFail err)
         | Inr None \<Rightarrow> (renewed, TxDone)
         | Inr (Some e) \<Rightarrow>
             (if fe_expires e = None \<or> \<not> fe_live e now \<or> fe_owner e \<noteq> f_owner f then (renewed, TxDone)
              else (True, TxSet (fs_payload f now (fe_val e) ttl))))"

text \<open>Go's \<^verbatim>\<open>var won bool\<close> starts out false; the answer is what it holds when no error came back.\<close>

definition tx_answer :: "string \<Rightarrow> string \<Rightarrow> (go_error option \<times> bool) \<times> 's \<Rightarrow> bool go_result \<times> 's" where
  "tx_answer fmt key res =
     (case res of ((Some e, _), s) \<Rightarrow> (Inl (Wrapf fmt [key] e), s) | ((None, won), s) \<Rightarrow> (Inr won, s))"

definition fs_put_if_absent ::
  "'s tx_runner \<Rightarrow> firestoreKV \<Rightarrow> time \<Rightarrow> string \<Rightarrow> string \<Rightarrow> duration \<Rightarrow> 's \<Rightarrow> bool go_result \<times> 's" where
  "fs_put_if_absent txn f t key val ttl s =
     tx_answer ''kv put_if_absent %q: %w'' key (txn t (fs_doc f key) (fs_put_body f val ttl) False s)"

definition fs_compare_and_swap ::
  "'s tx_runner \<Rightarrow> firestoreKV \<Rightarrow> time \<Rightarrow> string \<Rightarrow> string \<Rightarrow> string \<Rightarrow> duration \<Rightarrow> 's \<Rightarrow> bool go_result \<times> 's" where
  "fs_compare_and_swap txn f t key oldV newV ttl s =
     tx_answer ''kv compare_and_swap %q: %w'' key (txn t (fs_doc f key) (fs_cas_body f oldV newV ttl) False s)"

definition fs_get_val ::
  "'s fs_reader \<Rightarrow> firestoreKV \<Rightarrow> time \<Rightarrow> string \<Rightarrow> 's \<Rightarrow> (string option) go_result \<times> 's" where
  "fs_get_val rd f t key s =
     (case rd t (fs_doc f key) s of
        (FsNotFound, s) \<Rightarrow> (Inr None, s)
      | (FsGetFail e, s) \<Rightarrow> (Inl (Wrapf ''kv get %q: %w'' [key] e), s)
      | (snap, s) \<Rightarrow>
          (Inr (case fs_decode snap of
                  None \<Rightarrow> None
                | Some e \<Rightarrow> (if fe_live e t then Some (fe_val e) else None)), s))"

definition fs_delete ::
  "'s tx_runner \<Rightarrow> 's fs_deleter \<Rightarrow> firestoreKV \<Rightarrow> time \<Rightarrow> string \<Rightarrow> string option \<Rightarrow> 's \<Rightarrow> bool go_result \<times> 's" where
  "fs_delete txn del f t key ifValue s =
     (case ifValue of
        None \<Rightarrow>
          (case del t (fs_doc f key) s of
             (Some e, s) \<Rightarrow> (Inl (Wrapf ''kv delete %q: %w'' [key] e), s)
           | (None, s) \<Rightarrow> (Inr True, s))
      | Some v \<Rightarrow> tx_answer ''kv delete %q: %w'' key (txn t (fs_doc f key) (fs_delete_body v) False s))"

definition fs_renew ::
  "'s tx_runner \<Rightarrow> firestoreKV \<Rightarrow> time \<Rightarrow> string \<Rightarrow> duration \<Rightarrow> 's \<Rightarrow> bool go_result \<times> 's" where
  "fs_renew txn f t key ttl s =
     (if ttl \<le> 0 then (Inl (Errorf ''kv renew %q: ttl must be positive'' [key]), s)
      else tx_answer ''kv renew %q: %w'' key (txn t (fs_doc f key) (fs_renew_body f ttl) False s))"

fun fs_op ::
  "'s tx_runner \<Rightarrow> 's fs_reader \<Rightarrow> 's fs_deleter \<Rightarrow> firestoreKV \<Rightarrow> time \<Rightarrow> kv_op \<Rightarrow> 's \<Rightarrow> kv_res \<times> 's" where
  "fs_op txn rd del f t (PutIfAbsent k v ttl) s = apfst bool_res (fs_put_if_absent txn f t k v ttl s)"
| "fs_op txn rd del f t (CompareAndSwap k old new ttl) s = apfst bool_res (fs_compare_and_swap txn f t k old new ttl s)"
| "fs_op txn rd del f t (Get k) s = apfst val_res (fs_get_val rd f t k s)"
| "fs_op txn rd del f t (Delete k ifv) s = apfst bool_res (fs_delete txn del f t k ifv s)"
| "fs_op txn rd del f t (Renew k ttl) s = apfst bool_res (fs_renew txn f t k ttl s)"

definition fs_exec ::
  "'s tx_runner \<Rightarrow> 's fs_reader \<Rightarrow> 's fs_deleter \<Rightarrow> firestoreKV \<Rightarrow> string \<Rightarrow> time \<Rightarrow> kv_op \<Rightarrow> 's \<Rightarrow> kv_res \<times> 's" where
  "fs_exec txn rd del f own t op s = fs_op txn rd del (f\<lparr>f_owner := own\<rparr>) t op s"

section \<open>The leases a collection holds\<close>

definition fs_read :: "fs_docs \<Rightarrow> string \<times> string \<Rightarrow> fs_get" where
  "fs_read D n = (case D n of None \<Rightarrow> FsNotFound | Some (m, upd) \<Rightarrow> FsSnap m upd)"

definition apply_act :: "time \<Rightarrow> string \<times> string \<Rightarrow> tx_act \<Rightarrow> fs_docs \<Rightarrow> fs_docs" where
  "apply_act t n act D = (case act of TxSet m \<Rightarrow> D(n \<mapsto> (m, t)) | TxDelete \<Rightarrow> D(n := None) | _ \<Rightarrow> D)"

definition fe_lease :: "fsEntry \<Rightarrow> lease" where
  "fe_lease e = \<lparr>l_val = fe_val e, l_owner = fe_owner e, l_exp = fe_expires e\<rparr>"

text \<open>A document that does not decode is, to every operation, as if it were absent.\<close>

definition fs_view :: "firestoreKV \<Rightarrow> fs_docs \<Rightarrow> kv_map" where
  "fs_view f D k = map_option fe_lease (fs_decode (fs_read D (fs_doc f k)))"

text \<open>
  What the code makes of a ttl: whole milliseconds from the commit, and no lease at all, a permanent
  document, for a ttl below one, which the contract does not allow.
\<close>

definition fs_expiry :: "time \<Rightarrow> duration \<Rightarrow> time option" where
  "fs_expiry t ttl =
     (let ms = ttl div millisecond in if 0 < ms then Some (t + wrap64 (ms * millisecond)) else None)"

definition fs_rule :: lease_rule where
  "fs_rule = \<lparr>live_at = (\<lambda>t l. \<not> expired t l), lapsed_at = expired, expiry_at = fs_expiry\<rparr>"

lemma fs_rule_simps [simp]:
  "live_at fs_rule t l = (\<not> expired t l)"
  "lapsed_at fs_rule t l = expired t l"
  "expiry_at fs_rule = fs_expiry"
  by (simp_all add: fs_rule_def)

lemma fe_lease_sel [simp]:
  "l_val (fe_lease e) = fe_val e" "l_owner (fe_lease e) = fe_owner e" "l_exp (fe_lease e) = fe_expires e"
  by (simp_all add: fe_lease_def)

lemma fe_live_expired: "fe_live e t = (\<not> expired t (fe_lease e))"
  by (auto simp: fe_live_def expired_def split: option.splits)

section \<open>Document ids\<close>

lemma doc_char_cases:
  "(r = CHR ''/'' \<and> doc_char r = ''%2F'') \<or> (r = CHR ''%'' \<and> doc_char r = ''%25'')
   \<or> (r \<noteq> CHR ''/'' \<and> r \<noteq> CHR ''%'' \<and> doc_char r = [r])"
  by (simp add: doc_char_def)

lemma doc_chars_inj: "concat (map doc_char a) = concat (map doc_char b) \<Longrightarrow> a = b"
proof (induction a arbitrary: b)
  case Nil
  then show ?case using doc_char_cases [of "hd b"] by (cases b) auto
next
  case (Cons x a)
  then show ?case using doc_char_cases [of x] doc_char_cases [of "hd b"] by (cases b) auto
qed

lemma docID_inj: "docID a = docID b \<longleftrightarrow> a = b"
  using doc_chars_inj [of a b] by (auto simp: docID_def)

lemma docID_no_slash: "CHR ''/'' \<notin> set (docID key)"
  by (induction key) (auto simp: docID_def doc_char_def)

lemma fs_doc_inj: "fs_doc f k = fs_doc f k' \<longleftrightarrow> k = k'"
  by (simp add: fs_doc_def Let_def docID_inj)

lemma fs_doc_owner [simp]: "fs_doc (f\<lparr>f_owner := own\<rparr>) k = fs_doc f k"
  by (simp add: fs_doc_def)

section \<open>One transaction body against the contract\<close>

lemma txGet_read: "txGet (fs_read D n) = Inr (fs_decode (fs_read D n))"
  by (simp add: txGet_def fs_read_def split: option.splits)

lemma fs_view_upd:
  "fs_view f (D(fs_doc f k := new)) = (fs_view f D)(k := map_option fe_lease (fs_decode (fs_read (\<lambda>_. new) (fs_doc f k))))"
  by (auto simp: fun_eq_iff fs_view_def fs_read_def fs_doc_inj)

lemma decode_payload:
  "fs_decode (FsSnap (fs_payload f now v ttl) upd) = Some \<lparr>fe_val = v, fe_owner = f_owner f, fe_expires = fs_expiry upd ttl\<rparr>"
  by (auto simp: fs_decode_def fs_payload_def str_field_def int_field_def fs_expiry_def Let_def)

lemma fs_view_set:
  "fs_view f (D(fs_doc f k \<mapsto> (fs_payload f' now v ttl, t)))
   = (fs_view f D)(k \<mapsto> \<lparr>l_val = v, l_owner = f_owner f', l_exp = fs_expiry t ttl\<rparr>)"
  by (simp add: fs_view_upd fs_read_def decode_payload fe_lease_def)

lemma fs_view_del: "fs_view f (D(fs_doc f k := None)) = (fs_view f D)(k := None)"
  by (simp add: fs_view_upd fs_read_def fs_decode_def)

text \<open>A run of the body on what the document holds answers and does what the contract says.\<close>

definition tx_conforms :: "firestoreKV \<Rightarrow> time \<Rightarrow> string \<Rightarrow> tx_body \<Rightarrow> kv_res \<times> kv_map \<Rightarrow> fs_docs \<Rightarrow> bool" where
  "tx_conforms f t k body spec D \<longleftrightarrow>
     (\<forall>c b act. body c t (fs_read D (fs_doc f k)) = (b, act) \<longrightarrow>
        RBool b = fst spec \<and> fs_view f (apply_act t (fs_doc f k) act D) = snd spec \<and> (\<forall>e. act \<noteq> TxFail e))"

lemmas fs_body_defs = tx_conforms_def fs_put_body_def fs_cas_body_def fs_delete_body_def fs_renew_body_def
  txGet_read apply_act_def Let_def

lemma put_body_conforms:
  "tx_conforms f t k (fs_put_body (f\<lparr>f_owner := own\<rparr>) v ttl) (kv_spec fs_rule own t (PutIfAbsent k v ttl) (fs_view f D)) D"
  by (cases "fs_decode (fs_read D (fs_doc f k))")
    (auto simp: fs_body_defs fs_view_set fe_live_expired new_lease_def fs_view_def [of f D k])

lemma cas_body_conforms:
  "tx_conforms f t k (fs_cas_body (f\<lparr>f_owner := own\<rparr>) old new ttl)
     (kv_spec fs_rule own t (CompareAndSwap k old new ttl) (fs_view f D)) D"
  by (cases "fs_decode (fs_read D (fs_doc f k))")
    (auto simp: fs_body_defs fs_view_set fe_live_expired new_lease_def fs_view_def [of f D k])

lemma delete_body_conforms:
  "tx_conforms f t k (fs_delete_body v) (kv_spec fs_rule own t (Delete k (Some v)) (fs_view f D)) D"
  by (cases "fs_decode (fs_read D (fs_doc f k))")
    (auto simp: fs_body_defs fs_view_del fs_view_def [of f D k])

lemma renew_body_conforms:
  "0 < ttl \<Longrightarrow> tx_conforms f t k (fs_renew_body (f\<lparr>f_owner := own\<rparr>) ttl) (kv_spec fs_rule own t (Renew k ttl) (fs_view f D)) D"
  by (cases "fs_decode (fs_read D (fs_doc f k))")
    (auto simp: fs_body_defs fs_view_set fe_live_expired fe_lease_def fs_view_def [of f D k])

text \<open>The outcome of an operation against the contract, where an error may hide a write.\<close>

definition fs_post :: "('s \<Rightarrow> fs_docs) \<Rightarrow> firestoreKV \<Rightarrow> bool \<Rightarrow> kv_res \<times> kv_map \<Rightarrow> 's \<Rightarrow> kv_res \<times> 's \<Rightarrow> bool" where
  "fs_post docs f up spec s out \<longleftrightarrow>
     (fst out = fst spec \<and> fs_view f (docs (snd out)) = snd spec)
     \<or> (\<not> up \<and> (\<exists>e. fst out = RErr e)
        \<and> (fs_view f (docs (snd out)) = snd spec \<or> fs_view f (docs (snd out)) = fs_view f (docs s)))"

lemma fs_get_val_got:
  "rd t (fs_doc f k) s = (a, s') \<Longrightarrow> \<forall>e. a \<noteq> FsGetFail e \<Longrightarrow>
   fs_get_val rd f t k s
   = (Inr (case fs_decode a of None \<Rightarrow> None | Some e \<Rightarrow> if fe_live e t then Some (fe_val e) else None), s')"
  by (cases a) (auto simp: fs_get_val_def fs_decode_def)

lemma fs_read_not_fail: "fs_read D n \<noteq> FsGetFail e"
  by (simp add: fs_read_def split: option.splits)

section \<open>What the code relies on in Firestore\<close>

text \<open>
  \<^verbatim>\<open>RunTransaction\<close> may run the body any number of times, each run starting from the captured
  variable as the run before left it. When it reports success, the last run saw the document
  as it then was, did not fail, and its write was applied at that moment. When it reports an
  error nothing was written, or one run's write was and the acknowledgement got lost. Reads
  are strongly consistent and deletes idempotent. \<open>docs\<close> is the content of the database.
\<close>

locale firestore =
  fixes txn :: "'s tx_runner"
    and rd :: "'s fs_reader"
    and del :: "'s fs_deleter"
    and docs :: "'s \<Rightarrow> fs_docs"
  assumes txn_commit: "txn t n body c s = ((None, c'), s') \<Longrightarrow>
      \<exists>c0 act. body c0 t (fs_read (docs s) n) = (c', act) \<and> (\<forall>e. act \<noteq> TxFail e) \<and> docs s' = apply_act t n act (docs s)"
    and txn_error: "txn t n body c s = ((Some e, c'), s') \<Longrightarrow>
      docs s' = docs s \<or> (\<exists>c0 c1 act. body c0 t (fs_read (docs s) n) = (c1, act) \<and> docs s' = apply_act t n act (docs s))"
    and rd_read: "rd t n s = (a, s') \<Longrightarrow> docs s' = docs s \<and> (a = fs_read (docs s) n \<or> (\<exists>e. a = FsGetFail e))"
    and del_delete: "del t n s = (r, s') \<Longrightarrow> docs s' = (docs s)(n := None) \<or> (r \<noteq> None \<and> docs s' = docs s)"
begin

lemma tx_step:
  assumes "tx_conforms f t k body spec (docs s)"
    and "up \<Longrightarrow> \<forall>e c' s'. txn t (fs_doc f k) body False s = ((Some e, c'), s') \<longrightarrow>
      (\<exists>c0 c1. body c0 t (fs_read (docs s) (fs_doc f k)) = (c1, TxFail e))"
  shows "fs_post docs f up spec s (apfst bool_res (tx_answer fmt k (txn t (fs_doc f k) body False s)))"
proof -
  obtain r c s' where out: "txn t (fs_doc f k) body False s = ((r, c), s')" by (metis prod.exhaust)
  show ?thesis
  proof (cases r)
    case None
    with txn_commit [of t "fs_doc f k" body False s c s'] out assms(1) show ?thesis
      by (auto simp: fs_post_def tx_answer_def tx_conforms_def)
  next
    case (Some e)
    have "\<not> up" using assms Some out by (auto simp: tx_conforms_def)
    with Some txn_error [of t "fs_doc f k" body False s e c s'] out assms(1) show ?thesis
      by (auto simp: fs_post_def tx_answer_def tx_conforms_def)
  qed
qed

lemma get_step:
  assumes "up \<Longrightarrow> \<forall>e. fst (rd t (fs_doc f k) s) \<noteq> FsGetFail e"
  shows "fs_post docs f up (kv_spec fs_rule own t (Get k) (fs_view f (docs s))) s (apfst val_res (fs_get_val rd f t k s))"
proof -
  obtain a s' where out: "rd t (fs_doc f k) s = (a, s')" by (metis prod.exhaust)
  have same: "docs s' = docs s" and a: "a = fs_read (docs s) (fs_doc f k) \<or> (\<exists>e. a = FsGetFail e)"
    using rd_read [OF out] by auto
  show ?thesis
  proof (cases "\<exists>e. a = FsGetFail e")
    case True
    with assms out have "\<not> up" by auto
    with True out same show ?thesis by (auto simp: fs_post_def fs_get_val_def)
  next
    case False
    with a have "a = fs_read (docs s) (fs_doc f k)" by simp
    with fs_get_val_got [of rd t f k s, OF out] False same show ?thesis
      by (auto simp: fs_post_def fs_view_def [of f "docs s" k] fe_live_expired split: option.splits)
  qed
qed

lemma delete_all_step:
  assumes "up \<Longrightarrow> fst (del t (fs_doc f k) s) = None"
  shows "fs_post docs f up (kv_spec fs_rule own t (Delete k None) (fs_view f (docs s))) s
    (apfst bool_res (fs_delete txn del (f\<lparr>f_owner := own\<rparr>) t k None s))"
proof -
  obtain r s' where out: "del t (fs_doc f k) s = (r, s')" by (metis prod.exhaust)
  from del_delete [OF out] out assms show ?thesis
    by (cases r) (auto simp: fs_post_def fs_delete_def fs_view_del)
qed

lemma exec_step:
  assumes "up \<Longrightarrow> \<forall>t n body c e c' s'. txn t n body c s = ((Some e, c'), s') \<longrightarrow>
      (\<exists>c0 c1. body c0 t (fs_read (docs s) n) = (c1, TxFail e))"
    and "up \<Longrightarrow> \<forall>t n e. fst (rd t n s) \<noteq> FsGetFail e" and "up \<Longrightarrow> \<forall>t n. fst (del t n s) = None"
  shows "fs_post docs f up (kv_spec fs_rule own t op (fs_view f (docs s))) s (fs_exec txn rd del f own t op s)"
proof (cases op)
  case (PutIfAbsent k v ttl)
  show ?thesis
    unfolding PutIfAbsent fs_exec_def fs_op.simps fs_put_if_absent_def fs_doc_owner
    by (rule tx_step [OF put_body_conforms]) (use assms(1) in blast)
next
  case (CompareAndSwap k old new ttl)
  show ?thesis
    unfolding CompareAndSwap fs_exec_def fs_op.simps fs_compare_and_swap_def fs_doc_owner
    by (rule tx_step [OF cas_body_conforms]) (use assms(1) in blast)
next
  case (Get k)
  have "fs_get_val rd (f\<lparr>f_owner := own\<rparr>) t k s = fs_get_val rd f t k s" by (simp add: fs_get_val_def)
  moreover have "up \<Longrightarrow> \<forall>e. fst (rd t (fs_doc f k) s) \<noteq> FsGetFail e" using assms(2) by blast
  then have "fs_post docs f up (kv_spec fs_rule own t (Get k) (fs_view f (docs s))) s (apfst val_res (fs_get_val rd f t k s))"
    by (rule get_step)
  ultimately show ?thesis by (simp only: Get fs_exec_def fs_op.simps)
next
  case (Delete k ifv)
  show ?thesis
  proof (cases ifv)
    case None
    with delete_all_step [of up t f k s own] assms(3) show ?thesis
      by (simp only: Delete fs_exec_def fs_op.simps)
  next
    case (Some v)
    show ?thesis
      unfolding Delete Some fs_exec_def fs_op.simps fs_delete_def fs_doc_owner option.case
      by (rule tx_step [OF delete_body_conforms]) (use assms(1) in blast)
  qed
next
  case (Renew k ttl)
  show ?thesis
  proof (cases "ttl \<le> 0")
    case True
    then show ?thesis by (simp add: Renew fs_exec_def fs_renew_def fs_post_def renew_error_def)
  next
    case False
    then have "fs_exec txn rd del f own t op s = apfst bool_res (tx_answer ''kv renew %q: %w'' k
        (txn t (fs_doc f k) (fs_renew_body (f\<lparr>f_owner := own\<rparr>) ttl) False s))"
      by (simp add: Renew fs_exec_def fs_renew_def)
    with tx_step [OF renew_body_conforms [of ttl f t k own]] False assms(1) show ?thesis
      by (simp only: Renew not_le) blast
  qed
qed

end

section \<open>The contract\<close>

locale firestore_store = firestore txn rd del docs
  for txn :: "'s tx_runner" and rd :: "'s fs_reader" and del :: "'s fs_deleter" and docs :: "'s \<Rightarrow> fs_docs" +
  fixes f :: firestoreKV
begin

sublocale leases: kv_contract "fs_exec txn rd del f" "\<lambda>s. fs_view f (docs s)" fs_rule "\<lambda>_. True"
  using exec_step [of False] by unfold_locales (auto simp: fs_post_def)

lemma store_contract: "kv_contract (fs_exec txn rd del f) (\<lambda>s. fs_view f (docs s)) fs_rule (\<lambda>_. True)"
  by unfold_locales

end

text \<open>A Firestore that always answers: a transaction fails only when its body asks for it.\<close>

locale firestore_up = firestore_store txn rd del docs f
  for txn :: "'s tx_runner" and rd :: "'s fs_reader" and del :: "'s fs_deleter" and docs :: "'s \<Rightarrow> fs_docs"
    and f :: firestoreKV +
  assumes txn_up: "txn t n body c s = ((Some e, c'), s') \<Longrightarrow>
      \<exists>c0 c1. body c0 t (fs_read (docs s) n) = (c1, TxFail e)"
    and rd_up: "fst (rd t n s) \<noteq> FsGetFail e"
    and del_up: "fst (del t n s) = None"
begin

sublocale up: kv_reliable "fs_exec txn rd del f" "\<lambda>s. fs_view f (docs s)" fs_rule "\<lambda>_. True"
  using exec_step [of True] txn_up rd_up del_up by unfold_locales (auto simp: fs_post_def)

lemma store_reliable: "kv_reliable (fs_exec txn rd del f) (\<lambda>s. fs_view f (docs s)) fs_rule (\<lambda>_. True)"
  by unfold_locales

end

section \<open>A reference service\<close>

text \<open>
  The database as a map, with a transaction runner that loses the first run to contention:
  the body runs twice, the second time on the variable the first run left behind.
\<close>

definition fs_ref_txn :: "fs_docs tx_runner" where
  "fs_ref_txn t n body c D =
     (let (c1, _) = body c t (fs_read D n); (c2, act) = body c1 t (fs_read D n)
      in case act of TxFail e \<Rightarrow> ((Some e, c2), D) | _ \<Rightarrow> ((None, c2), apply_act t n act D))"

definition fs_ref_rd :: "fs_docs fs_reader" where
  "fs_ref_rd t n D = (fs_read D n, D)"

definition fs_ref_del :: "fs_docs fs_deleter" where
  "fs_ref_del t n D = (None, D(n := None))"

interpretation fsref: firestore_up fs_ref_txn fs_ref_rd fs_ref_del "\<lambda>D. D" f for f
proof unfold_locales
  fix t n body c s c' s'
  assume "fs_ref_txn t n body c s = ((None, c'), s')"
  then show "\<exists>c0 act. body c0 t (fs_read s n) = (c', act) \<and> (\<forall>e. act \<noteq> TxFail e) \<and> s' = apply_act t n act s"
    by (auto simp: fs_ref_txn_def Let_def split: prod.splits tx_act.splits)
next
  fix t n body c s e c' s'
  assume "fs_ref_txn t n body c s = ((Some e, c'), s')"
  then show "s' = s \<or> (\<exists>c0 c1 act. body c0 t (fs_read s n) = (c1, act) \<and> s' = apply_act t n act s)"
    by (auto simp: fs_ref_txn_def Let_def split: prod.splits tx_act.splits)
next
  fix t n body c s e c' s'
  assume "fs_ref_txn t n body c s = ((Some e, c'), s')"
  then show "\<exists>c0 c1. body c0 t (fs_read s n) = (c1, TxFail e)"
    by (auto simp: fs_ref_txn_def Let_def split: prod.splits tx_act.splits)
qed (auto simp: fs_ref_rd_def fs_ref_del_def fs_read_not_fail)

section \<open>Properties\<close>

lemma fs_spec_lasting: "lasting op \<Longrightarrow> kv_spec fs_rule own t op m = kv_spec ms_rule own t op m"
  by (rule lasting_spec)
    (auto simp: fs_rule_def ms_rule_def fs_expiry_def Let_def lasting_ms div_nonpos_pos_le0 not_le)

text \<open>
  C9: over any Firestore whose transactions are serialisable, an operation of the Firestore
  store answers what the KVStore contract says and leaves exactly the leases it says, however
  often the client library had to run a transaction's body before it committed, provided the ttl
  it is given is not a positive one below a millisecond: the store keeps whole milliseconds, so
  the deadline lies less than a millisecond before the one asked for, and a positive ttl below one
  millisecond, which it would store as a permanent key, is excluded here. If the call fails the
  store reports an error and the write was applied as a whole or not at all.
\<close>

theorem firestore_refines_contract:
  assumes "firestore_store txn rd del docs" and "lasting op"
    and "fs_exec txn rd del f own t op s = (r, s')"
    and "kv_spec ms_rule own t op (fs_view f (docs s)) = (spec, m')"
  shows "((r = spec \<and> fs_view f (docs s') = m')
      \<or> ((\<exists>e. r = RErr e) \<and> (fs_view f (docs s') = m' \<or> fs_view f (docs s') = fs_view f (docs s))))
    \<and> (0 < ttl \<longrightarrow> (\<exists>e. expiry_at ms_rule t ttl = Some e \<and> t + ttl - millisecond < e \<and> e \<le> t + ttl))"
  using kv_contract.exec_refines [OF firestore_store.store_contract [OF assms(1), of f] TrueI, of own t op s]
    fs_spec_lasting [OF assms(2), of own t "fs_view f (docs s)"] assms(3,4) ms_deadline [of ttl t]
  by simp

definition fs_demo :: firestoreKV where
  "fs_demo = \<lparr>f_collection = ''leases'', f_prefix = ''tikv-pd'', f_owner = ''vm-1''\<rparr>"

lemma firestore_refines_contract_witness:
  "(\<exists>e. fst (fs_exec fs_ref_txn fs_ref_rd fs_ref_del fs_demo ''a'' 0 (PutIfAbsent ''seed'' ''10.0.0.1'' 0) (\<lambda>_. None)) = RErr e)
   \<or> fst (fs_exec fs_ref_txn fs_ref_rd fs_ref_del fs_demo ''a'' 0 (PutIfAbsent ''seed'' ''10.0.0.1'' 0) (\<lambda>_. None)) = RBool True"
proof -
  have "fs_view fs_demo (\<lambda>_. None) ''seed'' = None" by (simp add: fs_view_def fs_read_def fs_decode_def)
  then show ?thesis
    using firestore_refines_contract [OF fsref.firestore_store_axioms _ prod.collapse [symmetric] prod.collapse [symmetric],
        of "PutIfAbsent ''seed'' ''10.0.0.1'' 0" fs_demo "''a''" 0 "\<lambda>_. None" 1]
    by (auto simp: lasting_def lasting_ttl_def)
qed

text \<open>A positive ttl below a millisecond leaves a permanent key here too.\<close>

lemma firestore_submillisecond_is_permanent:
  assumes "0 < ttl" and "ttl < millisecond"
  shows "expiry_at fs_rule t ttl = None"
  using assms by (simp add: fs_expiry_def)

text \<open>
  Seed election over a Firestore that answers. When owners race to put a free key with
  leases that outlast the race, exactly one put-if-absent answers true and its value and owner
  are what the database holds at the end, although a loser's body may have decided to win in
  a run that did not commit.
\<close>

theorem firestore_seed_election:
  assumes "firestore_up txn rd del docs" and "seed_race fs_rule k evs"
    and "case fs_view f (docs s) k of None \<Rightarrow> True | Some l \<Rightarrow> list_all (\<lambda>(own, t, op). lapsed_at fs_rule t l) evs"
    and "list_ex (\<lambda>(own, t, op). case op of PutIfAbsent k' _ _ \<Rightarrow> k' = k | _ \<Rightarrow> False) evs"
  shows "\<exists>own v. kv_winners k evs (fst (kv_run (fs_exec txn rd del f) evs s)) = [(own, v)]
    \<and> (\<exists>l. fs_view f (docs (snd (kv_run (fs_exec txn rd del f) evs s))) k = Some l \<and> l_val l = v \<and> l_owner l = own)"
proof (rule kv_reliable.race_exactly_one_winner [OF firestore_up.store_reliable [OF assms(1)] TrueI assms(2)])
  show "case fs_view f (docs s) k of None \<Rightarrow> True | Some l \<Rightarrow> \<forall>(own, t, op) \<in> set evs. lapsed_at fs_rule t l"
    using assms(3) by (auto simp: list_all_iff split: option.splits)
  show "\<exists>own t v ttl. (own, t, PutIfAbsent k v ttl) \<in> set evs"
    using assms(4) by (fastforce simp: list_ex_iff split: kv_op.splits)
qed

definition fs_demo_race :: "kv_event list" where
  "fs_demo_race =
     [(''b'', 1, PutIfAbsent ''seed'' ''10.0.0.2'' second), (''c'', 2, PutIfAbsent ''seed'' ''10.0.0.3'' second)]"

lemma firestore_seed_election_witness:
  "\<exists>own v. kv_winners ''seed'' fs_demo_race
       (fst (kv_run (fs_exec fs_ref_txn fs_ref_rd fs_ref_del fs_demo) fs_demo_race (\<lambda>_. None))) = [(own, v)]
    \<and> (\<exists>l. fs_view fs_demo (snd (kv_run (fs_exec fs_ref_txn fs_ref_rd fs_ref_del fs_demo) fs_demo_race (\<lambda>_. None))) ''seed''
           = Some l \<and> l_val l = v \<and> l_owner l = own)"
  by (rule firestore_seed_election [OF fsref.firestore_up_axioms])
    (simp_all add: fs_demo_race_def seed_race_def race_event_def outlasts_def expired_def new_lease_def fs_expiry_def
      wrap64_def fs_view_def fs_read_def fs_decode_def)

text \<open>
  Document ids. Different keys never share a document, and every id is one Firestore
  accepts: not empty, without a slash, and not one of the reserved ids, which are a dot, two
  dots and anything that begins with two underscores.
\<close>

theorem document_ids:
  "(docID a = docID b \<longleftrightarrow> a = b)
   \<and> docID a \<noteq> [] \<and> CHR ''/'' \<notin> set (docID a) \<and> docID a \<noteq> ''.'' \<and> docID a \<noteq> ''..'' \<and> take 2 (docID a) \<noteq> ''__''"
  using docID_inj [of a b] docID_no_slash [of a] by (auto simp: docID_def)

end
