(* ===== verification/Conformance.thy ===== *)
theory Conformance
  imports Dynamo_KV GCS_KV Firestore_KV
begin

text \<open>
  The conformance suite every store must pass (internal/provider/kvtest/conformance.go), as data:
  a test is a sequence of operations by some owner at some time, each with the check the Go test
  makes of its answer. The suite's waits become the instants of the calls: \<open>T0\<close> when a test sets
  up, \<open>T1\<close> while a lease taken then still runs, \<open>Tttl\<close> after sleeping one ttl, \<open>T2\<close> after
  sleeping two and \<open>T3\<close> just after that.
  The suite follows from the contract alone, so one proof serves all backends. The race of
  twelve owners is a matter of interleaving and is proved for the stores themselves.
\<close>

section \<open>Tests\<close>

type_synonym kv_test = "(kv_event \<times> (kv_res \<Rightarrow> bool)) list"

record instants =
  T0 :: time
  T1 :: time
  Tttl :: time
  T2 :: time
  T3 :: time

definition passes :: "(string \<Rightarrow> time \<Rightarrow> kv_op \<Rightarrow> 'st \<Rightarrow> kv_res \<times> 'st) \<Rightarrow> kv_test \<Rightarrow> 'st \<Rightarrow> bool" where
  "passes ex tst st = list_all2 (\<lambda>(ev, check) r. check r) tst (fst (kv_run ex (map fst tst) st))"

definition test_keys :: "kv_test \<Rightarrow> string list" where
  "test_keys tst = map (\<lambda>((own, t, op), check). op_key op) tst"

definition won :: "kv_res \<Rightarrow> bool" where
  "won r = (r = RBool True)"

definition refused :: "kv_res \<Rightarrow> bool" where
  "refused r = (r = RBool False)"

definition not_won :: "kv_res \<Rightarrow> bool" where
  "not_won r = (r \<noteq> RBool True)"

definition value_is :: "string \<Rightarrow> kv_res \<Rightarrow> bool" where
  "value_is v r = (r = RVal (Some v))"

definition missing :: "kv_res \<Rightarrow> bool" where
  "missing r = (r = RVal None)"

definition present :: "kv_res \<Rightarrow> bool" where
  "present r = (case r of RVal (Some _) \<Rightarrow> True | _ \<Rightarrow> False)"

definition not_present :: "kv_res \<Rightarrow> bool" where
  "not_present r = (\<not> present r)"

definition errors :: "kv_res \<Rightarrow> bool" where
  "errors r = (case r of RErr _ \<Rightarrow> True | _ \<Rightarrow> False)"

definition owner :: string where
  "owner = ''owner''"

definition minute :: duration where
  "minute = 60 * second"

lemma minute_pos [simp]: "0 < minute" "\<not> minute \<le> 0"
  by (simp_all add: minute_def)

definition mustPut :: "string \<Rightarrow> time \<Rightarrow> string \<Rightarrow> string \<Rightarrow> duration \<Rightarrow> kv_event \<times> (kv_res \<Rightarrow> bool)" where
  "mustPut own t key val ttl = ((own, t, PutIfAbsent key val ttl), won)"

definition testPutIfAbsent :: "instants \<Rightarrow> string \<Rightarrow> kv_test" where
  "testPutIfAbsent c key =
     [mustPut owner (T0 c) key ''v1'' 0,
      ((owner, T1 c, PutIfAbsent key ''v2'' 0), refused),
      ((owner, T1 c, Get key), value_is ''v1'')]"

definition testPutIfAbsentOnPermanentKey :: "instants \<Rightarrow> string \<Rightarrow> kv_test" where
  "testPutIfAbsentOnPermanentKey c key =
     [mustPut owner (T0 c) key ''permanent'' 0,
      ((owner, Tttl c, PutIfAbsent key ''usurper'' 0), refused)]"

definition testPutIfAbsentAfterLeaseExpires :: "instants \<Rightarrow> duration \<Rightarrow> string \<Rightarrow> kv_test" where
  "testPutIfAbsentAfterLeaseExpires c ttl key =
     [mustPut owner (T0 c) key ''held'' ttl,
      ((owner, T1 c, PutIfAbsent key ''too-early'' ttl), not_won),
      ((owner, T2 c, PutIfAbsent key ''claimed'' ttl), won),
      ((owner, T3 c, Get key), value_is ''claimed'')]"

definition testCompareAndSwap :: "instants \<Rightarrow> string \<Rightarrow> kv_test" where
  "testCompareAndSwap c key =
     [mustPut owner (T0 c) key ''a'' 0,
      ((owner, T1 c, CompareAndSwap key ''wrong'' ''b'' 0), refused),
      ((owner, T1 c, CompareAndSwap key ''a'' ''b'' 0), won),
      ((owner, T1 c, Get key), value_is ''b''),
      ((owner, T1 c, CompareAndSwap (''missing-'' @ key) ''a'' ''b'' 0), not_won)]"

definition testCompareAndSwapOnExpiredLease :: "instants \<Rightarrow> duration \<Rightarrow> string \<Rightarrow> kv_test" where
  "testCompareAndSwapOnExpiredLease c ttl key =
     [mustPut owner (T0 c) key ''a'' ttl,
      ((owner, T2 c, CompareAndSwap key ''a'' ''b'' 0), refused)]"

definition testGetHidesExpiredLease :: "instants \<Rightarrow> duration \<Rightarrow> string \<Rightarrow> kv_test" where
  "testGetHidesExpiredLease c ttl key =
     [mustPut owner (T0 c) key ''x'' ttl,
      ((owner, T1 c, Get key), present),
      ((owner, T2 c, Get key), missing),
      ((owner, T2 c, Get (''never-written-'' @ key)), missing)]"

definition testConditionalDelete :: "instants \<Rightarrow> string \<Rightarrow> kv_test" where
  "testConditionalDelete c key =
     [mustPut owner (T0 c) key ''a'' 0,
      ((owner, T1 c, Delete key (Some ''b'')), refused),
      ((owner, T1 c, Delete key (Some ''a'')), won),
      ((owner, T1 c, Get key), not_present)]"

definition testConditionalDeleteIgnoresExpiry :: "instants \<Rightarrow> duration \<Rightarrow> string \<Rightarrow> kv_test" where
  "testConditionalDeleteIgnoresExpiry c ttl key =
     [mustPut owner (T0 c) key ''mine'' ttl,
      ((owner, T2 c, Delete key (Some ''mine'')), won)]"

definition testUnconditionalDeleteIsIdempotent :: "instants \<Rightarrow> string \<Rightarrow> kv_test" where
  "testUnconditionalDeleteIsIdempotent c key =
     [((owner, T0 c, Delete key None), won),
      mustPut owner (T0 c) key ''v'' 0,
      ((owner, T1 c, Delete key None), won),
      ((owner, T1 c, Delete key None), won)]"

definition testRenewRequiresOwnership :: "instants \<Rightarrow> duration \<Rightarrow> string \<Rightarrow> kv_test" where
  "testRenewRequiresOwnership c ttl key =
     [mustPut ''owner-a'' (T0 c) key ''held'' ttl,
      ((''owner-a'', T1 c, Renew key minute), won),
      ((''owner-b'', T1 c, Renew key minute), refused),
      ((''owner-a'', T1 c, Renew (''absent-'' @ key) minute), refused)]"

definition testRenewOnPermanentKey :: "instants \<Rightarrow> string \<Rightarrow> kv_test" where
  "testRenewOnPermanentKey c key =
     [mustPut owner (T0 c) key ''permanent'' 0,
      ((owner, T1 c, Renew key minute), refused)]"

definition testRenewRejectsNonPositiveTTL :: "instants \<Rightarrow> duration \<Rightarrow> string \<Rightarrow> kv_test" where
  "testRenewRejectsNonPositiveTTL c ttl key =
     [mustPut owner (T0 c) key ''held'' ttl,
      ((owner, T1 c, Renew key 0), errors),
      ((owner, T1 c, Renew key (- second)), errors)]"

definition conformance_suite :: "instants \<Rightarrow> duration \<Rightarrow> string \<Rightarrow> kv_test list" where
  "conformance_suite c ttl prefix =
     [testPutIfAbsent c (prefix @ ''/PutIfAbsent''),
      testPutIfAbsentOnPermanentKey c (prefix @ ''/PutIfAbsentOnPermanentKey''),
      testPutIfAbsentAfterLeaseExpires c ttl (prefix @ ''/PutIfAbsentAfterLeaseExpires''),
      testCompareAndSwap c (prefix @ ''/CompareAndSwap''),
      testCompareAndSwapOnExpiredLease c ttl (prefix @ ''/CompareAndSwapOnExpiredLease''),
      testGetHidesExpiredLease c ttl (prefix @ ''/GetHidesExpiredLease''),
      testConditionalDelete c (prefix @ ''/ConditionalDelete''),
      testConditionalDeleteIgnoresExpiry c ttl (prefix @ ''/ConditionalDeleteIgnoresExpiry''),
      testUnconditionalDeleteIsIdempotent c (prefix @ ''/UnconditionalDeleteIsIdempotent''),
      testRenewRequiresOwnership c ttl (prefix @ ''/RenewRequiresOwnership''),
      testRenewOnPermanentKey c (prefix @ ''/RenewOnPermanentKey''),
      testRenewRejectsNonPositiveTTL c ttl (prefix @ ''/RenewRejectsNonPositiveTTL'')]"

text \<open>The suite for one backend; a lease time that is not positive means the default.\<close>

record suite_config =
  cf_keyPrefix :: string
  cf_leaseTTL :: duration

definition defaultLeaseTTL :: duration where
  "defaultLeaseTTL = 300 * millisecond"

definition suite_ttl :: "suite_config \<Rightarrow> duration" where
  "suite_ttl cfg = (if cf_leaseTTL cfg \<le> 0 then defaultLeaseTTL else cf_leaseTTL cfg)"

definition run_suite :: "instants \<Rightarrow> suite_config \<Rightarrow> kv_test list" where
  "run_suite c cfg = conformance_suite c (suite_ttl cfg) (cf_keyPrefix cfg)"

lemmas test_defs =
  testPutIfAbsent_def testPutIfAbsentOnPermanentKey_def testPutIfAbsentAfterLeaseExpires_def
  testCompareAndSwap_def testCompareAndSwapOnExpiredLease_def testGetHidesExpiredLease_def
  testConditionalDelete_def testConditionalDeleteIgnoresExpiry_def testUnconditionalDeleteIsIdempotent_def
  testRenewRequiresOwnership_def testRenewOnPermanentKey_def testRenewRejectsNonPositiveTTL_def

section \<open>What the suite asks of a backend's clock\<close>

text \<open>
  A ttl of zero is permanent; a lease of the suite's length taken at \<open>T0\<close> still runs at \<open>T1\<close> and has
  lapsed by \<open>T2\<close>, and one taken at \<open>T2\<close> still runs at \<open>T3\<close>.
\<close>

definition lease_ends :: "lease_rule \<Rightarrow> instants \<Rightarrow> time option \<Rightarrow> time option \<Rightarrow> bool" where
  "lease_ends ru c e0 e2 \<longleftrightarrow>
     (\<forall>v own. live_at ru (T1 c) \<lparr>l_val = v, l_owner = own, l_exp = e0\<rparr>
            \<and> lapsed_at ru (T2 c) \<lparr>l_val = v, l_owner = own, l_exp = e0\<rparr>
            \<and> live_at ru (T3 c) \<lparr>l_val = v, l_owner = own, l_exp = e2\<rparr>)"

definition suite_clock :: "lease_rule \<Rightarrow> instants \<Rightarrow> duration \<Rightarrow> bool" where
  "suite_clock ru c ttl \<longleftrightarrow>
     (\<forall>t. expiry_at ru t 0 = None) \<and> lease_ends ru c (expiry_at ru (T0 c) ttl) (expiry_at ru (T2 c) ttl)"

context kv_reliable
begin

lemma run_exact: "invar st \<Longrightarrow> fst (kv_run exec evs st) = fst (kv_run (kv_spec ru) evs (view st))"
proof (induction evs arbitrary: st)
  case Nil
  then show ?case by simp
next
  case (Cons ev evs)
  obtain own t op where ev: "ev = (own, t, op)" by (cases ev)
  have "invar (snd (exec own t op st))" using Cons.prems by (rule exec_invar)
  with Cons.IH exec_exact [OF Cons.prems, of own t op] ev show ?case by (simp add: split_beta Let_def)
qed

lemma passes_spec: "invar st \<Longrightarrow> passes exec tst st = passes (kv_spec ru) tst (view st)"
  by (simp add: passes_def run_exact)

lemma never_lapsed [simp]: "l_exp l = None \<Longrightarrow> \<not> lapsed_at ru t l"
  using lapsed_not_live permanent_live by blast

lemma suite_passes:
  assumes clock: "suite_clock ru c ttl" and tst: "tst \<in> set (conformance_suite c ttl prefix)"
    and fresh: "list_all (\<lambda>k. view st k = None) (test_keys tst)" and inv: "invar st"
  shows "passes exec tst st"
proof -
  have z: "\<And>t. expiry_at ru t 0 = None" using clock by (simp add: suite_clock_def)
  have live: "\<And>v own. live_at ru (T1 c) \<lparr>l_val = v, l_owner = own, l_exp = expiry_at ru (T0 c) ttl\<rparr>"
    and lapsed: "\<And>v own. lapsed_at ru (T2 c) \<lparr>l_val = v, l_owner = own, l_exp = expiry_at ru (T0 c) ttl\<rparr>"
    and again: "\<And>v own. live_at ru (T3 c) \<lparr>l_val = v, l_owner = own, l_exp = expiry_at ru (T2 c) ttl\<rparr>"
    using clock by (simp_all add: suite_clock_def lease_ends_def)
  have not_lapsed: "\<And>v own. \<not> lapsed_at ru (T1 c) \<lparr>l_val = v, l_owner = own, l_exp = expiry_at ru (T0 c) ttl\<rparr>"
    using live lapsed_not_live by blast
  have gone: "\<And>v own. \<not> live_at ru (T2 c) \<lparr>l_val = v, l_owner = own, l_exp = expiry_at ru (T0 c) ttl\<rparr>"
    using lapsed lapsed_not_live by blast
  have leased: "expiry_at ru (T0 c) ttl \<noteq> None"
  proof
    assume "expiry_at ru (T0 c) ttl = None"
    with lapsed [of "[]" "[]"] show False by simp
  qed
  note clock_facts = z live lapsed again not_lapsed gone leased permanent_live
  note check_defs = passes_def mustPut_def new_lease_def test_keys_def
    won_def refused_def not_won_def value_is_def present_def missing_def not_present_def errors_def owner_def
  have "list_all (\<lambda>tst. list_all (\<lambda>k. view st k = None) (test_keys tst) \<longrightarrow> passes (kv_spec ru) tst (view st))
          (conformance_suite c ttl prefix)"
    unfolding conformance_suite_def by (simp add: test_defs check_defs clock_facts)
  then show ?thesis using tst fresh passes_spec [OF inv] by (simp add: list_all_iff)
qed

end

section \<open>The suite's instants on each backend\<close>

text \<open>
  \<open>suite_instants gran c ttl\<close>: the suite's lease is at least two ticks of the backend's clock and
  the asserts after a put come at least two ticks before its lease ends. DynamoDB ticks in
  seconds, the Google stores in milliseconds, the in-process store in nanoseconds.
\<close>

definition suite_instants :: "duration \<Rightarrow> instants \<Rightarrow> duration \<Rightarrow> bool" where
  "suite_instants gran c ttl \<longleftrightarrow>
     2 * gran \<le> ttl \<and> ttl < 2 ^ 63 \<and> T1 c + 2 * gran \<le> T0 c + ttl \<and> T0 c + 2 * ttl \<le> T2 c \<and> T3 c + 2 * gran \<le> T2 c + ttl"

lemma second_before: "t' + 2 * second \<le> t + d \<Longrightarrow> t' div second < t div second + d div second"
  by linarith

lemma second_after: "2 * second \<le> d \<Longrightarrow> t + 2 * d \<le> t' \<Longrightarrow> t div second + d div second < t' div second"
  by linarith

lemma suite_clock_mem: "suite_instants 1 c ttl \<Longrightarrow> suite_clock mem_rule c ttl"
  by (auto simp: suite_instants_def suite_clock_def lease_ends_def expired_def expiryAt_def)

lemma suite_clock_dynamo: "suite_instants second c ttl \<Longrightarrow> suite_clock ddb_rule c ttl"
  using second_before [of "T1 c" "T0 c" ttl] second_before [of "T3 c" "T2 c" ttl] second_after [of ttl "T0 c" "T2 c"]
  by (auto simp: suite_instants_def suite_clock_def lease_ends_def now_unix_def)

lemma ms_floor: "2 * millisecond \<le> ttl \<Longrightarrow> 0 < ttl div millisecond
    \<and> ttl - millisecond < ttl div millisecond * millisecond \<and> ttl div millisecond * millisecond \<le> ttl"
  by linarith

lemma suite_clock_gcs: "suite_instants millisecond c ttl \<Longrightarrow> suite_clock gcs_rule c ttl"
  using ms_floor [of ttl]
  by (auto simp: suite_instants_def suite_clock_def lease_ends_def expired_def gcs_expiry_def wrap64_id Let_def)

lemma suite_clock_firestore: "suite_instants millisecond c ttl \<Longrightarrow> suite_clock fs_rule c ttl"
  using ms_floor [of ttl]
  by (auto simp: suite_instants_def suite_clock_def lease_ends_def expired_def fs_expiry_def wrap64_id Let_def)

text \<open>
  The default lease suits every store but DynamoDB, whose clock ticks in seconds: no choice of
  instants gives the suite room there.
\<close>

lemma default_lease:
  assumes "cf_leaseTTL cfg \<le> 0"
  shows "suite_instants millisecond \<lparr>T0 = 0, T1 = 0, Tttl = 300 * millisecond, T2 = 600 * millisecond, T3 = 600 * millisecond\<rparr> (suite_ttl cfg)
    \<and> \<not> suite_instants second c (suite_ttl cfg)"
  using assms by (simp add: suite_instants_def suite_ttl_def defaultLeaseTTL_def)

section \<open>The property\<close>

text \<open>Every test of the suite passes from a state in which the keys that test uses are absent.\<close>

definition suite_holds ::
  "(string \<Rightarrow> time \<Rightarrow> kv_op \<Rightarrow> 'st \<Rightarrow> kv_res \<times> 'st) \<Rightarrow> ('st \<Rightarrow> kv_map) \<Rightarrow> kv_test list \<Rightarrow> 'st \<Rightarrow> bool" where
  "suite_holds ex view suite st =
     list_all (\<lambda>tst. list_all (\<lambda>k. view st k = None) (test_keys tst) \<longrightarrow> passes ex tst st) suite"

lemma reliable_suite:
  assumes "kv_reliable ex view ru invar" and "suite_clock ru c ttl" and "invar st"
  shows "suite_holds ex view (conformance_suite c ttl prefix) st"
  using kv_reliable.suite_passes [OF assms(1,2) _ _ assms(3)] by (auto simp: suite_holds_def list_all_iff)

text \<open>
  C12: the four stores pass the conformance suite. With a lease that is long enough for a
  backend's clock, every sequential test of the suite makes only the observations it asks for,
  on the in-process store and over any DynamoDB, Cloud Storage and Firestore that answer,
  whatever else the store holds.
\<close>

theorem conformance_suite_passes:
  assumes "dynamodb_up serve rows holds" and "ddb_wf rows d db"
    and "gcs_up bucket objs last_gen srv_ok" and "srv_ok b"
    and "firestore_up txn rd del docs"
  shows "(suite_instants 1 c (suite_ttl cfg) \<longrightarrow> suite_holds mem_exec mem_view (run_suite c cfg) m)
    \<and> (suite_instants second c (suite_ttl cfg) \<longrightarrow>
         suite_holds (ddb_exec serve d) (ddb_view rows d) (run_suite c cfg) db)
    \<and> (suite_instants millisecond c (suite_ttl cfg) \<longrightarrow>
         suite_holds (gcs_exec bucket g) (gcs_view objs g) (run_suite c cfg) b
         \<and> suite_holds (fs_exec txn rd del f) (\<lambda>s. fs_view f (docs s)) (run_suite c cfg) s)"
  unfolding run_suite_def
  using reliable_suite [OF mem.kv_reliable_axioms suite_clock_mem TrueI]
    reliable_suite [OF dynamodb_up.store_reliable [OF assms(1)] suite_clock_dynamo assms(2)]
    reliable_suite [OF gcs_up.store_reliable [OF assms(3)] suite_clock_gcs assms(4)]
    reliable_suite [OF firestore_up.store_reliable [OF assms(5)] suite_clock_firestore TrueI]
  by blast

text \<open>The lease of the suite's runs against a real DynamoDB is three seconds.\<close>

definition e2e_instants :: instants where
  "e2e_instants = \<lparr>T0 = 0, T1 = second, Tttl = 3 * second, T2 = 6 * second, T3 = 7 * second\<rparr>"

definition e2e_config :: suite_config where
  "e2e_config = \<lparr>cf_keyPrefix = ''conf'', cf_leaseTTL = 3 * second\<rparr>"

lemma conformance_suite_passes_witness:
  "suite_holds mem_exec mem_view (run_suite e2e_instants e2e_config) (mem_new ''owner'')
   \<and> suite_holds (ddb_exec ddb_ref_serve ddb_demo) (ddb_view (\<lambda>db. db) ddb_demo)
       (run_suite e2e_instants e2e_config) ddb_demo_db
   \<and> suite_holds (gcs_exec gcs_ref_serve gcs_demo) (gcs_view b_objs gcs_demo)
       (run_suite e2e_instants e2e_config) gcs_demo_bucket
   \<and> suite_holds (fs_exec fs_ref_txn fs_ref_rd fs_ref_del fs_demo) (fs_view fs_demo)
       (run_suite e2e_instants e2e_config) (\<lambda>_. None)"
proof -
  have "suite_instants 1 e2e_instants (suite_ttl e2e_config)" "suite_instants second e2e_instants (suite_ttl e2e_config)"
    "suite_instants millisecond e2e_instants (suite_ttl e2e_config)"
    by (simp_all add: suite_instants_def e2e_instants_def e2e_config_def suite_ttl_def)
  then show ?thesis
    using conformance_suite_passes [OF ddbref.dynamodb_up_axioms ddb_demo_facts(1) gcsref.gcs_up_axioms gcs_demo_ok
        fsref.firestore_up_axioms] by blast
qed

end
