(* ===== verification/Provisioning.thy ===== *)
theory Provisioning
  imports Dynamo_KV GCS_KV
begin

text \<open>
  What -kv-create asks of a store: \<^verbatim>\<open>Provision\<close> of internal/provider/aws/kv.go (a table with a
  time-to-live attribute) and of internal/provider/gcp/kv.go (a bucket). Each is a program of
  administrative requests, so that several replicas starting at once can be interleaved; the
  service answering them is a parameter with the laws of the locale \<open>store_admin\<close>. The theory
  \<open>Janitor\<close> says what the lifecycle rule of the bucket does to the keys in it.
\<close>

section \<open>Programs\<close>

text \<open>What the table and the bucket are created with; an attribute is its name and its type.\<close>

record table_schema =
  ts_billing :: string
  ts_attributes :: "(string \<times> string) list"
  ts_key :: "(string \<times> string) list"

record lifecycle_rule =
  lr_action :: string
  lr_ageInDays :: nat
  lr_matchesPrefix :: "string list"

record bucket_attrs =
  ba_location :: string
  ba_storageClass :: string
  ba_uniformAccess :: bool
  ba_softDelete :: duration
  ba_lifecycle :: "lifecycle_rule list"

definition kv_table_schema :: table_schema where
  "kv_table_schema =
     \<lparr>ts_billing = ''PAY_PER_REQUEST'', ts_attributes = [(''pk'', ''S'')], ts_key = [(''pk'', ''HASH'')]\<rparr>"

definition janitor_rule :: lifecycle_rule where
  "janitor_rule = \<lparr>lr_action = ''Delete'', lr_ageInDays = 1, lr_matchesPrefix = [leasePrefix @ ''/'']\<rparr>"

definition kv_bucket_attrs :: "string \<Rightarrow> bucket_attrs" where
  "kv_bucket_attrs location =
     \<lparr>ba_location = location, ba_storageClass = ''STANDARD'', ba_uniformAccess = True, ba_softDelete = 0,
      ba_lifecycle = [janitor_rule]\<rparr>"

datatype adm_req =
    DescribeStore
  | CreateTable table_schema
  | CreateBucket string bucket_attrs
  | AwaitStore
  | EnableTTL string

fun is_create :: "adm_req \<Rightarrow> bool" where
  "is_create (CreateTable _) = True"
| "is_create (CreateBucket _ _) = True"
| "is_create _ = False"

datatype adm_resp = AdmOk | AdmNotFound | AdmFail go_error

datatype prov_prog = ProvDone "go_error option" | ProvAsk adm_req "adm_resp \<Rightarrow> prov_prog"

fun adm_err :: "adm_resp \<Rightarrow> go_error option" where
  "adm_err AdmOk = None"
| "adm_err AdmNotFound = Some (External ''not found'')"
| "adm_err (AdmFail e) = Some e"

definition prov_check :: "string \<Rightarrow> adm_req \<Rightarrow> prov_prog \<Rightarrow> prov_prog" where
  "prov_check what q next_step =
     ProvAsk q (\<lambda>a. case adm_err a of Some e \<Rightarrow> ProvDone (Some (Wrapf what [] e)) | None \<Rightarrow> next_step)"

definition ddb_provision :: prov_prog where
  "ddb_provision =
     ProvAsk DescribeStore (\<lambda>a. case a of
         AdmOk \<Rightarrow> ProvDone None
       | AdmFail e \<Rightarrow> ProvDone (Some (Wrapf ''describe kv table: %w'' [] e))
       | AdmNotFound \<Rightarrow>
           prov_check ''create kv table: %w'' (CreateTable kv_table_schema)
             (prov_check ''waiting for kv table: %w'' AwaitStore
               (prov_check ''enable kv table ttl: %w'' (EnableTTL ''expires_at'') (ProvDone None))))"

definition gcs_provision :: "string \<Rightarrow> string \<Rightarrow> prov_prog" where
  "gcs_provision project location =
     (if project = [] then ProvDone (Some (Errorf ''-kv-create needs a project; pass -provider-opt project=<id>'' []))
      else ProvAsk DescribeStore (\<lambda>a. case a of
          AdmOk \<Rightarrow> ProvDone None
        | AdmFail e \<Rightarrow> ProvDone (Some (Wrapf ''describe kv bucket: %w'' [] e))
        | AdmNotFound \<Rightarrow> prov_check ''create kv bucket: %w'' (CreateBucket project (kv_bucket_attrs location)) (ProvDone None)))"

section \<open>Running and interleaving\<close>

primrec prov_run :: "(adm_req \<Rightarrow> 's \<Rightarrow> adm_resp \<times> 's) \<Rightarrow> prov_prog \<Rightarrow> 's \<Rightarrow> go_error option \<times> 's" where
  "prov_run serve (ProvDone r) = (\<lambda>s. (r, s))"
| "prov_run serve (ProvAsk q k) = (\<lambda>s. case serve q s of (a, s') \<Rightarrow> prov_run serve (k a) s')"

definition prov_turn ::
  "(adm_req \<Rightarrow> 's \<Rightarrow> adm_resp \<times> 's) \<Rightarrow> nat \<Rightarrow> prov_prog list \<times> 's \<Rightarrow> prov_prog list \<times> 's" where
  "prov_turn serve i c =
     (case c of (ps, s) \<Rightarrow>
        if i < length ps
        then (case ps ! i of
                ProvDone r \<Rightarrow> (ps, s)
              | ProvAsk q k \<Rightarrow> (case serve q s of (a, s') \<Rightarrow> (ps[i := k a], s')))
        else (ps, s))"

definition prov_sched :: "(adm_req \<Rightarrow> 's \<Rightarrow> adm_resp \<times> 's) \<Rightarrow> nat list \<Rightarrow> prov_prog list \<times> 's \<Rightarrow> prov_prog list \<times> 's" where
  "prov_sched serve is c = fold (prov_turn serve) is c"

lemma adm_err_None [simp]: "adm_err a = None \<longleftrightarrow> a = AdmOk"
  by (cases a) auto

section \<open>What the code relies on\<close>

text \<open>
  A description tells whether the store exists; creating one that exists is refused, and one
  that does not exist either comes into being or the call fails; waiting succeeds only once it
  exists; nothing here deletes a store. Any call may fail.
\<close>

locale store_admin =
  fixes serve :: "adm_req \<Rightarrow> 's \<Rightarrow> adm_resp \<times> 's"
    and there :: "'s \<Rightarrow> bool"
    and ttl_on :: "'s \<Rightarrow> bool"
  assumes describe: "serve DescribeStore s = (a, s') \<Longrightarrow>
      there s' = there s \<and> ttl_on s' = ttl_on s \<and> (a = AdmOk \<longrightarrow> there s) \<and> (a = AdmNotFound \<longrightarrow> \<not> there s)"
    and create: "is_create q \<Longrightarrow> serve q s = (a, s') \<Longrightarrow>
      (there s \<longrightarrow> there s' \<and> adm_err a \<noteq> None) \<and> (a = AdmOk \<longrightarrow> there s')"
    and await_store: "serve AwaitStore s = (a, s') \<Longrightarrow> there s' = there s \<and> (a = AdmOk \<longrightarrow> there s)"
    and enable_ttl: "serve (EnableTTL attr) s = (a, s') \<Longrightarrow> there s' = there s \<and> (a = AdmOk \<longrightarrow> ttl_on s')"
begin

lemma ddb_provision_establishes:
  assumes "prov_run serve ddb_provision s = (None, s')"
  shows "there s' \<and> (if there s then ttl_on s' = ttl_on s else ttl_on s')"
  using assms describe create await_store enable_ttl
  by (auto simp: ddb_provision_def prov_check_def split: prod.splits adm_resp.splits option.splits)

lemma gcs_provision_establishes:
  "prov_run serve (gcs_provision project location) s = (None, s') \<Longrightarrow> there s'"
  using describe create [of "CreateBucket project (kv_bucket_attrs location)"]
  by (auto simp: gcs_provision_def prov_check_def split: prod.splits adm_resp.splits option.splits if_splits)

end

text \<open>A service that answers every description and creates every store that is not there.\<close>

locale store_admin_up = store_admin serve there ttl_on
  for serve :: "adm_req \<Rightarrow> 's \<Rightarrow> adm_resp \<times> 's" and there :: "'s \<Rightarrow> bool" and ttl_on :: "'s \<Rightarrow> bool" +
  assumes describe_up: "fst (serve DescribeStore s) = (if there s then AdmOk else AdmNotFound)"
    and create_up: "is_create q \<Longrightarrow> \<not> there s \<Longrightarrow> fst (serve q s) = AdmOk"
begin

lemma race_second_refused:
  assumes "\<not> there s" and "p0 = ProvAsk DescribeStore k" and "k AdmNotFound = prov_check what q rest" and q: "is_create q"
  shows "\<exists>p e s'. prov_sched serve [0, 1, 0, 1] ([p0, p0], s) = ([p, ProvDone (Some (Wrapf what [] e))], s') \<and> there s'"
proof -
  obtain a1 s1 where o1: "serve DescribeStore s = (a1, s1)" by (cases "serve DescribeStore s")
  obtain a2 s2 where o2: "serve DescribeStore s1 = (a2, s2)" by (cases "serve DescribeStore s1")
  obtain a3 s3 where o3: "serve q s2 = (a3, s3)" by (cases "serve q s2")
  obtain a4 s4 where o4: "serve q s3 = (a4, s4)" by (cases "serve q s3")
  have n: "\<not> there s1" "\<not> there s2" using describe [OF o1] describe [OF o2] assms(1) by auto
  have a: "a1 = AdmNotFound" "a2 = AdmNotFound" "a3 = AdmOk"
    using describe_up [of s] describe_up [of s1] create_up [OF q n(2)] n assms(1) o1 o2 o3 by auto
  have t: "there s3" using create [OF q o3] a by simp
  obtain e where e: "adm_err a4 = Some e" and t4: "there s4" using create [OF q o4] t by (cases a4) auto
  have "prov_sched serve [0, 1, 0, 1] ([p0, p0], s) = ([rest, ProvDone (Some (Wrapf what [] e))], s4)"
    using o1 o2 o3 o4 a e assms(2,3) by (simp add: prov_sched_def prov_turn_def prov_check_def)
  with t4 show ?thesis by blast
qed

end

section \<open>A reference service\<close>

fun adm_ref :: "adm_req \<Rightarrow> bool \<times> bool \<Rightarrow> adm_resp \<times> bool \<times> bool" where
  "adm_ref DescribeStore (ex, ttl) = ((if ex then AdmOk else AdmNotFound), ex, ttl)"
| "adm_ref (CreateTable _) (ex, ttl) = (if ex then (AdmFail (External ''already exists''), ex, ttl) else (AdmOk, True, False))"
| "adm_ref (CreateBucket _ _) (ex, ttl) = (if ex then (AdmFail (External ''already exists''), ex, ttl) else (AdmOk, True, False))"
| "adm_ref AwaitStore (ex, ttl) = ((if ex then AdmOk else AdmFail DeadlineExceeded), ex, ttl)"
| "adm_ref (EnableTTL _) (ex, ttl) = (if ex then (AdmOk, ex, True) else (AdmNotFound, ex, ttl))"

interpretation admref: store_admin_up adm_ref fst snd
  by unfold_locales (auto split: if_splits elim!: is_create.elims)

section \<open>Properties\<close>

text \<open>
  Provisioning establishes the store. When Provision of either backend reports success the
  store exists, and a table that did not exist before has its time-to-live enabled; a table
  that was there already keeps the setting it had, even if that is none.
\<close>

theorem provision_establishes:
  assumes "store_admin serve there ttl_on"
  shows "(prov_run serve ddb_provision s = (None, s') \<longrightarrow> there s' \<and> (if there s then ttl_on s' = ttl_on s else ttl_on s'))
    \<and> (prov_run serve (gcs_provision project location) s = (None, t') \<longrightarrow> there t')"
  using store_admin.ddb_provision_establishes [OF assms] store_admin.gcs_provision_establishes [OF assms] by blast

lemma provision_establishes_witness: "prov_run adm_ref ddb_provision (False, False) = (None, True, True) \<and> fst (True, True)"
proof -
  have run: "prov_run adm_ref ddb_provision (False, False) = (None, (True, True))"
    by (simp add: ddb_provision_def prov_check_def)
  with provision_establishes [OF admref.store_admin_axioms, of "(False, False)" "(True, True)"] show ?thesis by simp
qed

text \<open>
  C37: provisioning races. When two replicas start with -kv-create and neither finds the store
  yet, the one whose create comes second reports an error although the store then exists, on
  DynamoDB and on Cloud Storage alike.
\<close>

theorem provision_race:
  assumes "store_admin_up serve there ttl_on" and "\<not> there s" and "project \<noteq> []"
  shows "(\<exists>p e s'. prov_sched serve [0, 1, 0, 1] ([ddb_provision, ddb_provision], s)
        = ([p, ProvDone (Some (Wrapf ''create kv table: %w'' [] e))], s') \<and> there s')
    \<and> (\<exists>p e s'. prov_sched serve [0, 1, 0, 1] ([gcs_provision project location, gcs_provision project location], s)
        = ([p, ProvDone (Some (Wrapf ''create kv bucket: %w'' [] e))], s') \<and> there s')"
proof -
  note race = store_admin_up.race_second_refused [OF assms(1,2)]
  show ?thesis
    using race [OF ddb_provision_def, of "''create kv table: %w''"]
      race [OF _, of "gcs_provision project location" _ "''create kv bucket: %w''"] assms(3)
    by (simp add: gcs_provision_def)
qed

lemma provision_race_witness:
  "\<exists>p e s'. prov_sched adm_ref [0, 1, 0, 1] ([ddb_provision, ddb_provision], (False, False))
     = ([p, ProvDone (Some (Wrapf ''create kv table: %w'' [] e))], s') \<and> fst s'"
  using provision_race [OF admref.store_admin_up_axioms, of "(False, False)" "''p''"] by simp

end
