(* ===== verification/Janitor.thy ===== *)
theory Janitor
  imports Provisioning
begin

text \<open>
  The deletions a store's service makes by itself: DynamoDB's time-to-live on the attribute that
  \<^verbatim>\<open>Provision\<close> of internal/provider/aws/kv.go names, and the lifecycle rule of the bucket that
  \<^verbatim>\<open>Provision\<close> of internal/provider/gcp/kv.go creates. Both are meant to remove only what no operation
  can tell from an absent key. That holds for DynamoDB; for the bucket it holds for leases of at
  most a day, and fails for permanent keys.
\<close>

section \<open>Runs with deletions in between\<close>

text \<open>What a deletion at \<open>t\<close> may do: take away entries that have lapsed by then.\<close>

definition reaped :: "lease_rule \<Rightarrow> time \<Rightarrow> kv_map \<Rightarrow> kv_map \<Rightarrow> bool" where
  "reaped ru t m m' \<longleftrightarrow> (\<forall>k. m' k = m k \<or> (m' k = None \<and> (\<exists>l. m k = Some l \<and> lapsed_at ru t l)))"

text \<open>An event is a call or a moment at which the service deletes.\<close>

fun reaped_run ::
  "(string \<Rightarrow> time \<Rightarrow> kv_op \<Rightarrow> 'st \<Rightarrow> kv_res \<times> 'st) \<Rightarrow> (time \<Rightarrow> 'st \<Rightarrow> 'st) \<Rightarrow> (kv_event + time) list \<Rightarrow> 'st \<Rightarrow> kv_res list" where
  "reaped_run ex reap [] st = []"
| "reaped_run ex reap (Inl (own, t, op) # evs) st = (case ex own t op st of (r, st') \<Rightarrow> r # reaped_run ex reap evs st')"
| "reaped_run ex reap (Inr t # evs) st = reaped_run ex reap evs (reap t st)"

fun calls_of :: "(kv_event + time) list \<Rightarrow> kv_event list" where
  "calls_of [] = []"
| "calls_of (Inl ev # evs) = ev # calls_of evs"
| "calls_of (Inr t # evs) = calls_of evs"

fun event_time :: "kv_event + time \<Rightarrow> time" where
  "event_time (Inl (own, t, op)) = t"
| "event_time (Inr t) = t"

definition conditional_delete :: "kv_op \<Rightarrow> bool" where
  "conditional_delete op = (case op of Delete k ifv \<Rightarrow> ifv \<noteq> None | _ \<Rightarrow> False)"

text \<open>Calls in the order of their times, each one that \<open>good\<close> allows.\<close>

definition timeline :: "(kv_op \<Rightarrow> bool) \<Rightarrow> (kv_event + time) list \<Rightarrow> bool" where
  "timeline good evs \<longleftrightarrow> sorted (map event_time evs) \<and> (\<forall>own t op. (own, t, op) \<in> set (calls_of evs) \<longrightarrow> good op)"

lemma timeline_Cons:
  "timeline good (ev # evs) \<longleftrightarrow> (\<forall>ev' \<in> set evs. event_time ev \<le> event_time ev')
     \<and> (case ev of Inl (own, t, op) \<Rightarrow> good op | Inr t \<Rightarrow> True) \<and> timeline good evs"
  by (cases ev) (auto simp: timeline_def)

locale reaped_store = kv_reliable exec view ru invar
  for exec :: "string \<Rightarrow> time \<Rightarrow> kv_op \<Rightarrow> 'st \<Rightarrow> kv_res \<times> 'st"
    and view :: "'st \<Rightarrow> kv_map"
    and ru :: lease_rule
    and invar :: "'st \<Rightarrow> bool" +
  fixes reap :: "time \<Rightarrow> 'st \<Rightarrow> 'st"
    and good :: "kv_op \<Rightarrow> bool"
    and safe :: "'st \<Rightarrow> bool"
  assumes good_op: "good op \<Longrightarrow> \<not> conditional_delete op"
    and safe_exec: "invar st \<Longrightarrow> safe st \<Longrightarrow> good op \<Longrightarrow> safe (snd (exec own t op st))"
    and reap_ok: "invar st \<Longrightarrow> safe st \<Longrightarrow>
      invar (reap t st) \<and> safe (reap t st) \<and> reaped ru t (view st) (view (reap t st))"
    and lapsed_stays: "t \<le> t' \<Longrightarrow> lapsed_at ru t l \<Longrightarrow> lapsed_at ru t' l"
begin

lemma reaped_later: "reaped ru t m m' \<Longrightarrow> t \<le> t' \<Longrightarrow> reaped ru t' m m'"
  unfolding reaped_def using lapsed_stays by blast

lemma reaped_trans: "reaped ru t a b \<Longrightarrow> reaped ru t b c \<Longrightarrow> reaped ru t a c"
  unfolding reaped_def by metis

text \<open>No call but a conditional delete can tell what was reaped.\<close>

lemma spec_blind:
  assumes r: "reaped ru t m m'" and "\<not> conditional_delete op"
  shows "fst (kv_spec ru own t op m') = fst (kv_spec ru own t op m)
    \<and> reaped ru t (snd (kv_spec ru own t op m)) (snd (kv_spec ru own t op m'))"
proof -
  let ?k = "op_key op"
  let ?a = "kv_spec ru own t op m" and ?b = "kv_spec ru own t op m'"
  have here: "fst ?b = fst ?a \<and> (snd ?b ?k = snd ?a ?k \<or> (snd ?b ?k = None \<and> (\<exists>l. snd ?a ?k = Some l \<and> lapsed_at ru t l)))"
  proof (cases "m' ?k = m ?k")
    case True
    then show ?thesis by (cases op) (auto split: option.splits)
  next
    case False
    with r obtain l where l: "m' ?k = None" "m ?k = Some l" "lapsed_at ru t l" unfolding reaped_def by blast
    with lapsed_not_live have "\<not> live_at ru t l" by blast
    with l assms(2) show ?thesis by (cases op) (auto simp: conditional_delete_def)
  qed
  have "snd ?b k = snd ?a k \<or> (snd ?b k = None \<and> (\<exists>l. snd ?a k = Some l \<and> lapsed_at ru t l))" for k
  proof (cases "k = ?k")
    case True
    with here show ?thesis by simp
  next
    case False
    with r show ?thesis by (simp add: kv_spec_frame reaped_def)
  qed
  with here show ?thesis by (simp add: reaped_def)
qed

lemma reaped_answers:
  assumes "invar st" and "safe st" and "reaped ru t0 m (view st)"
    and "timeline good evs" and "\<forall>ev \<in> set evs. t0 \<le> event_time ev"
  shows "reaped_run exec reap evs st = fst (kv_run (kv_spec ru) (calls_of evs) m)"
  using assms
proof (induction evs arbitrary: st m t0)
  case (Cons ev evs)
  show ?case
  proof (cases ev)
    case (Inl call)
    obtain own t op where "call = (own, t, op)" by (cases call)
    with Inl have ev: "ev = Inl (own, t, op)" by simp
    from Cons.prems(4) ev have good: "good op" and tl: "timeline good evs" and later: "\<forall>ev \<in> set evs. t \<le> event_time ev"
      by (simp_all add: timeline_Cons)
    have r: "reaped ru t m (view st)" using reaped_later [OF Cons.prems(3)] Cons.prems(5) ev by simp
    note blind = spec_blind [OF r good_op [OF good], of own]
    note ex = exec_exact [OF Cons.prems(1), of own t op]
    have "reaped ru t (snd (kv_spec ru own t op m)) (view (snd (exec own t op st)))" using blind ex by simp
    from Cons.IH [OF exec_invar [OF Cons.prems(1)] safe_exec [OF Cons.prems(1,2) good] this tl later] blind ex
    show ?thesis by (simp add: ev split_beta Let_def)
  next
    case (Inr t)
    with Cons.prems(4) have tl: "timeline good evs" and later: "\<forall>ev \<in> set evs. t \<le> event_time ev"
      by (simp_all add: timeline_Cons)
    note rp = reap_ok [OF Cons.prems(1,2), of t]
    have "reaped ru t m (view (reap t st))"
      using reaped_trans [of t m "view st"] reaped_later [OF Cons.prems(3)] Cons.prems(5) Inr rp by simp
    from Cons.IH [OF _ _ this tl later] rp show ?thesis by (simp add: Inr)
  qed
qed simp

lemma spec_answers: "invar st \<Longrightarrow> fst (kv_run exec evs st) = fst (kv_run (kv_spec ru) evs (view st))"
proof (induction evs arbitrary: st)
  case (Cons ev evs)
  obtain own t op where ev: "ev = (own, t, op)" by (cases ev)
  from Cons.IH [OF exec_invar [OF Cons.prems]] exec_exact [OF Cons.prems, of own t op] show ?case
    by (simp add: ev split_beta Let_def)
qed simp

text \<open>The answers are those of the same calls with nothing deleted in between.\<close>

lemma reaping_invisible:
  assumes "invar st" and "safe st" and "timeline good evs"
  shows "reaped_run exec reap evs st = fst (kv_run exec (calls_of evs) st)"
proof (cases evs)
  case (Cons ev evs')
  have "reaped ru (event_time ev) (view st) (view st)" by (simp add: reaped_def)
  from reaped_answers [OF assms(1,2) this assms(3)] assms(3) Cons spec_answers [OF assms(1)] show ?thesis
    by (simp add: timeline_Cons)
qed simp

end

section \<open>DynamoDB's time-to-live\<close>

definition ttl_due :: "time \<Rightarrow> ddb_item \<Rightarrow> bool" where
  "ttl_due t i = (case i ''expires_at'' of Some (AvN n) \<Rightarrow> n < now_unix t | _ \<Rightarrow> False)"

lemma ttl_due_lapsed: "ddb_lease i = Some l \<Longrightarrow> ttl_due t i \<Longrightarrow> lapsed_at ddb_rule t l"
  using ddb_lease_SomeD(3) [of i l] by (auto simp: ttl_due_def split: option.splits)

text \<open>The service may delete any items that are due, and touches nothing else.\<close>

locale dynamodb_ttl = dynamodb_up serve rows holds d
  for serve :: "ddb_req \<Rightarrow> 'db \<Rightarrow> ddb_resp \<times> 'db"
    and rows :: "'db \<Rightarrow> string \<Rightarrow> string \<Rightarrow> ddb_item option"
    and holds :: "ddb_cond \<Rightarrow> ddb_item \<Rightarrow> bool"
    and d :: dynamo_kv +
  fixes reap :: "time \<Rightarrow> 'db \<Rightarrow> 'db"
  assumes reap_rows: "rows (reap t db) tb p = rows db tb p
    \<or> (rows (reap t db) tb p = None \<and> (\<exists>i. rows db tb p = Some i \<and> ttl_due t i))"
begin

sublocale ttl: reaped_store "ddb_exec serve d" "ddb_view rows d" ddb_rule "ddb_wf rows d" reap
  "\<lambda>op. \<not> conditional_delete op" "\<lambda>_. True"
proof unfold_locales
  fix st t
  assume wf: "ddb_wf rows d st"
  have "ddb_wf rows d (reap t st)"
    unfolding ddb_wf_def
  proof (intro allI impI)
    fix k i
    assume "rows (reap t st) (d_table d) (ddb_key d k) = Some i"
    then have "rows st (d_table d) (ddb_key d k) = Some i" using reap_rows [of t st "d_table d" "ddb_key d k"] by auto
    with wf show "i ''pk'' \<noteq> None \<and> ddb_lease i \<noteq> None" by (simp add: ddb_wf_def)
  qed
  moreover have "reaped ddb_rule t (ddb_view rows d st) (ddb_view rows d (reap t st))"
    unfolding reaped_def
  proof
    fix k
    from wf show "ddb_view rows d (reap t st) k = ddb_view rows d st k
        \<or> (ddb_view rows d (reap t st) k = None \<and> (\<exists>l. ddb_view rows d st k = Some l \<and> lapsed_at ddb_rule t l))"
      using reap_rows [of t st "d_table d" "ddb_key d k"] ttl_due_lapsed by (fastforce simp: ddb_view_def ddb_wf_def)
  qed
  ultimately show "ddb_wf rows d (reap t st) \<and> True \<and> reaped ddb_rule t (ddb_view rows d st) (ddb_view rows d (reap t st))"
    by blast
next
  fix t t' l
  assume "t \<le> t'" and "lapsed_at ddb_rule t l"
  moreover have "now_unix t \<le> now_unix t'" using \<open>t \<le> t'\<close> by (simp add: now_unix_def zdiv_mono1)
  ultimately show "lapsed_at ddb_rule t' l" by (auto split: option.splits)
qed auto

lemma ttl_answers:
  "ddb_wf rows d db \<Longrightarrow> timeline (\<lambda>op. \<not> conditional_delete op) evs \<Longrightarrow>
   reaped_run (ddb_exec serve d) reap evs db = fst (kv_run (ddb_exec serve d) (calls_of evs) db)"
  by (rule ttl.reaping_invisible) simp_all

end

definition ddb_ref_reap :: "time \<Rightarrow> ddb_tables \<Rightarrow> ddb_tables" where
  "ddb_ref_reap t db = (\<lambda>tb p. case db tb p of None \<Rightarrow> None | Some i \<Rightarrow> if ttl_due t i then None else Some i)"

interpretation ddbttl: dynamodb_ttl ddb_ref_serve "\<lambda>db. db" ddb_eval d ddb_ref_reap for d
  by unfold_locales (auto simp: ddb_ref_reap_def split: option.splits)

section \<open>The bucket's lifecycle rule\<close>

definition day :: duration where
  "day = 24 * 3600 * second"

text \<open>
  A rule is due for an object of a matching name that is old enough. The age of an object counts from
  its last write, because every write of this program makes a new generation.
\<close>

definition lifecycle_due :: "lifecycle_rule \<Rightarrow> time \<Rightarrow> string \<Rightarrow> gobj \<Rightarrow> bool" where
  "lifecycle_due r t n ob \<longleftrightarrow>
     lr_action r = ''Delete'' \<and> list_ex (\<lambda>p. take (length p) n = p) (lr_matchesPrefix r)
     \<and> o_updated ob + int (lr_ageInDays r) * day \<le> t"

definition janitor_due :: "bucket_attrs \<Rightarrow> time \<Rightarrow> string \<Rightarrow> gobj \<Rightarrow> bool" where
  "janitor_due ba t n ob = list_ex (\<lambda>r. lifecycle_due r t n ob) (ba_lifecycle ba)"

text \<open>The rule is scoped to the names of the store's own keys, and covers all of them.\<close>

lemma janitor_due_key: "janitor_due (kv_bucket_attrs location) t (gcs_obj g k) ob \<longleftrightarrow> o_updated ob + day \<le> t"
  by (simp add: janitor_due_def kv_bucket_attrs_def janitor_rule_def lifecycle_due_def gcs_obj_def Let_def)

lemma janitor_scope:
  assumes "janitor_due (kv_bucket_attrs location) t n ob"
  shows "\<exists>rest. n = ''leases/'' @ rest"
proof
  have "take 7 n = ''leases/''"
    using assms by (simp add: janitor_due_def kv_bucket_attrs_def janitor_rule_def lifecycle_due_def leasePrefix_def eval_nat_numeral)
  with append_take_drop_id [of 7 n] show "n = ''leases/'' @ drop 7 n" by simp
qed

text \<open>A lease length of at least a millisecond and at most a day, as a call asks for it and as the metadata has it.\<close>

definition short_ttl :: "duration \<Rightarrow> bool" where
  "short_ttl ttl \<longleftrightarrow> millisecond \<le> ttl \<and> ttl \<le> day"

definition short_op :: "kv_op \<Rightarrow> bool" where
  "short_op op =
     (case op of
        PutIfAbsent k v ttl \<Rightarrow> short_ttl ttl
      | CompareAndSwap k old new ttl \<Rightarrow> short_ttl ttl
      | Get k \<Rightarrow> True
      | Delete k ifv \<Rightarrow> ifv = None
      | Renew k ttl \<Rightarrow> ttl \<le> 0 \<or> short_ttl ttl)"

definition short_meta :: "gcs_meta \<Rightarrow> bool" where
  "short_meta md \<longleftrightarrow> (\<exists>ms. parse_int64 (meta_get md ''ttl_ms'') = Some ms \<and> 0 < ms \<and> ms * millisecond \<le> day)"

definition short_leases :: "('s \<Rightarrow> string \<Rightarrow> gobj option) \<Rightarrow> 's \<Rightarrow> bool" where
  "short_leases objs s \<longleftrightarrow> (\<forall>n ob. objs s n = Some ob \<longrightarrow> short_meta (o_meta ob))"

lemma short_meta_lapsed:
  assumes "short_meta (o_meta ob)" and "o_updated ob + day \<le> t"
  shows "lapsed_at gcs_rule t (es_lease (gobj_entry ob))"
  using assms by (auto simp: short_meta_def gobj_entry_def gcs_entry_def expired_def wrap64_id day_def)

lemma short_written:
  assumes "short_ttl ttl"
  shows "0 < ttl" and "short_meta [''owner'' \<mapsto> own, ''ttl_ms'' \<mapsto> format_int (ttl div millisecond), ''expires_at'' \<mapsto> x]"
proof -
  have b: "millisecond \<le> ttl" "ttl \<le> day" using assms by (simp_all add: short_ttl_def)
  then show "0 < ttl" by simp
  have ms: "0 < ttl div millisecond" "ttl div millisecond * millisecond \<le> ttl" using b by linarith+
  moreover have "ttl div millisecond < 2 ^ 63" using b by (simp add: day_def)
  ultimately have "parse_int64 (format_int (ttl div millisecond)) = Some (ttl div millisecond)"
    by (intro parse_format_int) auto
  with ms b show "short_meta [''owner'' \<mapsto> own, ''ttl_ms'' \<mapsto> format_int (ttl div millisecond), ''expires_at'' \<mapsto> x]"
    by (auto simp: short_meta_def meta_get_def)
qed

text \<open>Programs whose writes are all of short leases.\<close>

primrec short_writes :: "'r gcs_prog \<Rightarrow> bool" where
  "short_writes (Ret r) = True"
| "short_writes (Rpc q k) = ((case q of GWrite n c b md \<Rightarrow> short_meta md | _ \<Rightarrow> True) \<and> (\<forall>a. short_writes (k a)))"
| "short_writes (Clock k) = (\<forall>t. short_writes (k t))"

lemma short_writes_read: "(\<And>x. short_writes (cont x)) \<Longrightarrow> short_writes (gcs_read g k cont)"
  by (auto simp: gcs_read_def split: gcs_resp.splits)

lemma short_writes_write: "short_ttl ttl \<Longrightarrow> (\<And>x. short_writes (cont x)) \<Longrightarrow> short_writes (gcs_write g k v ttl c cont)"
  using short_written [of ttl] by (auto simp: gcs_write_def Let_def)

lemma short_writes_ops:
  "short_ttl ttl \<Longrightarrow> short_writes (gcs_put_if_absent g k v ttl)"
  "short_ttl ttl \<Longrightarrow> short_writes (gcs_compare_and_swap g k old v ttl)"
  "short_writes (gcs_get g k)"
  "short_writes (gcs_delete g k ifv)"
  "ttl \<le> 0 \<or> short_ttl ttl \<Longrightarrow> short_writes (gcs_renew g k ttl)"
  by (auto simp: gcs_put_if_absent_def gcs_compare_and_swap_def gcs_get_def gcs_delete_def gcs_renew_def short_ttl_def
      intro!: short_writes_read short_writes_write split: sum.splits option.splits gcs_resp.splits)

context gcs_service
begin

lemma short_serve:
  assumes "srv_ok s" and "short_leases objs s" and "case q of GWrite n c b md \<Rightarrow> short_meta md | _ \<Rightarrow> True"
    and "serve t q s = (a, s')"
  shows "srv_ok s' \<and> short_leases objs s'"
proof -
  have ok: "srv_ok s'" using srv_ok_serve [OF assms(1,4)] ..
  have "short_leases objs s'"
  proof (cases q)
    case (GAttrs n)
    with serve_attrs [OF assms(1)] assms(2,4) show ?thesis by (simp add: short_leases_def)
  next
    case (GRead n gen)
    with serve_read [OF assms(1)] assms(2,4) show ?thesis by (simp add: short_leases_def)
  next
    case (GWrite n c b md)
    with serve_write [OF assms(1), of t n c b md a s'] assms(2-4) show ?thesis
      by (auto simp: short_leases_def split: if_splits)
  next
    case (GDelete n oc)
    with serve_delete [OF assms(1), of t n oc a s'] assms(2,4) show ?thesis
      by (auto simp: short_leases_def Let_def split: if_splits)
  qed
  with ok show ?thesis ..
qed

lemma short_run:
  "srv_ok s \<Longrightarrow> short_leases objs s \<Longrightarrow> short_writes p \<Longrightarrow> short_leases objs (snd (gcs_run serve t p s))"
proof (induction p arbitrary: s)
  case (Rpc q k)
  obtain a s' where s': "serve t q s = (a, s')" by fastforce
  from short_serve [OF Rpc.prems(1,2) _ s'] Rpc.prems(3) have "srv_ok s' \<and> short_leases objs s'" by simp
  with Rpc.IH [of "k a" s'] Rpc.prems(3) s' show ?case by simp
qed simp_all

lemma short_exec:
  assumes "srv_ok s" and "short_leases objs s" and "short_op op"
  shows "short_leases objs (snd (gcs_exec serve g own t op s))"
  using assms by (cases op) (auto simp: gcs_exec_def short_op_def intro!: short_run short_writes_ops)

text \<open>An object that a call has just written bears the time of the call.\<close>

lemma write_stamp:
  assumes "srv_ok s" and "gcs_run serve t (gcs_write g k v ttl c cont) s = out"
    and "\<And>s' w. srv_ok s' \<Longrightarrow> gcs_run serve t (cont w) s' = out \<Longrightarrow>
      (w = Inr True \<Longrightarrow> \<exists>ob. objs s' (gcs_obj g k) = Some ob \<and> o_updated ob = t) \<Longrightarrow> thesis"
  shows thesis
proof -
  obtain a s1 where s1: "serve t (GWrite (gcs_obj g k) c v (written_meta g ttl t)) s = (a, s1)" by fastforce
  have run: "gcs_run serve t (gcs_write g k v ttl c cont) s = gcs_run serve t (cont (write_result a)) s1"
    using s1 by (cases "0 < ttl") (simp_all add: gcs_write_def written_meta_def Let_def)
  have "write_result a = Inr True \<Longrightarrow> \<exists>ob. objs s1 (gcs_obj g k) = Some ob \<and> o_updated ob = t"
    using serve_write [OF assms(1) s1] by (cases a) auto
  moreover have "srv_ok s1" using srv_ok_serve [OF assms(1) s1] ..
  ultimately show ?thesis using assms(2,3) run by auto
qed

lemma read_step:
  assumes "srv_ok s" and "gcs_run serve t (gcs_read g k cont) s = out"
    and "\<And>s' x. srv_ok s' \<Longrightarrow> gcs_run serve t (cont x) s' = out \<Longrightarrow> thesis"
  shows thesis
  by (rule run_read [where g = g and k = k and t = t and cont = cont, OF assms(1)]) (use assms(2,3) in metis)

lemma put_stamp:
  assumes "srv_ok s" and "gcs_run serve t (gcs_put_if_absent g k v ttl) s = (Inr True, s')"
  shows "\<exists>ob. objs s' (gcs_obj g k) = Some ob \<and> o_updated ob = t"
proof (rule write_stamp [OF assms(1) assms(2) [unfolded gcs_put_if_absent_def]], goal_cases)
  case (1 s1 w)
  show ?case
  proof (cases "w = Inr False")
    case False
    with 1(2,3) show ?thesis by (cases w) auto
  next
    case True
    show ?thesis
    proof (rule read_step [OF 1(1) 1(2) [unfolded True sum.case if_False]], goal_cases)
      case (1 s2 x)
      show ?case
      proof (cases "\<exists>e. x = Inr (Some e) \<and> \<not> es_live e t")
        case False
        with 1(2) show ?thesis by (auto split: sum.splits option.splits)
      next
        case True
        then obtain e where e: "x = Inr (Some e)" "\<not> es_live e t" by blast
        have "gcs_run serve t (gcs_write g k v ttl (GenerationMatch (es_gen e))
            (\<lambda>w. case w of Inl err \<Rightarrow> Ret (Inl (Wrapf ''kv put_if_absent %q: %w'' [k] err)) | Inr ok \<Rightarrow> Ret (Inr ok))) s2 = (Inr True, s')"
          using 1(2) e by simp
        then show ?thesis by (rule write_stamp [OF 1(1)]) (auto split: sum.splits)
      qed
    qed
  qed
qed

end

section \<open>The janitor over the service\<close>

locale gcs_janitor = gcs_up serve objs last_gen srv_ok g
  for serve :: "time \<Rightarrow> gcs_req \<Rightarrow> 's \<Rightarrow> gcs_resp \<times> 's"
    and objs :: "'s \<Rightarrow> string \<Rightarrow> gobj option"
    and last_gen :: "'s \<Rightarrow> int"
    and srv_ok :: "'s \<Rightarrow> bool"
    and g :: gcs_kv +
  fixes location :: string
    and reap :: "time \<Rightarrow> 's \<Rightarrow> 's"
  assumes reap_srv: "srv_ok s \<Longrightarrow> srv_ok (reap t s)"
    and reap_objs: "objs (reap t s) n = objs s n
      \<or> (objs (reap t s) n = None \<and> (\<exists>ob. objs s n = Some ob \<and> janitor_due (kv_bucket_attrs location) t n ob))"
begin

sublocale rule: reaped_store "gcs_exec serve g" "gcs_view objs g" gcs_rule srv_ok reap short_op "short_leases objs"
proof unfold_locales
  fix st t
  assume ok: "srv_ok st" and short: "short_leases objs st"
  have "short_leases objs (reap t st)" using short reap_objs [of t st] unfolding short_leases_def by (metis option.distinct(1))
  moreover have "reaped gcs_rule t (gcs_view objs g st) (gcs_view objs g (reap t st))"
    unfolding reaped_def
  proof
    fix k
    show "gcs_view objs g (reap t st) k = gcs_view objs g st k
        \<or> (gcs_view objs g (reap t st) k = None \<and> (\<exists>l. gcs_view objs g st k = Some l \<and> lapsed_at gcs_rule t l))"
      using reap_objs [of t st "gcs_obj g k"] short short_meta_lapsed
      by (fastforce simp: gcs_view_def janitor_due_key short_leases_def)
  qed
  ultimately show "srv_ok (reap t st) \<and> short_leases objs (reap t st) \<and> reaped gcs_rule t (gcs_view objs g st) (gcs_view objs g (reap t st))"
    using reap_srv [OF ok] by blast
next
  fix st own t op
  assume "srv_ok st" and "short_leases objs st" and "short_op op"
  then show "short_leases objs (snd (gcs_exec serve g own t op st))" by (rule short_exec)
qed (auto simp: short_op_def conditional_delete_def expired_def split: kv_op.splits option.splits)

lemma janitor_answers:
  "srv_ok s \<Longrightarrow> short_leases objs s \<Longrightarrow> timeline short_op evs \<Longrightarrow>
   reaped_run (gcs_exec serve g) reap evs s = fst (kv_run (gcs_exec serve g) (calls_of evs) s)"
  by (rule rule.reaping_invisible)

end

definition gcs_ref_reap :: "time \<Rightarrow> gcs_bucket \<Rightarrow> gcs_bucket" where
  "gcs_ref_reap t b =
     b\<lparr>b_objs := (\<lambda>n. case b_objs b n of None \<Rightarrow> None | Some ob \<Rightarrow> if janitor_due (kv_bucket_attrs []) t n ob then None else Some ob)\<rparr>"

interpretation gcsjan: gcs_janitor gcs_ref_serve b_objs b_gen gcs_ref_ok g "[]" gcs_ref_reap for g
  by unfold_locales (auto simp: gcs_ref_reap_def gcs_ref_ok_def split: option.splits if_splits)

section \<open>Properties\<close>

text \<open>
  C11: what the services delete is not missed by replicas that share the service's clock. Calls of
  any replicas, one after another over a service that answers, with DynamoDB deleting expired items
  at will in between, answer what they would with nothing deleted; and so do calls over a bucket
  that -kv-create made, with its lifecycle rule at work, as long as every lease is between a
  millisecond and a day long. Calls and deletions happen on one clock that never runs backwards
  (\<open>timeline\<close>): a replica whose clock lags the service's may see a lease of nearly a day live after
  the bucket has deleted it. Conditional deletes are left out: they compare the value of an expired
  entry too, and so can tell that it is gone.
\<close>

theorem reaping_is_invisible:
  assumes "dynamodb_ttl serve rows holds ttl_reap" and "ddb_wf rows d db"
    and "timeline (\<lambda>op. \<not> conditional_delete op) evs"
    and "gcs_janitor bucket objs last_gen srv_ok location reap" and "srv_ok s" and "short_leases objs s"
    and "timeline short_op gevs"
  shows "reaped_run (ddb_exec serve d) ttl_reap evs db = fst (kv_run (ddb_exec serve d) (calls_of evs) db)
    \<and> reaped_run (gcs_exec bucket g) reap gevs s = fst (kv_run (gcs_exec bucket g) (calls_of gevs) s)"
  using dynamodb_ttl.ttl_answers [OF assms(1-3)] gcs_janitor.janitor_answers [OF assms(4-7)] by blast

definition demo_timeline :: "(kv_event + time) list" where
  "demo_timeline =
     [Inl (''a'', 0, PutIfAbsent ''lock'' ''a'' (30 * second)), Inr (2 * day), Inl (''b'', 2 * day, PutIfAbsent ''lock'' ''b'' (30 * second)),
      Inl (''b'', 2 * day + second, Renew ''lock'' (60 * second)), Inr (2 * day + 2 * second), Inl (''a'', 3 * day, Get ''lock'')]"

lemma reaping_is_invisible_witness:
  "reaped_run (gcs_exec gcs_ref_serve gcs_demo) gcs_ref_reap demo_timeline \<lparr>b_objs = (\<lambda>_. None), b_gen = 0\<rparr>
     = fst (kv_run (gcs_exec gcs_ref_serve gcs_demo) (calls_of demo_timeline) \<lparr>b_objs = (\<lambda>_. None), b_gen = 0\<rparr>)
   \<and> reaped_run (ddb_exec ddb_ref_serve ddb_demo) ddb_ref_reap demo_timeline ddb_demo_db
     = fst (kv_run (ddb_exec ddb_ref_serve ddb_demo) (calls_of demo_timeline) ddb_demo_db)"
proof -
  have g: "timeline short_op demo_timeline"
    by (auto simp: timeline_def demo_timeline_def short_op_def short_ttl_def day_def)
  then have d: "timeline (\<lambda>op. \<not> conditional_delete op) demo_timeline"
    by (auto simp: timeline_def demo_timeline_def conditional_delete_def)
  have "gcs_ref_ok \<lparr>b_objs = (\<lambda>_. None), b_gen = 0\<rparr>" "short_leases b_objs \<lparr>b_objs = (\<lambda>_. None), b_gen = 0\<rparr>"
    by (simp_all add: gcs_ref_ok_def short_leases_def)
  from reaping_is_invisible [OF ddbttl.dynamodb_ttl_axioms ddb_demo_facts(1) d gcsjan.gcs_janitor_axioms this g] show ?thesis
    by blast
qed

text \<open>
  C10: the lifecycle rule deletes permanent keys. In a bucket that -kv-create made, a key that was
  put with no lease may be deleted by the service a day after it was written; until then no
  other replica can claim it, from then on the first that tries gets it.
\<close>

theorem permanent_key_is_reaped:
  assumes "gcs_up serve objs last_gen srv_ok" and "srv_ok s" and "ttl \<le> 0"
    and "gcs_exec serve g own t (PutIfAbsent k v ttl) s = (RBool True, s1)"
  shows "(\<exists>ob. objs s1 (gcs_obj g k) = Some ob \<and> (\<forall>now. janitor_due (kv_bucket_attrs location) now (gcs_obj g k) ob \<longleftrightarrow> t + day \<le> now))
    \<and> fst (gcs_exec serve g other now (PutIfAbsent k w ttl') s1) = RBool False
    \<and> (\<forall>s2. srv_ok s2 \<and> objs s2 = (objs s1)(gcs_obj g k := None) \<longrightarrow>
          fst (gcs_exec serve g other now (PutIfAbsent k w ttl') s2) = RBool True)"
proof -
  have svc: "gcs_service serve objs last_gen srv_ok"
    using assms(1) by (simp add: gcs_up_def gcs_store_def)
  have "gcs_run serve t (gcs_put_if_absent (g\<lparr>g_owner := own\<rparr>) k v ttl) s = (Inr True, s1)"
    using assms(4) by (cases "gcs_run serve t (gcs_put_if_absent (g\<lparr>g_owner := own\<rparr>) k v ttl) s")
      (auto simp: gcs_exec_def elim!: bool_res.elims)
  from gcs_service.put_stamp [OF svc assms(2) this]
  obtain ob where ob: "objs s1 (gcs_obj g k) = Some ob" "o_updated ob = t" by auto
  note ex = gcs_up.store_exact [OF assms(1,2), of g own t "PutIfAbsent k v ttl"]
  have store: "gcs_store serve objs last_gen srv_ok" using svc by (simp add: gcs_store_def)
  have ok1: "srv_ok s1"
    using kv_contract.exec_invar [OF gcs_store.store_contract [OF store] assms(2), of g own t "PutIfAbsent k v ttl"] assms(4)
    by simp
  have "gcs_view objs g s1 k = Some \<lparr>l_val = v, l_owner = own, l_exp = None\<rparr>"
    using ex assms(3,4) by (auto simp: new_lease_def gcs_expiry_def Let_def div_nonpos_pos_le0 split: if_splits)
  then have "fst (gcs_exec serve g other now (PutIfAbsent k w ttl') s1) = RBool False"
    using gcs_up.store_exact [OF assms(1) ok1, of g other now "PutIfAbsent k w ttl'"] by simp
  moreover have "fst (gcs_exec serve g other now (PutIfAbsent k w ttl') s2) = RBool True"
    if "srv_ok s2" "objs s2 = (objs s1)(gcs_obj g k := None)" for s2
    using gcs_up.store_exact [OF assms(1) that(1), of g other now "PutIfAbsent k w ttl'"] that(2) by (simp add: gcs_view_def)
  ultimately show ?thesis using ob janitor_due_key by auto
qed

definition demo_marked :: gcs_bucket where
  "demo_marked = snd (gcs_exec gcs_ref_serve gcs_demo ''a'' 0 (PutIfAbsent ''bootstrapped'' ''a'' 0) \<lparr>b_objs = (\<lambda>_. None), b_gen = 0\<rparr>)"

lemma permanent_key_is_reaped_witness:
  "fst (gcs_exec gcs_ref_serve gcs_demo ''b'' day (PutIfAbsent ''bootstrapped'' ''b'' 0) demo_marked) = RBool False
   \<and> fst (gcs_exec gcs_ref_serve gcs_demo ''b'' day (PutIfAbsent ''bootstrapped'' ''b'' 0)
        (demo_marked\<lparr>b_objs := (b_objs demo_marked)(gcs_obj gcs_demo ''bootstrapped'' := None)\<rparr>)) = RBool True"
proof -
  let ?e = "\<lparr>b_objs = (\<lambda>_. None), b_gen = 0\<rparr> :: gcs_bucket"
  have e: "gcs_ref_ok ?e" by (simp add: gcs_ref_ok_def)
  have put: "gcs_exec gcs_ref_serve gcs_demo ''a'' 0 (PutIfAbsent ''bootstrapped'' ''a'' 0) ?e = (RBool True, demo_marked)"
    by (simp add: demo_marked_def gcs_exec_def gcs_put_if_absent_def gcs_write_def Let_def)
  have "gcs_ref_ok demo_marked" unfolding demo_marked_def by (rule gcsref.leases.exec_invar [OF e])
  then have "gcs_ref_ok (demo_marked\<lparr>b_objs := (b_objs demo_marked)(gcs_obj gcs_demo ''bootstrapped'' := None)\<rparr>)"
    by (simp add: gcs_ref_ok_def)
  with permanent_key_is_reaped [OF gcsref.gcs_up_axioms e _ put, of "[]" "''b''" day "''b''" 0] show ?thesis by simp
qed

end
