(* ===== verification/Grpc_Probe.thy ===== *)
theory Grpc_Probe
  imports Go_Strings
begin

unbundle bit_operations_syntax

text \<open>
  The hand-written gRPC health check of main.go: \<^verbatim>\<open>probeGRPCService\<close> encodes a
  HealthCheckRequest and judges the reply, \<^verbatim>\<open>parseGRPCHealthStatus\<close> decodes a
  HealthCheckResponse. Bytes are 8-bit words and Go's \<^verbatim>\<open>int\<close> is an integer reduced to 64 bits
  (\<open>wrap64\<close>) where the code adds. \<^verbatim>\<open>encoding/binary\<close>'s varints are part of the model. The
  decoder's loop need not end on every input, so it is a partial function: \<open>None\<close> means that
  it never returns; \<open>Panic\<close> is Go's run-time slice-bounds failure.
\<close>

section \<open>Varints\<close>

type_synonym byte = "8 word"

lemma unat_shift7: "unat (drop_bit 7 (x :: 64 word)) = unat x div 128"
  using unat_drop_bit_eq [of 7 x] by (simp only: drop_bit_eq_div) simp

function append_uvarint :: "64 word \<Rightarrow> byte list" where
  "append_uvarint x =
     (if x < 0x80 then [ucast x] else (ucast x OR 0x80) # append_uvarint (drop_bit 7 x))"
  by pat_completeness auto

termination
proof (relation "measure unat", simp_all only: wf_measure in_measure unat_shift7)
  fix x :: "64 word"
  assume "\<not> x < 0x80"
  then have "128 \<le> unat x" by (simp add: word_less_nat_alt not_less)
  then show "unat x div 128 < unat x" by simp
qed

declare append_uvarint.simps [simp del]

text \<open>
  \<^verbatim>\<open>binary.Uvarint\<close>: the value and the number of bytes read; no bytes when the buffer ends
  early, a negative count when the value does not fit 64 bits. \<open>i\<close> is the index of the byte,
  \<open>s\<close> the shift and \<open>x\<close> the value so far.
\<close>

fun uvarint_from :: "nat \<Rightarrow> nat \<Rightarrow> 64 word \<Rightarrow> byte list \<Rightarrow> 64 word \<times> int" where
  "uvarint_from i s x [] = (0, 0)"
| "uvarint_from i s x (b # bs) =
     (if i = 10 then (0, - (int i + 1))
      else if b < 0x80
      then (if i = 9 \<and> 1 < b then (0, - (int i + 1)) else (x OR push_bit s (ucast b), int i + 1))
      else uvarint_from (i + 1) (s + 7) (x OR push_bit s (ucast (b AND 0x7f))) bs)"

definition uvarint :: "byte list \<Rightarrow> 64 word \<times> int" where
  "uvarint bs = uvarint_from 0 0 0 bs"

section \<open>The request\<close>

definition be32 :: "32 word \<Rightarrow> byte list" where
  "be32 n = [ucast (drop_bit 24 n), ucast (drop_bit 16 n), ucast (drop_bit 8 n), ucast n]"

definition of_be32 :: "byte list \<Rightarrow> 32 word" where
  "of_be32 bs = push_bit 24 (ucast (bs ! 0)) OR push_bit 16 (ucast (bs ! 1))
     OR push_bit 8 (ucast (bs ! 2)) OR ucast (bs ! 3)"

definition health_request :: "byte list \<Rightarrow> byte list" where
  "health_request service =
     (let msg = (if service \<noteq> [] then 0x0A # append_uvarint (of_nat (length service)) @ service else [])
      in 0 # be32 (of_nat (length msg)) @ msg)"

section \<open>The response\<close>

datatype health_out = Status int | ParseError string | Panic

datatype scan = Next int | Stop health_out

text \<open>\<^verbatim>\<open>msg[i:]\<close> panics when \<open>i\<close> is negative or past the end.\<close>

definition slice_from :: "byte list \<Rightarrow> int \<Rightarrow> byte list option" where
  "slice_from msg i = (if 0 \<le> i \<and> i \<le> int (length msg) then Some (drop (nat i) msg) else None)"

text \<open>One round of the loop: the next index, or what the function returns.\<close>

definition scan_step :: "byte list \<Rightarrow> int \<Rightarrow> scan" where
  "scan_step msg i =
     (case slice_from msg i of
        None \<Rightarrow> Stop Panic
      | Some rest \<Rightarrow>
          (let (tag, tl) = uvarint rest
           in if tl \<le> 0 then Stop (ParseError ''invalid protobuf tag'')
              else let i = wrap64 (i + tl); field = drop_bit 3 tag; wt = unat (tag AND 7)
                   in if wt = 0 then
                        (case slice_from msg i of
                           None \<Rightarrow> Stop Panic
                         | Some rest \<Rightarrow>
                             (let (v, vl) = uvarint rest
                              in if vl \<le> 0 then Stop (ParseError ''invalid varint'')
                                 else if field = 1 then Stop (Status (sint v)) else Next (wrap64 (i + vl))))
                      else if wt = 1 then Next (wrap64 (i + 8))
                      else if wt = 2 then
                        (case slice_from msg i of
                           None \<Rightarrow> Stop Panic
                         | Some rest \<Rightarrow>
                             (let (l, ll) = uvarint rest
                              in if ll \<le> 0 then Stop (ParseError ''invalid length'')
                                 else Next (wrap64 (i + wrap64 (ll + sint l)))))
                      else if wt = 5 then Next (wrap64 (i + 4))
                      else Stop (ParseError ''unsupported wire type'')))"

partial_function (option) scan_from :: "byte list \<Rightarrow> int \<Rightarrow> health_out option" where
  "scan_from msg i =
     (if i < int (length msg)
      then (case scan_step msg i of Stop r \<Rightarrow> Some r | Next j \<Rightarrow> scan_from msg j)
      else Some (Status 0))"

text \<open>The slice \<^verbatim>\<open>frame[5 : 5+n]\<close> is computed with \<^verbatim>\<open>n\<close>'s 32 bits, unlike the length check before it.\<close>

definition parse_health_status :: "byte list \<Rightarrow> health_out option" where
  "parse_health_status frame =
     (if length frame < 5 then Some (ParseError ''grpc response too short'')
      else let n = of_be32 (take 4 (drop 1 frame)); e = 5 + n
           in if length frame < 5 + unat n then Some (ParseError ''grpc response truncated'')
              else if unat e < 5 then Some Panic
              else scan_from (drop 5 (take (unat e) frame)) 0)"

section \<open>Judging the reply\<close>

record grpc_reply =
  trailer_status :: string
  header_status :: string
  trailer_message :: string
  header_message :: string
  reply_body :: "byte list"

text \<open>\<open>None\<close>: the probe never returns; \<open>Some (Inl Panic)\<close> stands for a crash of the harness.\<close>

datatype probe_out = ProbeOk | ProbeErr go_error | ProbePanic

definition judge_reply :: "grpc_reply \<Rightarrow> probe_out option" where
  "judge_reply r =
     (let st = (if trailer_status r = [] then header_status r else trailer_status r)
      in if st \<noteq> [] \<and> st \<noteq> ''0''
         then let msg = (if trailer_message r = [] then header_message r else trailer_message r)
              in Some (ProbeErr (Errorf ''grpc health check returned status %s: %s'' [st, msg]))
         else case parse_health_status (reply_body r) of
                None \<Rightarrow> None
              | Some Panic \<Rightarrow> Some ProbePanic
              | Some (ParseError e) \<Rightarrow> Some (ProbeErr (Errorf e []))
              | Some (Status v) \<Rightarrow>
                  (if v \<noteq> 1 then Some (ProbeErr (Errorf ''grpc health status is not SERVING (got %d)'' [format_int v]))
                   else Some ProbeOk))"

section \<open>The probe\<close>

record grpc_call =
  gc_method :: string
  gc_url :: string
  gc_headers :: "(string \<times> string) list"
  gc_body :: "byte list"
  gc_timeout :: duration

text \<open>
  \<open>new_request\<close> is the error of building a request for a URL, if any; \<open>exchange\<close> the HTTP/2 exchange
  under the client's timeout, with the reply and the error that ended reading its body, if any.
\<close>

definition probeGRPCService ::
  "(string \<Rightarrow> go_error option) \<Rightarrow> (grpc_call \<Rightarrow> (grpc_reply \<times> go_error option) go_result)
    \<Rightarrow> string \<Rightarrow> byte list \<Rightarrow> duration \<Rightarrow> probe_out option" where
  "probeGRPCService new_request exchange target service timeout =
     (let url = ''http://'' @ target @ ''/grpc.health.v1.Health/Check''
      in case new_request url of
           Some e \<Rightarrow> Some (ProbeErr e)
         | None \<Rightarrow>
             (case exchange \<lparr>gc_method = ''POST'', gc_url = url,
                 gc_headers = [(''Content-Type'', ''application/grpc+proto''), (''TE'', ''trailers'')],
                 gc_body = health_request service, gc_timeout = timeout\<rparr> of
                Inl e \<Rightarrow> Some (ProbeErr (Wrapf ''grpc health check request failed: %w'' [] e))
              | Inr (reply, Some e) \<Rightarrow> Some (ProbeErr (Wrapf ''failed to read grpc response: %w'' [] e))
              | Inr (reply, None) \<Rightarrow> judge_reply reply))"

section \<open>Varints read back\<close>

lemma append_uvarint_small: "x < 0x80 \<Longrightarrow> append_uvarint x = [ucast x]"
  by (simp add: append_uvarint.simps)

lemma append_uvarint_large:
  "\<not> x < 0x80 \<Longrightarrow> append_uvarint x = (ucast x OR 0x80) # append_uvarint (drop_bit 7 x)"
  by (simp add: append_uvarint.simps [of x])

lemma byte_of_small:
  assumes "(x :: 64 word) < 0x80"
  shows "unat (ucast x :: byte) = unat x" and "ucast (ucast x :: byte) = x"
proof -
  have "unat x < 128" using assms by (simp add: word_less_nat_alt)
  then show "unat (ucast x :: byte) = unat x"
    by (simp add: unsigned_ucast_eq take_bit_nat_eq_self unsigned_take_bit_eq)
  then show "ucast (ucast x :: byte) = x"
    by (simp add: word_unat_eq_iff unsigned_ucast_eq take_bit_nat_eq_self unsigned_take_bit_eq)
qed

lemma mask7: "(0x7f :: 'a::len word) = mask 7"
  by (simp add: mask_eq_exp_minus_1)

lemma byte_of_large:
  "\<not> ((ucast (x :: 64 word) OR 0x80 :: byte) < 0x80)"
  "ucast ((ucast x OR 0x80 :: byte) AND 0x7f) = x AND 0x7f"
proof -
  show "\<not> ((ucast (x :: 64 word) OR 0x80 :: byte) < 0x80)"
    using le_word_or1 [of "0x80 :: byte" "ucast x"] by (simp add: not_less)
  have "(ucast x OR 0x80 :: byte) AND 0x7f = ucast x AND 0x7f" by (simp add: bit.conj_disj_distrib2)
  then show "ucast ((ucast x OR 0x80 :: byte) AND 0x7f) = x AND 0x7f"
    by (simp only:) (unfold mask7, rule bit_word_eqI, auto simp: bit_simps)
qed

lemma split7: "(x AND 0x7f) OR push_bit 7 (drop_bit 7 x) = (x :: 64 word)"
proof (rule bit_word_eqI)
  fix n
  assume "n < LENGTH(64)"
  then show "bit ((x AND 0x7f) OR push_bit 7 (drop_bit 7 x)) n = bit x n"
    unfolding mask7 by (cases "n < 7") (auto simp: bit_simps)
qed

lemma append_uvarint_length [simp]: "append_uvarint x \<noteq> []"
  by (cases "x < 0x80") (simp_all add: append_uvarint_small append_uvarint_large)

lemma uvarint_from_append:
  assumes "i < 10" and "s = 7 * i" and "unat x < 2 ^ (64 - s)"
  shows "uvarint_from i s a (append_uvarint x @ rest) =
    (a OR push_bit s x, int i + int (length (append_uvarint x)))"
  using assms
proof (induction x arbitrary: i s a rule: append_uvarint.induct)
  case (1 x)
  show ?case
  proof (cases "x < 0x80")
    case True
    have "\<not> (i = 9 \<and> 1 < (ucast x :: byte))"
      using 1(2-4) byte_of_small [OF True] by (auto simp: word_less_nat_alt)
    moreover have "(ucast x :: byte) < 0x80"
      using True byte_of_small(1) [OF True] by (simp add: word_less_nat_alt)
    ultimately show ?thesis
      using 1(2) by (simp add: append_uvarint_small [OF True] byte_of_small(2) [OF True])
  next
    case False
    then have big: "128 \<le> unat x" by (simp add: word_less_nat_alt not_less)
    have "i < 9"
    proof (rule ccontr)
      assume "\<not> i < 9"
      with 1(2) have "i = 9" by simp
      with 1(3,4) have "unat x < 2" by simp
      with big show False by simp
    qed
    moreover have "unat (drop_bit 7 x) < 2 ^ (64 - (s + 7))"
    proof -
      have "(2 :: nat) ^ (64 - s) = 128 * 2 ^ (64 - (s + 7))"
      proof -
        have "64 - s = 7 + (64 - (s + 7))" using 1(3) \<open>i < 9\<close> by simp
        then show ?thesis by (simp only: power_add) simp
      qed
      with 1(4) show ?thesis by (simp add: unat_shift7 less_mult_imp_div_less mult.commute)
    qed
    ultimately have rec: "uvarint_from (i + 1) (s + 7) (a OR push_bit s (x AND 0x7f)) (append_uvarint (drop_bit 7 x) @ rest)
        = ((a OR push_bit s (x AND 0x7f)) OR push_bit (s + 7) (drop_bit 7 x),
           int (i + 1) + int (length (append_uvarint (drop_bit 7 x))))"
      using 1(3) by (intro 1(1) [OF False]) simp_all
    have "(a OR push_bit s (x AND 0x7f)) OR push_bit (s + 7) (drop_bit 7 x)
        = a OR push_bit s ((x AND 0x7f) OR push_bit 7 (drop_bit 7 x))"
      by (simp add: push_bit_or or.assoc)
    with rec \<open>i < 9\<close> show ?thesis
      by (simp add: append_uvarint_large [OF False] byte_of_large split7)
  qed
qed

lemma uvarint_append: "uvarint (append_uvarint x @ rest) = (x, int (length (append_uvarint x)))"
  using uvarint_from_append [of 0 0 x 0 rest] unsigned_less [of x] by (simp add: uvarint_def)

lemma uvarint_from_bounds:
  assumes "uvarint_from i s x bs = (v, k)" and "0 < k" and "i \<le> 10"
  shows "int i < k \<and> k \<le> int i + int (length bs) \<and> k \<le> 10"
  using assms
proof (induction i s x bs rule: uvarint_from.induct)
  case (2 i s x b bs)
  then show ?case by (cases "i = 10"; cases "b < 0x80") (auto split: if_splits)
qed simp

lemma uvarint_bounds:
  "uvarint bs = (v, k) \<Longrightarrow> 0 < k \<Longrightarrow> k \<le> int (length bs) \<and> k \<le> 10"
  using uvarint_from_bounds [of 0 0 0 bs v k] by (simp add: uvarint_def)

section \<open>Indexing\<close>

lemma wrap64_sum: "0 < a \<Longrightarrow> a \<le> 10 \<Longrightarrow> 0 \<le> b \<Longrightarrow> b < 2 ^ 62 \<Longrightarrow> wrap64 (a + b) = a + b"
  by (simp add: wrap64_id)

lemma sint_small: "uint (x :: 64 word) < 2 ^ 63 \<Longrightarrow> sint x = uint x"
  using signed_take_bit_int_eq_self [of 63 "uint x"] unsigned_greater_eq [of x, where ?'a = int]
  by (simp add: sint_uint)

lemma slice_from_append [simp]: "slice_from (pre @ rest) (int (length pre)) = Some rest"
  by (simp add: slice_from_def)

text \<open>A length the code can add to an index without leaving 63 bits.\<close>

definition lengths_fit :: "byte list \<Rightarrow> bool" where
  "lengths_fit msg = list_all (\<lambda>j. uint (fst (uvarint (drop j msg))) < 2 ^ 62) [0..<length msg + 1]"

lemma scan_step_progress:
  assumes "lengths_fit msg" and "length msg < 2 ^ 32" and "0 \<le> i" and "i < int (length msg)"
  shows "case scan_step msg i of Stop r \<Rightarrow> r \<noteq> Panic | Next j \<Rightarrow> i < j"
proof -
  let ?rest = "drop (nat i) msg"
  obtain tag tl where u: "uvarint ?rest = (tag, tl)" by fastforce
  have s: "slice_from msg i = Some ?rest" using assms(3,4) by (simp add: slice_from_def)
  show ?thesis
  proof (cases "tl \<le> 0")
    case True
    with s u show ?thesis by (simp add: scan_step_def)
  next
    case False
    then have tl: "0 < tl" "tl \<le> 10" "i + tl \<le> int (length msg)"
      using uvarint_bounds [OF u] assms(3,4) by auto
    have small: "int (length msg) < 2 ^ 32" using assms(2) by simp
    define i' where "i' = i + tl"
    have i': "wrap64 (i + tl) = i'" "i < i'" "i' \<le> int (length msg)" "0 \<le> i'"
      using tl assms(3) small unfolding i'_def by (auto intro: wrap64_id)
    have s': "slice_from msg i' = Some (drop (nat i') msg)" using i' by (simp add: slice_from_def)
    obtain v vl where u': "uvarint (drop (nat i') msg) = (v, vl)" by fastforce
    have fit: "uint v < 2 ^ 62"
      using assms(1) i' u' unfolding lengths_fit_def list_all_iff
      by (metis fst_conv atLeastLessThan_iff set_upt le_imp_less_Suc Suc_eq_plus1 nat_le_iff le0)
    have vl: "0 < vl \<Longrightarrow> vl \<le> 10" using uvarint_bounds [OF u'] by simp
    have w: "wrap64 (i' + d) = i' + d" if "0 \<le> d" "d < 2 ^ 62 + 20" for d
      using that i'(3,4) small by (intro wrap64_id) auto
    have l: "wrap64 (vl + sint v) = vl + sint v" "0 \<le> sint v" "sint v < 2 ^ 62" if "0 < vl"
    proof -
      have "sint v = uint v" using fit by (simp add: sint_small)
      with that vl fit show "wrap64 (vl + sint v) = vl + sint v" "0 \<le> sint v" "sint v < 2 ^ 62"
        by (simp_all add: wrap64_sum)
    qed
    show ?thesis
      using False s u i' s' u' vl w [of 8] w [of 4] w [of vl] w [of "vl + sint v"] l
      by (auto simp: scan_step_def Let_def not_le)
  qed
qed

lemma scan_from_returns:
  assumes "lengths_fit msg" and "length msg < 2 ^ 32" and "0 \<le> i"
  shows "\<exists>r. scan_from msg i = Some r \<and> r \<noteq> Panic"
  using assms(3)
proof (induction "nat (int (length msg) - i)" arbitrary: i rule: less_induct)
  case less
  show ?case
  proof (cases "i < int (length msg)")
    case False
    then show ?thesis by (simp add: scan_from.simps)
  next
    case True
    note step = scan_step_progress [OF assms(1,2) less.prems True]
    show ?thesis
    proof (cases "scan_step msg i")
      case (Stop r)
      with step True show ?thesis by (simp add: scan_from.simps [of msg i])
    next
      case (Next j)
      with step True have "\<exists>r. scan_from msg j = Some r \<and> r \<noteq> Panic"
        using less.prems by (intro less.hyps) auto
      with Next True show ?thesis by (simp add: scan_from.simps [of msg i])
    qed
  qed
qed

section \<open>A message read back\<close>

text \<open>Protocol-buffer fields of the four wire types, and the message they make.\<close>

datatype pb_field =
    PbVarint "64 word" "64 word"
  | PbFixed64 "64 word" "byte list"
  | PbBytes "64 word" "byte list"
  | PbFixed32 "64 word" "byte list"

fun pb_encode :: "pb_field \<Rightarrow> byte list" where
  "pb_encode (PbVarint f v) = append_uvarint (push_bit 3 f) @ append_uvarint v"
| "pb_encode (PbFixed64 f bs) = append_uvarint (push_bit 3 f OR 1) @ bs"
| "pb_encode (PbBytes f bs) = append_uvarint (push_bit 3 f OR 2) @ append_uvarint (of_nat (length bs)) @ bs"
| "pb_encode (PbFixed32 f bs) = append_uvarint (push_bit 3 f OR 5) @ bs"

fun pb_wf :: "pb_field \<Rightarrow> bool" where
  "pb_wf (PbVarint f v) = (f < 2 ^ 61)"
| "pb_wf (PbFixed64 f bs) = (f < 2 ^ 61 \<and> length bs = 8)"
| "pb_wf (PbBytes f bs) = (f < 2 ^ 61)"
| "pb_wf (PbFixed32 f bs) = (f < 2 ^ 61 \<and> length bs = 4)"

fun pb_status :: "pb_field list \<Rightarrow> int" where
  "pb_status [] = 0"
| "pb_status (PbVarint f v # fs) = (if f = 1 then sint v else pb_status fs)"
| "pb_status (_ # fs) = pb_status fs"

definition response_frame :: "pb_field list \<Rightarrow> byte list" where
  "response_frame fs =
     (let msg = concat (map pb_encode fs) in 0 # be32 (of_nat (length msg)) @ msg)"

lemma bit_below:
  assumes "unat (x :: 64 word) < 2 ^ n" and "bit x i"
  shows "i < n"
proof (rule ccontr)
  assume "\<not> i < n"
  have "unat (drop_bit n x) = drop_bit n (unat x)" by (rule unat_drop_bit_eq)
  also have "\<dots> = unat x div 2 ^ n" by (rule drop_bit_eq_div)
  also have "\<dots> = 0" using assms(1) by simp
  finally have "unat (drop_bit n x) = 0" .
  then have "drop_bit n x = 0" by (simp only: unsigned_eq_0_iff)
  then have "\<not> bit (drop_bit n x) (i - n)" by simp
  with assms(2) \<open>\<not> i < n\<close> show False by (simp add: bit_drop_bit_eq)
qed

lemma tag_parts:
  assumes "f < (2 ^ 61 :: 64 word)" and "w < 8"
  shows "drop_bit 3 (push_bit 3 f OR w) = f" and "unat ((push_bit 3 f OR w) AND 7) = unat w"
proof -
  have m: "(7 :: 64 word) = mask 3" by (simp add: mask_eq_exp_minus_1)
  have fb: "\<not> bit f n" if "61 \<le> n" for n
    using bit_below [of f 61 n] assms(1) that by (auto simp: word_less_nat_alt)
  have wb: "\<not> bit w n" if "3 \<le> n" for n
    using bit_below [of w 3 n] assms(2) that by (auto simp: word_less_nat_alt)
  show "drop_bit 3 (push_bit 3 f OR w) = f"
  proof (rule bit_word_eqI)
    fix n
    assume "n < LENGTH(64)"
    then show "bit (drop_bit 3 (push_bit 3 f OR w)) n = bit f n"
      by (cases "n < 61") (simp_all add: bit_simps wb fb)
  qed
  have "(push_bit 3 f OR w) AND 7 = w"
  proof (rule bit_word_eqI)
    fix n
    assume "n < LENGTH(64)"
    then show "bit ((push_bit 3 f OR w) AND 7) n = bit w n"
      unfolding m by (cases "n < 3") (simp_all add: bit_simps wb)
  qed
  then show "unat ((push_bit 3 f OR w) AND 7) = unat w" by simp
qed

text \<open>Reading the tag of the next field, and then what follows it.\<close>

lemma scan_tag:
  assumes "msg = pre @ append_uvarint tag @ rest" and "length msg < 2 ^ 32"
  shows "scan_from msg (int (length pre)) =
    (let i = int (length (pre @ append_uvarint tag)); wt = unat (tag AND 7); (v, n) = uvarint rest
     in if wt = 0 then
          (if n \<le> 0 then Some (ParseError ''invalid varint'')
           else if drop_bit 3 tag = 1 then Some (Status (sint v)) else scan_from msg (wrap64 (i + n)))
        else if wt = 1 then scan_from msg (wrap64 (i + 8))
        else if wt = 2 then
          (if n \<le> 0 then Some (ParseError ''invalid length'')
           else scan_from msg (wrap64 (i + wrap64 (n + sint v))))
        else if wt = 5 then scan_from msg (wrap64 (i + 4))
        else Some (ParseError ''unsupported wire type''))"
proof -
  let ?t = "append_uvarint tag"
  have len: "0 < length ?t" by (cases "tag < 0x80") (simp_all add: append_uvarint_small append_uvarint_large)
  have "slice_from msg (int (length pre)) = Some (?t @ rest)" by (simp add: assms(1))
  moreover have "wrap64 (int (length pre) + int (length ?t)) = int (length (pre @ ?t))"
    using assms by (simp add: wrap64_id)
  moreover have "slice_from msg (int (length (pre @ ?t))) = Some rest"
    using slice_from_append [of "pre @ ?t" rest] by (simp add: assms(1))
  moreover have "int (length pre) < int (length msg)"
    using len unfolding assms(1) length_append of_nat_less_iff by linarith
  moreover obtain v n where "uvarint rest = (v, n)" by fastforce
  ultimately show ?thesis
    using len by (simp add: scan_from.simps [of msg "int (length pre)"] scan_step_def uvarint_append Let_def del: of_nat_add length_append)
qed

lemma scan_fields:
  assumes "list_all pb_wf fs" and "msg = pre @ concat (map pb_encode fs)" and "length msg < 2 ^ 32"
  shows "scan_from msg (int (length pre)) = Some (Status (pb_status fs))"
  using assms
proof (induction fs arbitrary: pre)
  case Nil
  then show ?case by (simp add: scan_from.simps)
next
  case (Cons x fs)
  let ?rest = "concat (map pb_encode fs)"
  have next_: "scan_from msg (int (length (pre @ pb_encode x))) = Some (Status (pb_status fs))"
    using Cons.prems by (intro Cons.IH) simp_all
  have wrap: "wrap64 (int (length (pre @ pb_encode x))) = int (length (pre @ pb_encode x))"
    using Cons.prems(2,3) by (simp add: wrap64_id)
  show ?case
  proof (cases x)
    case (PbVarint f v)
    have f: "f < 2 ^ 61" using Cons.prems(1) PbVarint by simp
    from scan_tag [of msg pre "push_bit 3 f" "append_uvarint v @ ?rest"] Cons.prems(2,3) PbVarint
      tag_parts [OF f, of 0] next_ wrap
    show ?thesis by (simp add: uvarint_append add.assoc)
  next
    case (PbFixed64 f bs)
    have f: "f < 2 ^ 61" and l: "length bs = 8" using Cons.prems(1) PbFixed64 by simp_all
    from scan_tag [of msg pre "push_bit 3 f OR 1" "bs @ ?rest"] Cons.prems(2,3) PbFixed64
      tag_parts [OF f, of 1] next_ wrap l
    show ?thesis by (auto simp: split_beta Let_def add.assoc)
  next
    case (PbFixed32 f bs)
    have f: "f < 2 ^ 61" and l: "length bs = 4" using Cons.prems(1) PbFixed32 by simp_all
    from scan_tag [of msg pre "push_bit 3 f OR 5" "bs @ ?rest"] Cons.prems(2,3) PbFixed32
      tag_parts [OF f, of 5] next_ wrap l
    show ?thesis by (auto simp: split_beta Let_def add.assoc)
  next
    case (PbBytes f bs)
    have f: "f < 2 ^ 61" using Cons.prems(1) PbBytes by simp
    have l: "length bs < 2 ^ 32" using Cons.prems(2,3) PbBytes by simp
    have "sint (of_nat (length bs) :: 64 word) = int (length bs)"
      using l by (simp add: sint_small unsigned_of_nat take_bit_nat_eq_self)
    moreover have "wrap64 (int (length (append_uvarint (of_nat (length bs)))) + int (length bs))
        = int (length (append_uvarint (of_nat (length bs)))) + int (length bs)"
      using Cons.prems(2,3) PbBytes by (simp add: wrap64_id)
    ultimately show ?thesis
    using scan_tag [of msg pre "push_bit 3 f OR 2" "append_uvarint (of_nat (length bs)) @ bs @ ?rest"]
      Cons.prems(2,3) PbBytes tag_parts [OF f, of 2] next_ wrap
    by (simp add: uvarint_append add.assoc)
  qed
qed

lemma of_be32_be32: "of_be32 (be32 n) = n"
proof (rule bit_word_eqI)
  fix i
  assume "i < LENGTH(32)"
  then consider "i < 8" | "8 \<le> i" "i < 16" | "16 \<le> i" "i < 24" | "24 \<le> i" "i < 32" by fastforce
  then show "bit (of_be32 (be32 n)) i = bit n i"
    by cases (auto simp: of_be32_def be32_def bit_simps less_diff_conv2)
qed

lemma length_be32 [simp]: "length (be32 n) = 4"
  by (simp add: be32_def)

lemma frame_header: "take 4 (drop 1 (0 # be32 n @ msg)) = be32 n"
  by simp

lemma frame_end: "n < 2 ^ 32 - 5 \<Longrightarrow> unat (5 + of_nat n :: 32 word) = 5 + n"
  by (simp add: unat_plus_if' unsigned_of_nat take_bit_nat_eq_self)

lemma parse_frame:
  assumes "length msg < 2 ^ 32 - 5"
  shows "parse_health_status (0 # be32 (of_nat (length msg)) @ msg) = scan_from msg 0"
proof -
  have "unat (of_nat (length msg) :: 32 word) = length msg"
    using assms by (simp add: unsigned_of_nat take_bit_nat_eq_self)
  with frame_end [OF assms] show ?thesis
    by (simp add: parse_health_status_def of_be32_be32 Let_def)
qed

lemma parse_response:
  assumes "list_all pb_wf fs" and "length (concat (map pb_encode fs)) < 2 ^ 32 - 5"
  shows "parse_health_status (response_frame fs) = Some (Status (pb_status fs))"
  using parse_frame [OF assms(2)] scan_fields [OF assms(1), of _ "[]"] assms(2)
  by (simp add: response_frame_def Let_def)

section \<open>Frames the decoder does not survive\<close>

text \<open>A field of length 2^64 - 11: its last byte sends the index back to the tag it came from.\<close>

definition looping_message :: "byte list" where
  "looping_message = [0x12, 0xF5, 0xFF, 0xFF, 0xFF, 0xFF, 0xFF, 0xFF, 0xFF, 0xFF, 0x01]"

lemma looping_step: "scan_step looping_message 0 = Next 0"
  by (simp add: looping_message_def scan_step_def slice_from_def uvarint_def wrap64_def)

lemma scan_not_at_loop:
  assumes "scan_from msg i = Some r"
  shows "\<not> (msg = looping_message \<and> i = 0)"
proof (rule scan_from.raw_induct [where P = "\<lambda>msg i r. \<not> (msg = looping_message \<and> i = 0)", OF _ assms])
  fix scan msg i r
  assume IH: "\<And>msg i r. scan msg i = Some r \<Longrightarrow> \<not> (msg = looping_message \<and> i = 0)"
    and body: "(if i < int (length msg)
      then case scan_step msg i of Next j \<Rightarrow> scan msg j | Stop r \<Rightarrow> Some r else Some (Status 0)) = Some r"
  show "\<not> (msg = looping_message \<and> i = 0)"
  proof
    assume at: "msg = looping_message \<and> i = 0"
    with body looping_step have "scan looping_message 0 = Some r"
      by (simp add: looping_message_def split: if_splits)
    from IH [OF this] show False by simp
  qed
qed

lemma looping_diverges: "scan_from looping_message 0 = None"
  using scan_not_at_loop by (cases "scan_from looping_message 0") auto

text \<open>A field of length 2^64 - 12: the index becomes -1 and the next slice fails.\<close>

definition crashing_message :: "byte list" where
  "crashing_message = [0x12, 0xF4, 0xFF, 0xFF, 0xFF, 0xFF, 0xFF, 0xFF, 0xFF, 0xFF, 0x01]"

lemma crashing_panics: "scan_from crashing_message 0 = Some Panic"
proof -
  have "scan_step crashing_message 0 = Next (- 1)"
    by (simp add: crashing_message_def scan_step_def slice_from_def uvarint_def wrap64_def)
  moreover have "scan_step crashing_message (- 1) = Stop Panic"
    by (simp add: scan_step_def slice_from_def)
  moreover have "length crashing_message = 11" by (simp add: crashing_message_def)
  ultimately show ?thesis
    by (simp add: scan_from.simps [of crashing_message 0] scan_from.simps [of crashing_message "- 1"])
qed

text \<open>A frame of a message.\<close>

definition frame_of :: "byte list \<Rightarrow> byte list" where
  "frame_of msg = 0 # be32 (of_nat (length msg)) @ msg"

lemma parse_frame_of: "length msg < 2 ^ 32 - 5 \<Longrightarrow> parse_health_status (frame_of msg) = scan_from msg 0"
  by (simp add: frame_of_def parse_frame)

text \<open>A frame shorter than 4 GiB whose message has no oversized length is decoded without a crash.\<close>

lemma parse_returns:
  assumes "length frame < 2 ^ 32"
    and "lengths_fit (drop 5 (take (5 + unat (of_be32 (take 4 (drop 1 frame)))) frame))"
  shows "\<exists>r. parse_health_status frame = Some r \<and> r \<noteq> Panic"
proof (cases "length frame < 5 \<or> length frame < 5 + unat (of_be32 (take 4 (drop 1 frame)))")
  case True
  then show ?thesis by (auto simp: parse_health_status_def Let_def)
next
  case False
  let ?n = "of_be32 (take 4 (drop 1 frame))"
  have n: "unat (5 + ?n) = 5 + unat ?n"
    using False assms(1) by (simp add: unat_plus_if')
  let ?msg = "drop 5 (take (5 + unat ?n) frame)"
  have "length ?msg < 2 ^ 32" using assms(1) by simp
  with scan_from_returns [OF assms(2), of 0] False n show ?thesis
    by (simp add: parse_health_status_def Let_def)
qed

text \<open>What a server makes of the request: its flag byte, its length prefix, its only field.\<close>

definition read_request :: "byte list \<Rightarrow> byte list option" where
  "read_request f =
     (let msg = drop 5 f; (l, ll) = uvarint (drop 1 msg)
      in if length f < 5 \<or> f ! 0 \<noteq> 0 \<or> unat (of_be32 (take 4 (drop 1 f))) \<noteq> length msg then None
         else if msg = [] then Some []
         else if hd msg \<noteq> 0x0A \<or> ll \<le> 0 \<or> length msg \<noteq> 1 + nat ll + unat l then None
         else Some (drop (1 + nat ll) msg))"

lemma uvarint_length_bound: "unat x < 128 ^ Suc n \<Longrightarrow> length (append_uvarint x) \<le> Suc n"
proof (induction n arbitrary: x)
  case 0
  then show ?case by (simp add: append_uvarint_small word_less_nat_alt)
next
  case (Suc n)
  show ?case
  proof (cases "x < 0x80")
    case True
    then show ?thesis by (simp add: append_uvarint_small)
  next
    case False
    have "unat (drop_bit 7 x) < 128 ^ Suc n" using Suc.prems by (simp add: unat_shift7 less_mult_imp_div_less mult.commute)
    from Suc.IH [OF this] False show ?thesis by (simp add: append_uvarint_large)
  qed
qed

lemma uvarint_length: "0 < length (append_uvarint x)" "length (append_uvarint x) \<le> 10"
proof -
  show "0 < length (append_uvarint x)" by (cases "x < 0x80") (simp_all add: append_uvarint_small append_uvarint_large)
  have "unat x < 128 ^ Suc 9" using unsigned_less [of x, where 'a = nat] by simp
  from uvarint_length_bound [OF this] show "length (append_uvarint x) \<le> 10" by simp
qed

lemma read_health_request:
  assumes "length service < 2 ^ 31"
  shows "read_request (health_request service) = Some service"
proof (cases "service = []")
  case True
  then show ?thesis
    by (simp add: read_request_def health_request_def Let_def be32_def of_be32_def uvarint_def)
next
  case False
  define u where "u = append_uvarint (of_nat (length service))"
  define msg where "msg = 0x0A # u @ service"
  have u: "0 < length u" "length u \<le> 10"
    using uvarint_length [of "of_nat (length service)"] by (simp_all add: u_def)
  have len: "unat (of_nat (length service) :: 64 word) = length service"
    using assms by (simp add: unsigned_of_nat take_bit_nat_eq_self)
  have "length msg < 2 ^ 32" using assms u(2) by (simp add: msg_def)
  then have "unat (of_nat (length msg) :: 32 word) = length msg"
    by (simp add: unsigned_of_nat take_bit_nat_eq_self)
  moreover have "uvarint (u @ service) = (of_nat (length service), int (length u))"
    unfolding u_def by (rule uvarint_append)
  moreover have "health_request service = 0 # be32 (of_nat (length msg)) @ msg"
    using False by (simp add: health_request_def msg_def u_def Let_def)
  ultimately show ?thesis
    using u len frame_header [of "of_nat (length msg)" msg]
    by (simp add: read_request_def msg_def of_be32_be32 Let_def)
qed

section \<open>Properties\<close>

text \<open>
  The request says which service is meant. A gRPC server that reads one uncompressed,
  length-prefixed frame and a HealthCheckRequest with at most the field service = 1 in it
  gets back exactly the service name the probe was given, the empty name included.
\<close>

theorem health_request_decodes:
  assumes "length service < 2 ^ 31"
  shows "read_request (health_request service) = Some service"
  by (rule read_health_request [OF assms])

lemma health_request_decodes_witness: "read_request (health_request [0x70, 0x64]) = Some [0x70, 0x64]"
  using health_request_decodes [of "[0x70, 0x64]"] by simp

text \<open>
  A well-formed reply is judged by its status. For every HealthCheckResponse made of
  well-formed protocol-buffer fields of any wire type and order, framed as gRPC frames it,
  the probe ends, and it succeeds exactly when the first field numbered 1 with a varint is
  1 (SERVING), in a reply whose gRPC status is absent or 0.
\<close>

lemma judge_encoded_reply:
  assumes "list_all pb_wf fs" and "length (concat (map pb_encode fs)) < 2 ^ 32 - 5"
    and "reply_body r = response_frame fs" and "trailer_status r = ''0'' \<or> (trailer_status r = [] \<and> header_status r = [])"
  shows "judge_reply r =
    Some (if pb_status fs = 1 then ProbeOk
          else ProbeErr (Errorf ''grpc health status is not SERVING (got %d)'' [format_int (pb_status fs)]))"
  using parse_response [OF assms(1,2)] assms(3,4) by (auto simp: judge_reply_def Let_def)

definition demo_fields :: "pb_field list" where
  "demo_fields = [PbBytes 2 [0x68, 0x69], PbFixed32 3 [1, 2, 3, 4], PbVarint 1 1]"

text \<open>What a health server replies: the status of the service, or the gRPC code for an unknown one.\<close>

fun health_reply :: "pb_field list option \<Rightarrow> grpc_reply" where
  "health_reply None =
     \<lparr>trailer_status = ''5'', header_status = [], trailer_message = ''unknown service'', header_message = [], reply_body = []\<rparr>"
| "health_reply (Some fs) =
     \<lparr>trailer_status = ''0'', header_status = [], trailer_message = [], header_message = [], reply_body = response_frame fs\<rparr>"

text \<open>
  C24: the probe reports what the server says of the service it was asked about. Against a
  server that implements Health/Check (it reads the service name from the frame of a POST to the
  method's path and answers with a HealthCheckResponse of well-formed fields of any wire type, in
  any order, or with status 5 for a service it does not know), the probe ends without a crash;
  it succeeds exactly when the status of that very service is 1 (SERVING).
\<close>

theorem grpc_probe_end_to_end:
  assumes "length service < 2 ^ 31"
    and "new_request (''http://'' @ target @ ''/grpc.health.v1.Health/Check'') = None"
    and "\<And>c s. gc_method c = ''POST'' \<Longrightarrow> gc_url c = ''http://'' @ target @ ''/grpc.health.v1.Health/Check''
      \<Longrightarrow> read_request (gc_body c) = Some s \<Longrightarrow> exchange c = Inr (health_reply (health s), None)"
    and "\<And>s fs. health s = Some fs \<Longrightarrow> list_all pb_wf fs \<and> length (concat (map pb_encode fs)) < 2 ^ 32 - 5"
  shows "probeGRPCService new_request exchange target service timeout =
    Some (case health service of
            None \<Rightarrow> ProbeErr (Errorf ''grpc health check returned status %s: %s'' [''5'', ''unknown service''])
          | Some fs \<Rightarrow>
              if pb_status fs = 1 then ProbeOk
              else ProbeErr (Errorf ''grpc health status is not SERVING (got %d)'' [format_int (pb_status fs)]))"
proof -
  let ?c = "\<lparr>gc_method = ''POST'', gc_url = ''http://'' @ target @ ''/grpc.health.v1.Health/Check'',
     gc_headers = [(''Content-Type'', ''application/grpc+proto''), (''TE'', ''trailers'')],
     gc_body = health_request service, gc_timeout = timeout\<rparr>"
  have "exchange ?c = Inr (health_reply (health service), None)"
    by (rule assms(3)) (simp_all add: read_health_request [OF assms(1)])
  then have "probeGRPCService new_request exchange target service timeout = judge_reply (health_reply (health service))"
    using assms(2) by (simp add: probeGRPCService_def Let_def)
  then show ?thesis
    using assms(4) [of service] judge_encoded_reply [of _ "health_reply (health service)"]
    by (cases "health service") (auto simp: judge_reply_def Let_def)
qed

definition demo_health :: "byte list \<Rightarrow> pb_field list option" where
  "demo_health s = (if s = [0x70, 0x64] then Some demo_fields else None)"

definition demo_exchange :: "grpc_call \<Rightarrow> (grpc_reply \<times> go_error option) go_result" where
  "demo_exchange c =
     (case read_request (gc_body c) of
        None \<Rightarrow> Inl (External ''bad frame'')
      | Some s \<Rightarrow> Inr (health_reply (demo_health s), None))"

lemma grpc_probe_end_to_end_witness:
  "probeGRPCService (\<lambda>_. None) demo_exchange ''127.0.0.1:2379'' [0x70, 0x64] 2000000000 = Some ProbeOk"
proof -
  have "list_all pb_wf demo_fields \<and> length (concat (map pb_encode demo_fields)) < 2 ^ 32 - 5"
    by (simp add: demo_fields_def append_uvarint.simps)
  then have "probeGRPCService (\<lambda>_. None) demo_exchange ''127.0.0.1:2379'' [0x70, 0x64] 2000000000 =
    Some (case demo_health [0x70, 0x64] of
            None \<Rightarrow> ProbeErr (Errorf ''grpc health check returned status %s: %s'' [''5'', ''unknown service''])
          | Some fs \<Rightarrow>
              if pb_status fs = 1 then ProbeOk
              else ProbeErr (Errorf ''grpc health status is not SERVING (got %d)'' [format_int (pb_status fs)]))"
    by (intro grpc_probe_end_to_end) (auto simp: demo_exchange_def demo_health_def split: if_splits)
  then show ?thesis by (simp add: demo_health_def demo_fields_def)
qed

text \<open>
  C25: the decoder ends without a crash on every frame below 4 GiB, well formed or not, in
  whose message no varint reads as 2^62 or more.
\<close>

theorem parse_terminates_safely:
  assumes "length frame < 2 ^ 32"
    and "lengths_fit (drop 5 (take (5 + unat (of_be32 (take 4 (drop 1 frame)))) frame))"
  shows "\<exists>r. parse_health_status frame = Some r \<and> r \<noteq> Panic"
  using assms by (rule parse_returns)

lemma parse_terminates_safely_witness:
  "\<exists>r. parse_health_status [0, 0, 0, 0, 3, 0x12, 0x05, 0x00] = Some r \<and> r \<noteq> Panic"
  by (rule parse_terminates_safely)
    (simp_all add: of_be32_def lengths_fit_def uvarint_def upt_rec)

text \<open>
  C38: an 11-byte message makes the decoder run for ever, and another makes it crash: a
  length-delimited field whose length exceeds 2^63 moves the index backwards.
\<close>

theorem parse_hostile_frames:
  "parse_health_status (frame_of looping_message) = None
   \<and> parse_health_status (frame_of crashing_message) = Some Panic"
proof -
  have "length looping_message < 2 ^ 32 - 5" and "length crashing_message < 2 ^ 32 - 5"
    by (simp_all add: looping_message_def crashing_message_def)
  then show ?thesis by (simp add: parse_frame_of looping_diverges crashing_panics)
qed

end
