(* ===== verification/Workload_State.thy ===== *)
theory Workload_State
  imports Go_Strings
begin

text \<open>
  The registry of workloads behind the control socket and the verdict of the health-probe
  client, both in main.go. \<^verbatim>\<open>harnessState\<close> is a record with the list of its entries; a
  \<^verbatim>\<open>*workloadState\<close> handle is an index into it, and a method of the handle changes the entry at
  that index. The mutex makes each method one atomic step. Uptimes and backoffs are kept in
  nanoseconds where the snapshot prints seconds, and the JSON encoding between the two
  processes is left out.
\<close>

section \<open>Entries\<close>

datatype healthState = HealthUnknown | HealthHealthy | HealthUnhealthy

fun health_string :: "healthState \<Rightarrow> string" where
  "health_string HealthHealthy = ''healthy''"
| "health_string HealthUnhealthy = ''unhealthy''"
| "health_string HealthUnknown = ''unknown''"

text \<open>What \<^verbatim>\<open>cmd.Wait\<close> reports for a process that did not exit with status 0.\<close>

datatype wait_err = ExitError int string | WaitFailed string

fun err_string :: "wait_err option \<Rightarrow> string" where
  "err_string None = []"
| "err_string (Some (ExitError _ s)) = s"
| "err_string (Some (WaitFailed s)) = s"

fun exit_code_of :: "wait_err option \<Rightarrow> int" where
  "exit_code_of None = 0"
| "exit_code_of (Some (ExitError c _)) = c"
| "exit_code_of (Some (WaitFailed _)) = - 1"

record workloadState =
  w_name :: string
  w_up :: bool
  w_pid :: int
  w_startedAt :: "time option"
  w_lastExitCode :: int
  w_lastExitErr :: string
  w_respawnCount :: nat
  w_maxRetries :: int
  w_currentBackoff :: duration
  w_health :: healthState
  w_consecutiveOK :: nat
  w_consecutiveFail :: nat
  w_lastProbeAt :: "time option"
  w_lastProbeErr :: string

definition new_workload :: "string \<Rightarrow> int \<Rightarrow> workloadState" where
  "new_workload name maxRetries =
     \<lparr>w_name = name, w_up = False, w_pid = 0, w_startedAt = None, w_lastExitCode = 0, w_lastExitErr = [],
      w_respawnCount = 0, w_maxRetries = maxRetries, w_currentBackoff = 0, w_health = HealthUnknown,
      w_consecutiveOK = 0, w_consecutiveFail = 0, w_lastProbeAt = None, w_lastProbeErr = []\<rparr>"

definition setUp :: "time \<Rightarrow> int \<Rightarrow> workloadState \<Rightarrow> workloadState" where
  "setUp now pid w = w\<lparr>w_up := True, w_pid := pid, w_startedAt := Some now, w_currentBackoff := 0\<rparr>"

definition setDown :: "int \<Rightarrow> wait_err option \<Rightarrow> workloadState \<Rightarrow> workloadState" where
  "setDown code err w = w\<lparr>w_up := False, w_pid := 0, w_lastExitCode := code, w_lastExitErr := err_string err\<rparr>"

definition incRespawn :: "duration \<Rightarrow> workloadState \<Rightarrow> workloadState" where
  "incRespawn d w = w\<lparr>w_respawnCount := w_respawnCount w + 1, w_currentBackoff := d\<rparr>"

definition resetRespawn :: "workloadState \<Rightarrow> workloadState" where
  "resetRespawn w = w\<lparr>w_currentBackoff := 0\<rparr>"

definition setHealth :: "time \<Rightarrow> healthState \<Rightarrow> nat \<Rightarrow> nat \<Rightarrow> string \<Rightarrow> workloadState \<Rightarrow> workloadState" where
  "setHealth now hs ok fail err w =
     w\<lparr>w_health := hs, w_consecutiveOK := ok, w_consecutiveFail := fail, w_lastProbeAt := Some now, w_lastProbeErr := err\<rparr>"

section \<open>The registry\<close>

record harnessState =
  h_startedAt :: time
  h_workloads :: "workloadState list"

definition new_harness :: "time \<Rightarrow> harnessState" where
  "new_harness now = \<lparr>h_startedAt = now, h_workloads = []\<rparr>"

definition register :: "string \<Rightarrow> int \<Rightarrow> harnessState \<Rightarrow> nat \<times> harnessState" where
  "register name maxRetries st =
     (let n = length (h_workloads st);
          name = (if name = [] then ''workload-'' @ format_nat n else name)
      in (n, st\<lparr>h_workloads := h_workloads st @ [new_workload name maxRetries]\<rparr>))"

definition on_workload :: "nat \<Rightarrow> (workloadState \<Rightarrow> workloadState) \<Rightarrow> harnessState \<Rightarrow> harnessState" where
  "on_workload i f st =
     (if i < length (h_workloads st) then st\<lparr>h_workloads := (h_workloads st)[i := f (h_workloads st ! i)]\<rparr> else st)"

section \<open>The snapshot\<close>

record workloadSnapshot =
  s_name :: string
  s_up :: bool
  s_pid :: int
  s_startedAt :: "time option"
  s_uptime :: duration
  s_respawnCount :: nat
  s_currentBackoff :: duration
  s_maxRetries :: int
  s_lastExitCode :: int
  s_lastExitError :: string
  s_health :: string
  s_consecutiveOK :: nat
  s_consecutiveFail :: nat
  s_lastProbeAt :: "time option"
  s_lastProbeError :: string

record stateSnapshot =
  snap_running :: bool
  snap_startedAt :: time
  snap_uptime :: duration
  snap_workloads :: "workloadSnapshot list"

definition snapshot_workload :: "time \<Rightarrow> workloadState \<Rightarrow> workloadSnapshot" where
  "snapshot_workload now w =
     \<lparr>s_name = w_name w, s_up = w_up w, s_pid = w_pid w, s_startedAt = w_startedAt w,
      s_uptime = (if w_up w then (case w_startedAt w of None \<Rightarrow> 0 | Some t \<Rightarrow> now - t) else 0),
      s_respawnCount = w_respawnCount w, s_currentBackoff = w_currentBackoff w, s_maxRetries = w_maxRetries w,
      s_lastExitCode = w_lastExitCode w, s_lastExitError = w_lastExitErr w,
      s_health = health_string (w_health w), s_consecutiveOK = w_consecutiveOK w,
      s_consecutiveFail = w_consecutiveFail w, s_lastProbeAt = w_lastProbeAt w,
      s_lastProbeError = w_lastProbeErr w\<rparr>"

definition snapshot :: "time \<Rightarrow> harnessState \<Rightarrow> stateSnapshot" where
  "snapshot now st =
     \<lparr>snap_running = True, snap_startedAt = h_startedAt st, snap_uptime = now - h_startedAt st,
      snap_workloads = map (snapshot_workload now) (h_workloads st)\<rparr>"

section \<open>The health probe\<close>

text \<open>The loop over the decoded snapshot: the first workload that is not fine decides.\<close>

fun probe_workloads :: "workloadSnapshot list \<Rightarrow> go_error option" where
  "probe_workloads [] = None"
| "probe_workloads (w # ws) =
     (if s_health w = ''healthy'' then probe_workloads ws
      else if s_health w = ''unknown'' then
        (if \<not> s_up w then Some (Errorf ''workload %s is not up'' [s_name w]) else probe_workloads ws)
      else Some (Errorf ''workload %s health is %s'' [s_name w, s_health w]))"

definition judge_snapshot :: "stateSnapshot \<Rightarrow> go_error option" where
  "judge_snapshot snap =
     (if snap_workloads snap = [] then Some (Errorf ''no workloads running'' []) else probe_workloads (snap_workloads snap))"

text \<open>
  The client: \<open>fetch\<close> is the request over the control socket (which may fail to connect, or
  while the body is read), \<open>decode\<close> the JSON reader; both are code outside the repository. The
  body it echoes to standard output is the second part.
\<close>

definition run_health_probe ::
  "(string \<Rightarrow> (string go_result) go_result) \<Rightarrow> (string \<Rightarrow> stateSnapshot go_result) \<Rightarrow> string \<Rightarrow> go_error option \<times> string" where
  "run_health_probe fetch decode path =
     (if path = [] then (Some (Errorf ''-control-socket is required for -health-probe'' []), [])
      else case fetch path of
             Inl e \<Rightarrow> (Some (Wrapf ''failed to reach control socket: %w'' [] e), [])
           | Inr (Inl e) \<Rightarrow> (Some (Wrapf ''failed to read control socket response: %w'' [] e), [])
           | Inr (Inr body) \<Rightarrow>
               (case decode body of
                  Inl e \<Rightarrow> (Some (Wrapf ''failed to decode control socket response: %w'' [] e), [])
                | Inr snap \<Rightarrow>
                    (judge_snapshot snap,
                     if body = [] \<or> last body \<noteq> char_of (10 :: nat) then body @ [char_of (10 :: nat)] else body)))"

section \<open>Properties of the registry\<close>

lemmas workload_setters [step_simps] =
  setUp_def setDown_def incRespawn_def resetRespawn_def setHealth_def

lemma on_workload_other: "j \<noteq> i \<Longrightarrow> h_workloads (on_workload i f st) ! j = h_workloads st ! j"
  by (simp add: on_workload_def)

lemma on_workload_same:
  "i < length (h_workloads st) \<Longrightarrow> h_workloads (on_workload i f st) ! i = f (h_workloads st ! i)"
  by (simp add: on_workload_def)

lemma on_workload_length [simp]: "length (h_workloads (on_workload i f st)) = length (h_workloads st)"
  by (simp add: on_workload_def)

text \<open>Methods of different handles commute: supervisors do not disturb each other.\<close>

lemma on_workload_commute:
  "i \<noteq> j \<Longrightarrow> on_workload i f (on_workload j g st) = on_workload j g (on_workload i f st)"
  by (auto simp: on_workload_def list_update_swap)

lemma probe_workloads_ok:
  "probe_workloads ws = None \<longleftrightarrow>
     list_all (\<lambda>w. s_health w = ''healthy'' \<or> (s_health w = ''unknown'' \<and> s_up w)) ws"
  by (induction ws) auto

lemma probe_workloads_append:
  "probe_workloads (xs @ ys) = (case probe_workloads xs of None \<Rightarrow> probe_workloads ys | Some e \<Rightarrow> Some e)"
  by (induction xs) auto

text \<open>The verdict on a live registry, in terms of the entries.\<close>

lemma judge_snapshot_ok:
  "judge_snapshot (snapshot now st) = None \<longleftrightarrow>
     h_workloads st \<noteq> [] \<and>
     list_all (\<lambda>w. w_health w = HealthHealthy \<or> (w_health w = HealthUnknown \<and> w_up w)) (h_workloads st)"
proof -
  have "(s_health (snapshot_workload now w) = ''healthy'' \<or>
      (s_health (snapshot_workload now w) = ''unknown'' \<and> s_up (snapshot_workload now w)))
    = (w_health w = HealthHealthy \<or> (w_health w = HealthUnknown \<and> w_up w))" for w
    by (cases "w_health w") (simp_all add: snapshot_workload_def)
  then show ?thesis
    by (simp add: judge_snapshot_def snapshot_def probe_workloads_ok list.pred_map comp_def)
qed

section \<open>Properties\<close>

text \<open>
  The health probe's verdict. Probing a control socket that serves the registry's own
  snapshot succeeds exactly when at least one workload is registered and each is either
  marked healthy, or of unknown health and up.
\<close>

theorem health_probe_verdict:
  "fst (run_health_probe (\<lambda>_. Inr (Inr body)) (\<lambda>_. Inr (snapshot now st)) path) = None \<longleftrightarrow>
     path \<noteq> [] \<and> h_workloads st \<noteq> []
     \<and> list_all (\<lambda>w. w_health w = HealthHealthy \<or> (w_health w = HealthUnknown \<and> w_up w)) (h_workloads st)"
  by (simp add: run_health_probe_def judge_snapshot_ok)

text \<open>
  A down workload can pass the probe. Once a workload has been marked healthy, its process
  going down does not fail the probe: setDown leaves the health as it was and the probe does
  not look at up when the health is healthy.
\<close>

theorem health_probe_ignores_down:
  "judge_snapshot (snapshot now \<lparr>h_startedAt = t0,
     h_workloads = [setDown code err (setHealth t HealthHealthy 1 0 [] w)]\<rparr>) = None
   \<and> \<not> w_up (setDown code err (setHealth t HealthHealthy 1 0 [] w))"
  by (simp add: judge_snapshot_ok setDown_def setHealth_def)

end
