(* ===== verification/Provider_Types.thy ===== *)
theory Provider_Types
  imports Go_Strings
begin

text \<open>
  The provider-neutral data of internal/provider/discovery.go, identity.go and fleet.go, and
  the kv lease owner derived from an identity.
\<close>

record provider_instance =
  IPv4Addr :: string
  IPv6Addr :: string
  Port :: int

record discover_query =
  q_namespace :: string
  q_service :: string
  q_health :: string

record registration =
  r_namespace :: string
  r_service :: string
  r_address :: string
  r_port :: int

record identity =
  i_provider :: string
  i_id :: string
  i_name :: string
  i_group :: string
  i_service :: string
  i_zone :: string
  i_region :: string
  i_network :: string
  i_ipv4 :: string
  i_ipv6 :: string
  i_createdAt :: string
  i_extra :: "(string \<times> string) list"

record workload_ref =
  wr_group :: string
  wr_name :: string

text \<open>\<^verbatim>\<open>os.Hostname\<close> belongs to the host, so its answer is an argument.\<close>

definition owner_id :: "string go_result \<Rightarrow> identity option \<Rightarrow> string" where
  "owner_id hostname self =
     (case (case self of Some i \<Rightarrow> if i_id i \<noteq> [] then Some (i_id i) else None | None \<Rightarrow> None) of
        Some own \<Rightarrow> own
      | None \<Rightarrow> (case hostname of Inr hn \<Rightarrow> hn | Inl _ \<Rightarrow> []))"

end
