(* ===== verification/Starlark_Convert.thy ===== *)
theory Starlark_Convert
  imports Provider_Types "HOL-Library.AList" Complex_Main
begin

text \<open>
  The boundary between Go and the script: starlark_convert.go and \<^verbatim>\<open>parseResolveResult\<close> of
  starlark_engine.go. A Starlark value is a datatype with the kinds the sources test for; a
  promise and a function are known by their identity. A float is the rational it stands for.
  \<^verbatim>\<open>Int.Int64\<close> of an integer that does not fit is documented as undefined, so it is the
  parameter \<open>inexact\<close>. \<^verbatim>\<open>time.ParseDuration\<close> is part of the model; its fractions are computed
  exactly where Go rounds through a float.
\<close>

section \<open>Values\<close>

datatype sl_value =
    SNone
  | SBool bool
  | SInt int
  | SFloat rat
  | SString string
  | SList "sl_value list"
  | STuple "sl_value list"
  | SDict "(sl_value \<times> sl_value) list"
  | SStruct "(string \<times> sl_value) list"
  | SPromise nat
  | SFunction nat

fun sl_type :: "sl_value \<Rightarrow> string" where
  "sl_type SNone = ''NoneType''"
| "sl_type (SBool _) = ''bool''"
| "sl_type (SInt _) = ''int''"
| "sl_type (SFloat _) = ''float''"
| "sl_type (SString _) = ''string''"
| "sl_type (SList _) = ''list''"
| "sl_type (STuple _) = ''tuple''"
| "sl_type (SDict _) = ''dict''"
| "sl_type (SStruct _) = ''struct''"
| "sl_type (SPromise _) = ''promise''"
| "sl_type (SFunction _) = ''function''"

fun sl_truth :: "sl_value \<Rightarrow> bool" where
  "sl_truth SNone = False"
| "sl_truth (SBool b) = b"
| "sl_truth (SInt i) = (i \<noteq> 0)"
| "sl_truth (SFloat r) = (r \<noteq> 0)"
| "sl_truth (SString s) = (s \<noteq> [])"
| "sl_truth (SList xs) = (xs \<noteq> [])"
| "sl_truth (STuple xs) = (xs \<noteq> [])"
| "sl_truth (SDict kvs) = (kvs \<noteq> [])"
| "sl_truth _ = True"

fun as_string :: "sl_value \<Rightarrow> string option" where
  "as_string (SString s) = Some s"
| "as_string _ = None"

text \<open>\<^verbatim>\<open>starlark.Iterate\<close>: the elements of an iterable, the keys of a dict.\<close>

fun sl_iterate :: "sl_value \<Rightarrow> sl_value list option" where
  "sl_iterate (SList xs) = Some xs"
| "sl_iterate (STuple xs) = Some xs"
| "sl_iterate (SDict kvs) = Some (map fst kvs)"
| "sl_iterate _ = None"

section \<open>Go values for the script\<close>

definition entry_to_starlark :: "provider_instance \<Rightarrow> sl_value" where
  "entry_to_starlark e = SStruct
     [(''ipv4'', SString (IPv4Addr e)), (''ipv6'', SString (IPv6Addr e)), (''port'', SInt (Port e))]"

definition entries_to_starlark :: "provider_instance list \<Rightarrow> sl_value" where
  "entries_to_starlark es = SList (map entry_to_starlark es)"

definition strings_to_starlark :: "string list \<Rightarrow> sl_value" where
  "strings_to_starlark ss = SList (map SString ss)"

definition self_to_starlark :: "identity option \<Rightarrow> sl_value" where
  "self_to_starlark m =
     (case m of
        None \<Rightarrow> SNone
      | Some i \<Rightarrow>
          let fields = [(''id'', SString (i_id i)), (''name'', SString (i_name i)),
                (''group'', SString (i_group i)), (''service'', SString (i_service i)),
                (''zone'', SString (i_zone i)), (''region'', SString (i_region i)),
                (''network'', SString (i_network i)), (''ipv4'', SString (i_ipv4 i)),
                (''ipv6'', SString (i_ipv6 i)), (''created_at'', SString (i_createdAt i))]
          in SStruct
               (if i_extra i \<noteq> [] \<and> i_provider i \<noteq> []
                then AList.update (i_provider i) (SStruct (map (\<lambda>(k, v). (k, SString v)) (i_extra i))) fields
                else fields))"

text \<open>An attribute of a struct.\<close>

fun sl_attr :: "sl_value \<Rightarrow> string \<Rightarrow> sl_value option" where
  "sl_attr (SStruct fs) n = map_of fs n"
| "sl_attr _ n = None"

section \<open>Durations\<close>

definition is_digit :: "char \<Rightarrow> bool" where
  "is_digit c = (digit_val c \<noteq> None)"

fun leading_int :: "nat \<Rightarrow> string \<Rightarrow> (nat \<times> string) option" where
  "leading_int x [] = Some (x, [])"
| "leading_int x (c # cs) =
     (case digit_val c of
        None \<Rightarrow> Some (x, c # cs)
      | Some d \<Rightarrow>
          (if 2 ^ 63 div 10 < x then None
           else let x' = x * 10 + d in if 2 ^ 63 < x' then None else leading_int x' cs))"

text \<open>Digits past the precision of the accumulator are read and dropped.\<close>

fun leading_fraction :: "bool \<Rightarrow> nat \<Rightarrow> nat \<Rightarrow> string \<Rightarrow> nat \<times> nat \<times> string" where
  "leading_fraction ovf x scale [] = (x, scale, [])"
| "leading_fraction ovf x scale (c # cs) =
     (case digit_val c of
        None \<Rightarrow> (x, scale, c # cs)
      | Some d \<Rightarrow>
          (if ovf \<or> (2 ^ 63 - 1) div 10 < x then leading_fraction True x scale cs
           else let y = x * 10 + d
                in if 2 ^ 63 < y then leading_fraction True x scale cs else leading_fraction ovf y (scale * 10) cs))"

fun unit_nanos :: "string \<Rightarrow> nat option" where
  "unit_nanos u =
     (if u = ''ns'' then Some 1
      else if u = ''us'' \<or> u = [char_of (0xC2 :: nat), char_of (0xB5 :: nat), CHR ''s'']
              \<or> u = [char_of (0xCE :: nat), char_of (0xBC :: nat), CHR ''s''] then Some 1000
      else if u = ''ms'' then Some 1000000
      else if u = ''s'' then Some 1000000000
      else if u = ''m'' then Some 60000000000
      else if u = ''h'' then Some 3600000000000
      else None)"

text \<open>The digits of one component: integer part, fraction and its scale, and the rest.\<close>

definition duration_number :: "string \<Rightarrow> (nat \<times> nat \<times> nat \<times> string) option" where
  "duration_number s =
     (case leading_int 0 s of
        None \<Rightarrow> None
      | Some (v, s1) \<Rightarrow>
          let pre = (length s \<noteq> length s1)
          in if s1 \<noteq> [] \<and> hd s1 = CHR ''.''
             then (case leading_fraction False 0 1 (tl s1) of
                     (f, scale, s2) \<Rightarrow>
                       if \<not> pre \<and> \<not> length (tl s1) \<noteq> length s2 then None else Some (v, f, scale, s2))
             else if \<not> pre then None else Some (v, 0, 1, s1))"

text \<open>One component with its unit: its nanoseconds and the rest of the string.\<close>

definition unit_stop :: "char \<Rightarrow> bool" where
  "unit_stop c = (c = CHR ''.'' \<or> is_digit c)"

definition duration_part :: "string \<Rightarrow> (nat \<times> string) option" where
  "duration_part s =
     (if s = [] \<or> \<not> unit_stop (hd s) then None
      else case duration_number s of
        None \<Rightarrow> None
      | Some (v, f, scale, s2) \<Rightarrow>
          let u = takeWhile (\<lambda>c. \<not> unit_stop c) s2; rest = dropWhile (\<lambda>c. \<not> unit_stop c) s2
          in if u = [] then None
             else case unit_nanos u of
                    None \<Rightarrow> None
                  | Some unit \<Rightarrow>
                      (if 2 ^ 63 div unit < v then None
                       else let v = v * unit; v' = (if 0 < f then v + f * unit div scale else v)
                            in if 0 < f \<and> 2 ^ 63 < v' then None else Some (v', rest)))"

lemma leading_int_length: "leading_int x s = Some (v, r) \<Longrightarrow> length r \<le> length s"
  by (induction x s rule: leading_int.induct) (auto simp: Let_def split: option.splits if_splits intro: le_SucI)

lemma leading_fraction_length: "leading_fraction o' x sc s = (v, k, r) \<Longrightarrow> length r \<le> length s"
  by (induction o' x sc s rule: leading_fraction.induct)
    (auto simp: Let_def le_Suc_eq split: option.splits if_splits)

lemma takeWhile_dropWhile_shorter: "takeWhile P s \<noteq> [] \<Longrightarrow> length (dropWhile P s) < length s"
  using takeWhile_dropWhile_id [of P s] by (metis length_append length_greater_0_conv less_add_same_cancel2)

lemma duration_number_length: "duration_number s = Some (v, f, k, r) \<Longrightarrow> length r \<le> length s"
proof -
  assume "duration_number s = Some (v, f, k, r)"
  then obtain v' s1 where s1: "leading_int 0 s = Some (v', s1)"
    and r: "r = s1 \<or> (\<exists>f' k'. leading_fraction False 0 1 (tl s1) = (f', k', r))"
    by (auto simp: duration_number_def Let_def split: option.splits if_splits prod.splits)
  from leading_int_length [OF s1] have l: "length s1 \<le> length s" .
  from r show ?thesis
  proof
    assume "r = s1"
    with l show ?thesis by simp
  next
    assume "\<exists>f' k'. leading_fraction False 0 1 (tl s1) = (f', k', r)"
    then have "length r \<le> length (tl s1)" by (auto dest: leading_fraction_length)
    with l show ?thesis by simp
  qed
qed

lemma duration_part_length:
  assumes "duration_part s = Some (v, r)"
  shows "length r < length s"
proof -
  from assms obtain v' f k s2 where s2: "duration_number s = Some (v', f, k, s2)"
    and u: "takeWhile (\<lambda>c. \<not> unit_stop c) s2 \<noteq> []" and r: "r = dropWhile (\<lambda>c. \<not> unit_stop c) s2"
    unfolding duration_part_def Let_def by (auto split: option.splits if_splits prod.splits)
  from duration_number_length [OF s2] takeWhile_dropWhile_shorter [OF u] r show ?thesis by simp
qed

function duration_sum :: "nat \<Rightarrow> string \<Rightarrow> nat option" where
  "duration_sum d s =
     (if s = [] then Some d
      else case duration_part s of
        None \<Rightarrow> None
      | Some (v, rest) \<Rightarrow> (if 2 ^ 63 < d + v then None else duration_sum (d + v) rest))"
  by pat_completeness auto
termination by (relation "measure (length \<circ> snd)") (auto dest: duration_part_length)

declare duration_sum.simps [simp del]

definition parse_duration :: "string \<Rightarrow> duration option" where
  "parse_duration s =
     (let (neg, body) = (case s of [] \<Rightarrow> (False, [])
            | c # cs \<Rightarrow> if c = CHR ''-'' then (True, cs) else if c = CHR ''+'' then (False, cs) else (False, s))
      in if body = ''0'' then Some 0
         else if body = [] then None
         else case duration_sum 0 body of
                None \<Rightarrow> None
              | Some d \<Rightarrow> (if neg then Some (- int d) else if 2 ^ 63 - 1 < d then None else Some (int d)))"

definition int64_of :: "(int \<Rightarrow> int) \<Rightarrow> int \<Rightarrow> int" where
  "int64_of inexact i = (if - (2 ^ 63) \<le> i \<and> i < 2 ^ 63 then i else inexact i)"

fun unpack_duration :: "(int \<Rightarrow> int) \<Rightarrow> sl_value \<Rightarrow> duration go_result" where
  "unpack_duration inexact SNone = Inr 0"
| "unpack_duration inexact (SString s) =
     (case parse_duration s of
        None \<Rightarrow> Inl (Wrapf ''invalid duration %q: %w'' [s] (External ''time: invalid duration''))
      | Some d \<Rightarrow> Inr d)"
| "unpack_duration inexact (SInt i) = Inr (wrap64 (int64_of inexact i * second))"
| "unpack_duration inexact (SFloat r) =
     (let x = r * of_int second in Inr (if 0 \<le> x then floor x else - floor (- x)))"
| "unpack_duration inexact v = Inl (Errorf ''expected duration (number of seconds or string), got %s'' [sl_type v])"

definition unpack_poll_interval :: "(int \<Rightarrow> int) \<Rightarrow> sl_value \<Rightarrow> duration go_result" where
  "unpack_poll_interval inexact v =
     (if v = SNone then Inr second
      else case unpack_duration inexact v of
             Inl e \<Rightarrow> Inl e
           | Inr d \<Rightarrow> (if d \<le> 0 then Inl (Errorf ''interval must be positive'' []) else Inr d))"

definition starlark_as_int :: "(int \<Rightarrow> int) \<Rightarrow> sl_value \<Rightarrow> int go_result" where
  "starlark_as_int inexact v =
     (case v of SInt i \<Rightarrow> Inr (int64_of inexact i) | _ \<Rightarrow> Inl (Errorf ''expected int, got %s'' [sl_type v]))"

text \<open>\<open>to_float\<close> is Go's conversion of an int64, which rounds beyond 53 bits.\<close>

definition starlark_as_float :: "(int \<Rightarrow> int) \<Rightarrow> (int \<Rightarrow> rat) \<Rightarrow> sl_value \<Rightarrow> rat go_result" where
  "starlark_as_float inexact to_float v =
     (case v of
        SFloat x \<Rightarrow> Inr x
      | SInt i \<Rightarrow> Inr (to_float (int64_of inexact i))
      | _ \<Rightarrow> Inl (Errorf ''expected number, got %s'' [sl_type v]))"

section \<open>Strings and environments from the script\<close>

fun strings_of :: "sl_value list \<Rightarrow> string list go_result" where
  "strings_of [] = Inr []"
| "strings_of (x # xs) =
     (case as_string x of
        None \<Rightarrow> Inl (Errorf ''expected string element, got %s'' [sl_type x])
      | Some s \<Rightarrow> (case strings_of xs of Inl e \<Rightarrow> Inl e | Inr ss \<Rightarrow> Inr (s # ss)))"

definition starlark_to_strings :: "sl_value \<Rightarrow> string list go_result" where
  "starlark_to_strings v =
     (case sl_iterate v of
        None \<Rightarrow> Inl (Errorf ''expected an iterable of strings, got %s'' [sl_type v])
      | Some xs \<Rightarrow> strings_of xs)"

fun env_of :: "(sl_value \<times> sl_value) list \<Rightarrow> string list go_result" where
  "env_of [] = Inr []"
| "env_of ((k, v) # kvs) =
     (case as_string k of
        None \<Rightarrow> Inl (Errorf ''env key must be a string, got %s'' [sl_type k])
      | Some name \<Rightarrow>
          (case as_string v of
             None \<Rightarrow> Inl (Errorf ''env value for %q must be a string, got %s'' [name, sl_type v])
           | Some val \<Rightarrow>
               (case env_of kvs of Inl e \<Rightarrow> Inl e | Inr es \<Rightarrow> Inr ((name @ ''='' @ val) # es))))"

definition starlark_dict_to_env :: "sl_value \<Rightarrow> string list go_result" where
  "starlark_dict_to_env v =
     (case v of
        SDict kvs \<Rightarrow> env_of kvs
      | _ \<Rightarrow> Inl (Errorf ''env must be a dict, got %s'' [sl_type v]))"

definition quoted :: "string \<Rightarrow> string" where
  "quoted s = [char_of (39 :: nat)] @ s @ [char_of (39 :: nat)]"

definition resolve_env :: "(sl_value \<times> sl_value) list \<Rightarrow> string list go_result" where
  "resolve_env kvs =
     (case map_of kvs (SString ''env'') of
        None \<Rightarrow> Inr []
      | Some envVal \<Rightarrow> (if envVal = SNone then Inr [] else starlark_dict_to_env envVal))"

definition parse_resolve_result :: "sl_value \<Rightarrow> (string list \<times> string list) go_result" where
  "parse_resolve_result v =
     (case v of
        SDict kvs \<Rightarrow>
          (case map_of kvs (SString ''argv'') of
             None \<Rightarrow> Inl (Errorf (''resolve(): result dict must contain '' @ quoted ''argv'') [])
           | Some argvVal \<Rightarrow>
               (case starlark_to_strings argvVal of
                  Inl e \<Rightarrow> Inl (Wrapf ''resolve(): argv: %w'' [] e)
                | Inr argv \<Rightarrow>
                    (case resolve_env kvs of
                       Inl e \<Rightarrow> Inl (Wrapf ''resolve(): env: %w'' [] e)
                     | Inr env \<Rightarrow>
                         (if argv = [] then Inl (Errorf ''resolve(): argv must be non-empty'' [])
                          else Inr (argv, env)))))
      | _ \<Rightarrow>
          (case v of
             SList _ \<Rightarrow>
               (case starlark_to_strings v of
                  Inl e \<Rightarrow> Inl e
                | Inr argv \<Rightarrow> (if argv = [] then Inl (Errorf ''resolve(): argv must be non-empty'' []) else Inr (argv, [])))
           | STuple _ \<Rightarrow>
               (case starlark_to_strings v of
                  Inl e \<Rightarrow> Inl e
                | Inr argv \<Rightarrow> (if argv = [] then Inl (Errorf ''resolve(): argv must be non-empty'' []) else Inr (argv, [])))
           | _ \<Rightarrow> Inl (Errorf ''resolve() must return a dict{argv,env} or a list of argv strings, got %s'' [sl_type v])))"

section \<open>What the conversions guarantee\<close>

lemma as_string_Some: "as_string v = Some s \<longleftrightarrow> v = SString s"
  by (cases v) auto

lemma map_SString_eq [simp]: "map SString xs = map SString ys \<longleftrightarrow> xs = ys"
  by (rule inj_map_eq_map) (simp add: inj_def)

lemma map_SString_pairs_eq [simp]:
  "map (\<lambda>(k, v). (SString k, SString v)) ps = map (\<lambda>(k, v). (SString k, SString v)) qs \<longleftrightarrow> ps = qs"
  by (rule inj_map_eq_map) (auto simp: inj_def)

lemma strings_of_map [simp]: "strings_of (map SString ss) = Inr ss"
  by (induction ss) auto

lemma strings_of_iff: "strings_of xs = Inr ss \<longleftrightarrow> xs = map SString ss"
proof
  show "strings_of xs = Inr ss \<Longrightarrow> xs = map SString ss"
    by (induction xs arbitrary: ss) (auto simp: as_string_Some split: option.splits sum.splits)
qed simp

lemma starlark_strings_roundtrip: "starlark_to_strings (strings_to_starlark ss) = Inr ss"
  by (simp add: starlark_to_strings_def strings_to_starlark_def strings_of_iff)

lemma env_of_map [simp]:
  "env_of (map (\<lambda>(k, v). (SString k, SString v)) ps) = Inr (map (\<lambda>(k, v). k @ ''='' @ v) ps)"
  by (induction ps) auto

lemma env_of_InrD:
  "env_of kvs = Inr es \<Longrightarrow> \<exists>ps. kvs = map (\<lambda>(k, v). (SString k, SString v)) ps"
proof (induction kvs arbitrary: es)
  case (Cons kv kvs)
  obtain k v where kv: "kv = (k, v)" by (cases kv)
  from Cons.prems kv obtain n w es' where "k = SString n" "v = SString w" "env_of kvs = Inr es'"
    by (auto simp: as_string_Some split: option.splits sum.splits)
  moreover from this Cons.IH obtain ps where "kvs = map (\<lambda>(k, v). (SString k, SString v)) ps" by blast
  ultimately show ?case using kv by (intro exI [of _ "(n, w) # ps"]) simp
qed simp

lemma env_of_iff:
  "env_of kvs = Inr es \<longleftrightarrow>
     (\<exists>ps. kvs = map (\<lambda>(k, v). (SString k, SString v)) ps \<and> es = map (\<lambda>(k, v). k @ ''='' @ v) ps)"
  using env_of_InrD [of kvs es] by auto

text \<open>A command a script can hand over: a non-empty list of strings, with an environment in a dict.\<close>

definition command_value :: "sl_value \<Rightarrow> string list \<Rightarrow> string list \<Rightarrow> bool" where
  "command_value v argv env \<longleftrightarrow>
     ((v = SList (map SString argv) \<or> v = STuple (map SString argv)) \<and> env = [])
     \<or> (\<exists>kvs av. v = SDict kvs \<and> map_of kvs (SString ''argv'') = Some av \<and> sl_iterate av = Some (map SString argv)
         \<and> ((env = [] \<and> map_of kvs (SString ''env'') \<in> {None, Some SNone})
            \<or> (\<exists>ps. map_of kvs (SString ''env'') = Some (SDict (map (\<lambda>(k, v). (SString k, SString v)) ps))
                 \<and> env = map (\<lambda>(k, v). k @ ''='' @ v) ps)))"

lemma starlark_to_strings_iff: "starlark_to_strings v = Inr ss \<longleftrightarrow> sl_iterate v = Some (map SString ss)"
  by (auto simp: starlark_to_strings_def strings_of_iff split: option.splits)

lemma dict_to_env_iff:
  "starlark_dict_to_env v = Inr es \<longleftrightarrow>
     (\<exists>ps. v = SDict (map (\<lambda>(k, v). (SString k, SString v)) ps) \<and> es = map (\<lambda>(k, v). k @ ''='' @ v) ps)"
  by (cases v) (auto simp: starlark_dict_to_env_def env_of_iff)

lemma resolve_dict_iff:
  "parse_resolve_result (SDict kvs) = Inr (argv, env) \<longleftrightarrow> argv \<noteq> [] \<and> command_value (SDict kvs) argv env"
proof (cases "map_of kvs (SString ''argv'')")
  case None
  then show ?thesis by (simp add: parse_resolve_result_def command_value_def)
next
  case (Some av)
  have env_ok: "resolve_env kvs = Inr env \<longleftrightarrow> (env = [] \<and> map_of kvs (SString ''env'') \<in> {None, Some SNone})
      \<or> (\<exists>ps. map_of kvs (SString ''env'') = Some (SDict (map (\<lambda>(k, v). (SString k, SString v)) ps))
           \<and> env = map (\<lambda>(k, v). k @ ''='' @ v) ps)"
    by (auto simp: resolve_env_def dict_to_env_iff split: option.splits)
  have res: "parse_resolve_result (SDict kvs) = (case starlark_to_strings av of
      Inl e \<Rightarrow> Inl (Wrapf ''resolve(): argv: %w'' [] e)
    | Inr argv \<Rightarrow> (case resolve_env kvs of Inl e \<Rightarrow> Inl (Wrapf ''resolve(): env: %w'' [] e)
        | Inr env \<Rightarrow> if argv = [] then Inl (Errorf ''resolve(): argv must be non-empty'' []) else Inr (argv, env)))"
    by (simp add: parse_resolve_result_def Some)
  have "parse_resolve_result (SDict kvs) = Inr (argv, env)
      \<longleftrightarrow> argv \<noteq> [] \<and> starlark_to_strings av = Inr argv \<and> resolve_env kvs = Inr env"
    unfolding res by (auto split: sum.splits)
  then show ?thesis
    unfolding env_ok starlark_to_strings_iff by (auto simp: command_value_def Some)
qed

lemma resolve_iff:
  "parse_resolve_result v = Inr (argv, env) \<longleftrightarrow> argv \<noteq> [] \<and> command_value v argv env"
proof (cases v)
  case (SDict kvs)
  then show ?thesis using resolve_dict_iff by simp
next
  case (SList xs)
  then have "parse_resolve_result v = Inr (argv, env) \<longleftrightarrow> strings_of xs = Inr argv \<and> argv \<noteq> [] \<and> env = []"
    by (auto simp: parse_resolve_result_def starlark_to_strings_def split: sum.splits if_splits)
  then show ?thesis using SList by (auto simp: command_value_def strings_of_iff)
next
  case (STuple xs)
  then have "parse_resolve_result v = Inr (argv, env) \<longleftrightarrow> strings_of xs = Inr argv \<and> argv \<noteq> [] \<and> env = []"
    by (auto simp: parse_resolve_result_def starlark_to_strings_def split: sum.splits if_splits)
  then show ?thesis using STuple by (auto simp: command_value_def strings_of_iff)
qed (simp_all add: parse_resolve_result_def command_value_def)

section \<open>Durations read back\<close>

lemma is_digit_format_nat: "c \<in> set (format_nat n) \<Longrightarrow> is_digit c"
proof (induction n rule: format_nat.induct)
  case (1 n)
  then show ?case
    by (cases "n < 10") (auto simp: format_nat.simps [of n] is_digit_def)
qed

lemma leading_int_snoc:
  "leading_int x ds = Some (v, []) \<Longrightarrow> d < 10 \<Longrightarrow> v \<le> 2 ^ 63 div 10 \<Longrightarrow> v * 10 + d \<le> 2 ^ 63 \<Longrightarrow>
   leading_int x (ds @ [digit_char d]) = Some (v * 10 + d, [])"
  by (induction x ds rule: leading_int.induct) (auto simp: Let_def not_less split: option.splits if_splits)

lemma leading_int_format_nat: "n \<le> 2 ^ 63 \<Longrightarrow> leading_int 0 (format_nat n) = Some (n, [])"
proof (induction n rule: format_nat.induct)
  case (1 n)
  show ?case
  proof (cases "n < 10")
    case True
    then show ?thesis by (simp add: format_nat.simps [of n])
  next
    case False
    with 1 have "leading_int 0 (format_nat (n div 10)) = Some (n div 10, [])" by simp
    from leading_int_snoc [OF this, of "n mod 10"] 1(2) False show ?thesis
      by (simp add: format_nat.simps [of n] div_le_mono)
  qed
qed

lemma leading_int_stop:
  "leading_int x ds = Some (v, []) \<Longrightarrow> rest = [] \<or> digit_val (hd rest) = None \<Longrightarrow>
   leading_int x (ds @ rest) = Some (v, rest)"
proof (induction x ds rule: leading_int.induct)
  case (1 x)
  then show ?case by (cases rest) auto
qed (auto simp: Let_def split: option.splits if_splits)

text \<open>A whole number of a unit is read as written, when it fits a duration.\<close>

lemma parse_duration_unit:
  assumes "unit_nanos u = Some k" and "u \<in> {''ns'', ''us'', ''ms'', ''s'', ''m'', ''h''}" and "n * k < 2 ^ 63"
  shows "parse_duration (format_nat n @ u) = Some (int (n * k))"
proof -
  have k: "0 < k" and kk: "n \<le> n * k" using assms(1,2) by (auto split: if_splits)
  have stop: "u \<noteq> []" "digit_val (hd u) = None" "list_all (\<lambda>c. \<not> unit_stop c) u"
    "hd u \<noteq> CHR ''.''"
    using assms(2) by (auto simp: digit_val_def unit_stop_def is_digit_def)
  obtain c cs where f: "format_nat n = c # cs" by (cases "format_nat n") auto
  have c: "is_digit c" using is_digit_format_nat [of c n] f by simp
  then have nosign: "c \<noteq> CHR ''-''" "c \<noteq> CHR ''+''" by (auto simp: is_digit_def)
  have li: "leading_int 0 (format_nat n @ u) = Some (n, u)"
  proof (rule leading_int_stop [OF leading_int_format_nat])
    show "n \<le> 2 ^ 63" using kk assms(3) by (meson le_less_trans less_imp_le)
  qed (simp add: stop)
  have num: "duration_number (format_nat n @ u) = Some (n, 0, 1, u)"
    using li stop by (simp add: duration_number_def)
  have tw: "takeWhile (\<lambda>c. \<not> unit_stop c) u = u" "dropWhile (\<lambda>c. \<not> unit_stop c) u = []"
    using stop(3) by (simp_all add: takeWhile_eq_all_conv dropWhile_eq_Nil_conv list_all_iff)
  have "\<not> 2 ^ 63 div k < n"
    using assms(3) k by (metis div_le_mono less_imp_le nonzero_mult_div_cancel_right not_less neq0_conv)
  moreover have "format_nat n @ u \<noteq> []" and "unit_stop (hd (format_nat n @ u))"
    using c f by (simp_all add: unit_stop_def)
  ultimately have part: "duration_part (format_nat n @ u) = Some (n * k, [])"
    unfolding duration_part_def num option.case prod.case Let_def tw using stop(1) assms(1)
    by (simp del: unit_nanos.simps)
  have "duration_sum 0 (format_nat n @ u) = Some (n * k)"
    using part assms(3) stop(1) by (simp add: duration_sum.simps)
  moreover have "format_nat n @ u \<noteq> ''0''"
  proof
    assume "format_nat n @ u = ''0''"
    then have "length (format_nat n) + length u = 1" by (metis length_append length_Cons list.size(3) One_nat_def)
    then show False using f stop(1) by (cases u) auto
  qed
  ultimately show ?thesis
    using f nosign assms(3) stop(1) by (auto simp: parse_duration_def)
qed

lemma unpack_duration_int:
  assumes "\<bar>i\<bar> \<le> 9223372036"
  shows "unpack_duration inexact (SInt i) = Inr (i * second)"
proof -
  have "- (2 ^ 63) \<le> i * second \<and> i * second < 2 ^ 63" using assms by (simp add: abs_le_iff)
  with assms show ?thesis by (simp add: int64_of_def wrap64_id abs_le_iff)
qed

section \<open>Properties\<close>

text \<open>
  C29: what resolve() may return. The command is accepted, and is argv with env, exactly when
  the script returned a non-empty list or tuple of strings (no environment), or a dict whose
  'argv' is a non-empty iterable of strings and whose 'env' is missing, None or a dict of
  strings to strings, each of which becomes NAME=VALUE in order. An env with a value that is not
  a string, a number say, is rejected, although the comment on starlarkDictToEnv says that values
  are coerced to strings.
\<close>

theorem resolve_result_accepted:
  "parse_resolve_result v = Inr (argv, env) \<longleftrightarrow> argv \<noteq> [] \<and> command_value v argv env"
  by (rule resolve_iff)

text \<open>
  Duration strings. A whole number followed by one of Go's units reads as that many
  nanoseconds whenever the product fits a duration.
\<close>

theorem duration_string_read:
  assumes "unit_nanos u = Some k" and "u \<in> {''ns'', ''us'', ''ms'', ''s'', ''m'', ''h''}" and "n * k < 2 ^ 63"
  shows "unpack_duration inexact (SString (format_nat n @ u)) = Inr (int (n * k))"
  using parse_duration_unit [OF assms] by simp

lemma duration_string_read_witness:
  "unpack_duration (\<lambda>i. i) (SString (format_nat 500 @ ''ms'')) = Inr 500000000"
  using duration_string_read [of "''ms''" 1000000 500 "\<lambda>i. i"] by simp

text \<open>
  Integer durations are seconds, up to 292 years either way; one more second wraps to a
  negative duration that nothing downstream of it rejects as out of range.
\<close>

theorem duration_int_read:
  "(\<bar>i\<bar> \<le> 9223372036 \<longrightarrow> unpack_duration inexact (SInt i) = Inr (i * second))
   \<and> unpack_duration inexact (SInt 9223372037) = Inr (- 9223372036709551616)"
  using unpack_duration_int [of i inexact] by (auto simp: int64_of_def wrap64_def)

lemma duration_int_read_witness: "unpack_duration (\<lambda>i. i) (SInt 30) = Inr (30 * second)"
  using duration_int_read [of 30 "\<lambda>i. i"] by simp

end
