(* ===== verification/Supervisor.thy ===== *)
theory Supervisor
  imports Starlark_Convert Workload_State
begin

text \<open>
  The supervisor of spawn.go. One trip through the loop of \<^verbatim>\<open>loop\<close> is a function
  \<open>sv_attempt\<close> of everything the trip learns from outside (an \<open>attempt\<close>: what resolve()
  returned, how the process ended, whether the context was done at each point where the code
  asks), of the supervisor's settings and of its state. It returns whether the loop ends and
  with what, the new state, and the actions taken in order, so that the processes and hooks
  of a run can be counted. \<open>sv_loop\<close> is the loop over a sequence of attempts. The exponential
  backoff is a library, known by two parameters: \<open>bo_next\<close> (\<^verbatim>\<open>NextBackOff\<close>, \<open>None\<close> for
  \<^verbatim>\<open>backoff.Stop\<close>) and \<open>bo_reset\<close>.
\<close>

section \<open>Settings, state, actions\<close>

record spawnConfig =
  respawnEnabled :: bool
  respawnKeepAlive :: bool
  respawnMaxRetries :: int
  respawnInitialInterval :: duration
  respawnMaxInterval :: duration
  respawnMultiplier :: rat
  respawnResetAfter :: duration
  shutdownGrace :: duration
  preStopTimeout :: duration
  resolveTimeout :: duration
  resolveFailure :: string
  restartOnLiveness :: bool

definition defaultSpawnConfig :: spawnConfig where
  "defaultSpawnConfig =
     \<lparr>respawnEnabled = False, respawnKeepAlive = False, respawnMaxRetries = 5,
      respawnInitialInterval = second, respawnMaxInterval = 60 * second, respawnMultiplier = 2,
      respawnResetAfter = 30 * second, shutdownGrace = 10 * second, preStopTimeout = 0,
      resolveTimeout = 0, resolveFailure = ''retry'', restartOnLiveness = True\<rparr>"

text \<open>Which of the script's optional callbacks were passed.\<close>

record supervisor =
  sv_cfg :: spawnConfig
  sv_preStart :: bool
  sv_postStart :: bool
  sv_preStop :: bool
  sv_postStop :: bool
  sv_readiness :: bool
  sv_liveness :: bool

record 'b sv_state =
  v_attempts :: int
  v_bo :: 'b
  v_w :: workloadState

record exit_struct =
  ex_code :: int
  ex_respawn_count :: int
  ex_reason :: string

datatype sv_action =
    DoResolve
  | DoPreStart
  | DoStart int "string list" "string list"
  | DoPostStart
  | DoPreStop bool
  | DoSigterm
  | DoKill
  | DoReap "wait_err option"
  | DoPostStop bool
  | DoBackoff duration

datatype sv_outcome = Finished "exit_struct go_result" | Again

datatype sv_event = CtxDone | ReadinessFailed | LivenessLost | ProcessExited "wait_err option"

section \<open>The watchers\<close>

text \<open>
  How a factory and the promise it returned went: an error of the factory itself (or of a
  value that is no promise), an error of the await (a rejection, or the attempt's teardown),
  or the value the promise settled with.
\<close>

datatype watch_in = FactoryError go_error | AwaitError go_error | Settled sl_value

definition callFactory :: "sl_value go_result \<Rightarrow> (nat \<Rightarrow> sl_value go_result) \<Rightarrow> watch_in" where
  "callFactory invoked await =
     (case invoked of
        Inl e \<Rightarrow> FactoryError e
      | Inr v \<Rightarrow>
          (case v of
             SPromise p \<Rightarrow> (case await p of Inl e \<Rightarrow> AwaitError e | Inr r \<Rightarrow> Settled r)
           | _ \<Rightarrow> FactoryError (Errorf ''readiness/liveness must return a promise, got %s'' [sl_type v])))"

text \<open>The workload afterwards, and whether a restart was requested.\<close>

definition watchReadiness :: "time \<Rightarrow> bool \<Rightarrow> watch_in \<Rightarrow> workloadState \<Rightarrow> workloadState \<times> bool" where
  "watchReadiness now ctx_err r w =
     (case r of
        FactoryError _ \<Rightarrow> (w, \<not> ctx_err)
      | AwaitError _ \<Rightarrow> (w, False)
      | Settled v \<Rightarrow> (if sl_truth v then (setHealth now HealthHealthy 1 0 [] w, False) else (w, True)))"

definition watchLiveness :: "time \<Rightarrow> bool \<Rightarrow> watch_in \<Rightarrow> workloadState \<Rightarrow> workloadState \<times> bool" where
  "watchLiveness now restart r w =
     (case r of
        FactoryError _ \<Rightarrow> (w, False)
      | AwaitError _ \<Rightarrow> (w, False)
      | Settled v \<Rightarrow> (if \<not> sl_truth v then (w, False) else (setHealth now HealthUnhealthy 0 1 [] w, restart)))"

datatype watch_event = Readiness time bool watch_in | Liveness time watch_in

definition apply_watch :: "spawnConfig \<Rightarrow> watch_event \<Rightarrow> workloadState \<Rightarrow> workloadState" where
  "apply_watch cfg e w =
     (case e of Readiness t c r \<Rightarrow> fst (watchReadiness t c r w)
      | Liveness t r \<Rightarrow> fst (watchLiveness t (restartOnLiveness cfg) r w))"

definition apply_watches :: "spawnConfig \<Rightarrow> watch_event list \<Rightarrow> workloadState \<Rightarrow> workloadState" where
  "apply_watches cfg es w = fold (apply_watch cfg) es w"

section \<open>One attempt\<close>

record attempt =
  a_ctx_top :: bool
  a_resolve :: "sl_value go_result"
  a_ctx_resolve :: bool
  a_look_path :: "string \<Rightarrow> string option"
  a_pre_start :: "go_error option"
  a_ctx_pre :: bool
  a_start :: "int go_result"
  a_started_at :: time
  a_watch :: "watch_event list"
  a_event :: sv_event
  a_wait :: "wait_err option"
  a_killed :: bool
  a_uptime :: duration
  a_ctx_post :: bool
  a_ctx_end :: bool
  a_stop :: bool

text \<open>
  What a stop request changes: the flag \<open>a_stop\<close> is a reading of, and the context the \<open>a_ctx\<close> fields
  are readings of.
\<close>

record sv_flags =
  sf_stop :: bool
  sf_ctx_done :: bool

definition requestStop :: "sv_flags \<Rightarrow> sv_flags" where
  "requestStop f = f\<lparr>sf_stop := True, sf_ctx_done := True\<rparr>"

definition stopReason :: "bool \<Rightarrow> string" where
  "stopReason stop = (if stop then ''signalled'' else ''shutdown'')"

definition exitStruct :: "int \<Rightarrow> int \<Rightarrow> string \<Rightarrow> exit_struct" where
  "exitStruct code n reason = \<lparr>ex_code = code, ex_respawn_count = n, ex_reason = reason\<rparr>"

type_synonym 'b sv_result = "sv_outcome \<times> 'b sv_state \<times> sv_action list"

definition doBackoff :: "('b \<Rightarrow> duration option \<times> 'b) \<Rightarrow> spawnConfig \<Rightarrow> 'b sv_state \<Rightarrow> 'b sv_result" where
  "doBackoff bo_next cfg st =
     (let n = v_attempts st + 1; st = st\<lparr>v_attempts := n\<rparr>
      in if respawnMaxRetries cfg \<noteq> 0 \<and> respawnMaxRetries cfg < n
         then (Finished (Inl ErrRetriesExhausted), st, [])
         else case bo_next (v_bo st) of
                (None, b) \<Rightarrow> (Finished (Inl ErrRetriesExhausted), st\<lparr>v_bo := b\<rparr>, [])
              | (Some d, b) \<Rightarrow> (Again, st\<lparr>v_bo := b, v_w := incRespawn d (v_w st)\<rparr>, [DoBackoff d]))"

definition terminate :: "attempt \<Rightarrow> sv_action list" where
  "terminate a = DoSigterm # (if a_killed a then [DoKill] else []) @ [DoReap (a_wait a)]"

definition preStopHook :: "supervisor \<Rightarrow> bool \<Rightarrow> sv_action list" where
  "preStopHook sv detached = (if sv_preStop sv then [DoPreStop detached] else [])"

definition postStopHook :: "supervisor \<Rightarrow> bool \<Rightarrow> sv_action list" where
  "postStopHook sv detached = (if sv_postStop sv then [DoPostStop detached] else [])"

text \<open>
  After the process is gone, unless the harness was shutting down: \<open>health\<close> is
  \<^verbatim>\<open>healthTriggered\<close>, \<open>werr\<close> what the wait returned.
\<close>

definition sv_exited ::
  "('b \<Rightarrow> duration option \<times> 'b) \<Rightarrow> ('b \<Rightarrow> 'b) \<Rightarrow> supervisor \<Rightarrow> attempt \<Rightarrow> bool \<Rightarrow> wait_err option
    \<Rightarrow> 'b sv_state \<Rightarrow> 'b sv_result" where
  "sv_exited bo_next bo_reset sv a health werr st =
     (let cfg = sv_cfg sv;
          code = exit_code_of werr;
          st = st\<lparr>v_w := setDown code werr (v_w st)\<rparr>;
          post = postStopHook sv (a_ctx_post a)
      in if a_ctx_end a
         then (Finished (Inr (exitStruct code (v_attempts st) (stopReason (a_stop a)))), st, post)
         else let st = (if respawnResetAfter cfg \<le> a_uptime a
                        then st\<lparr>v_bo := bo_reset (v_bo st), v_attempts := 0, v_w := resetRespawn (v_w st)\<rparr>
                        else st)
              in if \<not> health \<and> \<not> respawnEnabled cfg
                 then (Finished (if werr \<noteq> None
                                 then Inl (Wrapf ''failed to run command: %w'' [] (External (err_string werr)))
                                 else Inr (exitStruct code (v_attempts st) ''exited'')), st, post)
                 else if \<not> health \<and> code = 0 \<and> \<not> respawnKeepAlive cfg
                 then (Finished (Inr (exitStruct 0 (v_attempts st) ''exited'')), st, post)
                 else case doBackoff bo_next cfg st of (out, st, acts) \<Rightarrow> (out, st, post @ acts))"

text \<open>
  The watchers run only if the script passed their factories: what the others would have seen does not
  happen, and a channel nobody sends on is never what the select takes. (An input that names such a channel
  is read as the process's own exit, which is then what ends the wait.)
\<close>

definition sv_watched :: "supervisor \<Rightarrow> attempt \<Rightarrow> watch_event list" where
  "sv_watched sv a =
     filter (\<lambda>e. case e of Readiness _ _ _ \<Rightarrow> sv_readiness sv | Liveness _ _ \<Rightarrow> sv_liveness sv) (a_watch a)"

definition sv_selected :: "supervisor \<Rightarrow> attempt \<Rightarrow> sv_event" where
  "sv_selected sv a =
     (case a_event a of
        ReadinessFailed \<Rightarrow> if sv_readiness sv then ReadinessFailed else ProcessExited (a_wait a)
      | LivenessLost \<Rightarrow> if sv_liveness sv then LivenessLost else ProcessExited (a_wait a)
      | e \<Rightarrow> e)"

definition sv_running ::
  "('b \<Rightarrow> duration option \<times> 'b) \<Rightarrow> ('b \<Rightarrow> 'b) \<Rightarrow> supervisor \<Rightarrow> attempt \<Rightarrow> int \<Rightarrow> 'b sv_state \<Rightarrow> 'b sv_result" where
  "sv_running bo_next bo_reset sv a pid st =
     (let st = st\<lparr>v_w := apply_watches (sv_cfg sv) (sv_watched sv a) (setUp (a_started_at a) pid (v_w st))\<rparr>;
          started = (if sv_postStart sv then [DoPostStart] else []);
          after = (\<lambda>acts res. case res of (out, st, acts') \<Rightarrow> (out, st, started @ acts @ acts'))
      in case sv_selected sv a of
           CtxDone \<Rightarrow>
             let code = exit_code_of (a_wait a)
             in (Finished (Inr (exitStruct code (v_attempts st) (stopReason (a_stop a)))),
                 st\<lparr>v_w := setDown code (a_wait a) (v_w st)\<rparr>,
                 started @ preStopHook sv True @ terminate a @ postStopHook sv True)
         | ReadinessFailed \<Rightarrow>
             after (preStopHook sv False @ terminate a) (sv_exited bo_next bo_reset sv a True (a_wait a) st)
         | LivenessLost \<Rightarrow>
             after (preStopHook sv False @ terminate a) (sv_exited bo_next bo_reset sv a True (a_wait a) st)
         | ProcessExited werr \<Rightarrow>
             after [DoReap werr] (sv_exited bo_next bo_reset sv a False werr st))"

definition sv_attempt ::
  "('b \<Rightarrow> duration option \<times> 'b) \<Rightarrow> ('b \<Rightarrow> 'b) \<Rightarrow> supervisor \<Rightarrow> attempt \<Rightarrow> 'b sv_state \<Rightarrow> 'b sv_result" where
  "sv_attempt bo_next bo_reset sv a st =
     (let cfg = sv_cfg sv;
          stopped = Finished (Inr (exitStruct 0 (v_attempts st) (stopReason (a_stop a))));
          pre = (if sv_preStart sv then [DoPreStart] else [])
      in if a_ctx_top a then (stopped, st, [])
         else case (case a_resolve a of Inl e \<Rightarrow> Inl e | Inr v \<Rightarrow> parse_resolve_result v) of
           Inl e \<Rightarrow>
             (if a_ctx_resolve a then (stopped, st, [DoResolve])
              else if \<not> respawnEnabled cfg \<or> to_lower (resolveFailure cfg) = ''fail''
              then (Finished (Inl (Wrapf ''resolve failed: %w'' [] e)), st, [DoResolve])
              else case doBackoff bo_next cfg st of (out, st, acts) \<Rightarrow> (out, st, DoResolve # acts))
         | Inr (argv, env) \<Rightarrow>
             (case a_look_path a (hd argv) of
                None \<Rightarrow> (Finished (Inl (Errorf ''command not found: %s'' [hd argv])), st, [DoResolve])
              | Some bin \<Rightarrow>
                  (case (if sv_preStart sv then a_pre_start a else None) of
                     Some e \<Rightarrow>
                       (if a_ctx_pre a then (stopped, st, [DoResolve, DoPreStart])
                        else (Finished (Inl (Wrapf ''pre_start failed: %w'' [] e)), st, [DoResolve, DoPreStart]))
                   | None \<Rightarrow>
                       (case a_start a of
                          Inl e \<Rightarrow> (Finished (Inl (Wrapf ''failed to start command: %w'' [] e)), st, DoResolve # pre)
                        | Inr pid \<Rightarrow>
                            (case sv_running bo_next bo_reset sv a pid st of
                               (out, st, acts) \<Rightarrow>
                                 (out, st, DoResolve # pre @ DoStart pid (bin # tl argv) env # acts))))))"

section \<open>The loop\<close>

text \<open>The loop over the attempts it meets: \<open>None\<close> while it is still going when they run out.\<close>

fun sv_loop ::
  "('b \<Rightarrow> duration option \<times> 'b) \<Rightarrow> ('b \<Rightarrow> 'b) \<Rightarrow> supervisor \<Rightarrow> attempt list \<Rightarrow> 'b sv_state
    \<Rightarrow> (exit_struct go_result) option \<times> 'b sv_state \<times> sv_action list" where
  "sv_loop bo_next bo_reset sv [] st = (None, st, [])"
| "sv_loop bo_next bo_reset sv (a # as) st =
     (case sv_attempt bo_next bo_reset sv a st of
        (Finished r, st, acts) \<Rightarrow> (Some r, st, acts)
      | (Again, st, acts) \<Rightarrow>
          (case sv_loop bo_next bo_reset sv as st of (r, st, acts') \<Rightarrow> (r, st, acts @ acts')))"

definition sv_start :: "('b \<Rightarrow> 'b) \<Rightarrow> 'b \<Rightarrow> workloadState \<Rightarrow> 'b sv_state" where
  "sv_start bo_reset b w = \<lparr>v_attempts = 0, v_bo = bo_reset b, v_w = w\<rparr>"

section \<open>The life cycle of a process\<close>

text \<open>
  The protocol between the supervisor, the process and the hooks, as an automaton on actions:
  a process starts only after a resolve and, if there is one, pre_start; it gets SIGTERM only
  after pre_stop, SIGKILL only after SIGTERM; it is reaped exactly once, then post_stop runs,
  and only then may anything start again.
\<close>

datatype sv_phase =
    PIdle | PResolved | PPrepared | PStarted | PUp | PStopping | PTerminating | PKilled | PReaped | PDown

definition sv_next :: "supervisor \<Rightarrow> sv_phase \<Rightarrow> sv_action \<Rightarrow> sv_phase option" where
  "sv_next sv ph act =
     (case act of
        DoResolve \<Rightarrow> if ph = PIdle then Some PResolved else None
      | DoPreStart \<Rightarrow> if ph = PResolved \<and> sv_preStart sv then Some PPrepared else None
      | DoStart p argv env \<Rightarrow>
          if ph = (if sv_preStart sv then PPrepared else PResolved)
          then Some (if sv_postStart sv then PStarted else PUp) else None
      | DoPostStart \<Rightarrow> if ph = PStarted then Some PUp else None
      | DoPreStop b \<Rightarrow> if ph = PUp \<and> sv_preStop sv then Some PStopping else None
      | DoSigterm \<Rightarrow> if ph = (if sv_preStop sv then PStopping else PUp) then Some PTerminating else None
      | DoKill \<Rightarrow> if ph = PTerminating then Some PKilled else None
      | DoReap e \<Rightarrow>
          if ph \<in> {PUp, PTerminating, PKilled} then Some (if sv_postStop sv then PReaped else PDown) else None
      | DoPostStop b \<Rightarrow> if ph = PReaped then Some PDown else None
      | DoBackoff d \<Rightarrow> if ph \<in> {PResolved, PDown} then Some PIdle else None)"

fun sv_run :: "supervisor \<Rightarrow> sv_phase \<Rightarrow> sv_action list \<Rightarrow> sv_phase option" where
  "sv_run sv ph [] = Some ph"
| "sv_run sv ph (a # as) = (case sv_next sv ph a of None \<Rightarrow> None | Some ph \<Rightarrow> sv_run sv ph as)"

text \<open>No process is left behind in these phases.\<close>

definition sv_resting :: "sv_phase \<Rightarrow> bool" where
  "sv_resting ph = (ph \<in> {PIdle, PResolved, PPrepared, PDown})"

lemma sv_next_simps [step_simps]:
  "sv_next sv ph DoResolve = (if ph = PIdle then Some PResolved else None)"
  "sv_next sv ph DoPreStart = (if ph = PResolved \<and> sv_preStart sv then Some PPrepared else None)"
  "sv_next sv ph (DoStart p argv env) =
     (if ph = (if sv_preStart sv then PPrepared else PResolved)
      then Some (if sv_postStart sv then PStarted else PUp) else None)"
  "sv_next sv ph DoPostStart = (if ph = PStarted then Some PUp else None)"
  "sv_next sv ph (DoPreStop b) = (if ph = PUp \<and> sv_preStop sv then Some PStopping else None)"
  "sv_next sv ph DoSigterm = (if ph = (if sv_preStop sv then PStopping else PUp) then Some PTerminating else None)"
  "sv_next sv ph DoKill = (if ph = PTerminating then Some PKilled else None)"
  "sv_next sv ph (DoReap e) =
     (if ph \<in> {PUp, PTerminating, PKilled} then Some (if sv_postStop sv then PReaped else PDown) else None)"
  "sv_next sv ph (DoPostStop b) = (if ph = PReaped then Some PDown else None)"
  "sv_next sv ph (DoBackoff d) = (if ph \<in> {PResolved, PDown} then Some PIdle else None)"
  by (simp_all add: sv_next_def)

lemma sv_run_append:
  "sv_run sv ph (as @ bs) = (case sv_run sv ph as of None \<Rightarrow> None | Some ph' \<Rightarrow> sv_run sv ph' bs)"
  by (induction as arbitrary: ph) (auto split: option.splits)

text \<open>What a step of the supervisor must do to the phase: end at rest, and idle if the loop goes on.\<close>

definition sv_safe :: "supervisor \<Rightarrow> sv_phase \<Rightarrow> 'b sv_result \<Rightarrow> bool" where
  "sv_safe sv ph res \<longleftrightarrow>
     (case res of (out, st, acts) \<Rightarrow>
        \<exists>ph'. sv_run sv ph acts = Some ph' \<and> sv_resting ph' \<and> (out = Again \<longrightarrow> ph' = PIdle))"

lemma sv_safe_prefix:
  assumes "sv_run sv ph acts = Some ph'" and "sv_safe sv ph' (out, st, acts')"
  shows "sv_safe sv ph (out, st, acts @ acts')"
  using assms by (auto simp: sv_safe_def sv_run_append)

lemma doBackoff_safe:
  "ph \<in> {PResolved, PDown} \<Longrightarrow> sv_safe sv ph (doBackoff bo_next cfg st)"
  by (auto simp: doBackoff_def sv_safe_def sv_resting_def Let_def step_simps split: option.splits prod.splits)

abbreviation sv_reaped :: "supervisor \<Rightarrow> sv_phase" where
  "sv_reaped sv \<equiv> (if sv_postStop sv then PReaped else PDown)"

lemma postStopHook_run: "sv_run sv (sv_reaped sv) (postStopHook sv b) = Some PDown"
  by (simp add: postStopHook_def step_simps)

lemma sv_exited_safe: "sv_safe sv (sv_reaped sv) (sv_exited bo_next bo_reset sv a health werr st)"
proof -
  note post = postStopHook_run [of sv "a_ctx_post a"]
  have end_: "sv_safe sv (sv_reaped sv) (Finished r, st', postStopHook sv (a_ctx_post a))"
    for r and st' :: "'a sv_state"
    using post by (simp add: sv_safe_def sv_resting_def)
  have again: "sv_safe sv (sv_reaped sv)
      (case doBackoff bo_next cfg st' of (out, st, acts) \<Rightarrow> (out, st, postStopHook sv (a_ctx_post a) @ acts))"
    for cfg and st' :: "'a sv_state"
    using sv_safe_prefix [OF post] doBackoff_safe [of PDown sv bo_next cfg st'] by (auto split: prod.splits)
  show ?thesis
    unfolding sv_exited_def Let_def by (rule end_ again | split if_split, intro conjI impI)+
qed

lemma terminate_run:
  "sv_run sv PUp (preStopHook sv b @ terminate a) = Some (sv_reaped sv)"
  by (simp add: preStopHook_def terminate_def sv_run_append step_simps)

lemma sv_running_safe:
  "sv_safe sv (if sv_postStart sv then PStarted else PUp) (sv_running bo_next bo_reset sv a pid st)"
proof -
  let ?st = "st\<lparr>v_w := apply_watches (sv_cfg sv) (sv_watched sv a) (setUp (a_started_at a) pid (v_w st))\<rparr>"
  let ?started = "if sv_postStart sv then [DoPostStart] else []"
  have started: "sv_run sv (if sv_postStart sv then PStarted else PUp) ?started = Some PUp"
    by (simp add: step_simps)
  have health: "sv_safe sv (if sv_postStart sv then PStarted else PUp)
      (case sv_exited bo_next bo_reset sv a h werr ?st of
         (out, st, acts) \<Rightarrow> (out, st, ?started @ mid @ acts))"
    if "sv_run sv PUp mid = Some (sv_reaped sv)" for h werr mid
  proof -
    have pre: "sv_run sv (if sv_postStart sv then PStarted else PUp) (?started @ mid) = Some (sv_reaped sv)"
      by (subst sv_run_append, subst started) (simp only: option.case that)
    obtain out st' acts where res: "sv_exited bo_next bo_reset sv a h werr ?st = (out, st', acts)"
      by (metis prod_cases3)
    from sv_safe_prefix [OF pre] sv_exited_safe [of sv bo_next bo_reset a h werr ?st]
    show ?thesis unfolding res prod.case append_assoc by blast
  qed
  show ?thesis
  proof (cases "sv_selected sv a")
    case CtxDone
    have "sv_run sv (if sv_postStart sv then PStarted else PUp)
        (?started @ (preStopHook sv True @ terminate a) @ postStopHook sv True) = Some PDown"
      by (subst sv_run_append, subst started) (simp only: option.case sv_run_append [of _ _ "preStopHook sv True @ terminate a"]
          terminate_run postStopHook_run)
    with CtxDone show ?thesis by (simp add: sv_running_def Let_def sv_safe_def sv_resting_def)
  next
    case (ProcessExited werr)
    have "sv_run sv PUp [DoReap werr] = Some (sv_reaped sv)" by (simp add: step_simps)
    from health [OF this] ProcessExited show ?thesis by (simp add: sv_running_def Let_def)
  qed (use health [OF terminate_run] in \<open>simp_all add: sv_running_def Let_def\<close>)
qed

lemma sv_attempt_safe: "sv_safe sv PIdle (sv_attempt bo_next bo_reset sv a st)"
proof -
  let ?pre = "if sv_preStart sv then [DoPreStart] else []"
  have resolve: "sv_run sv PIdle [DoResolve] = Some PResolved" by (simp add: step_simps)
  have stop: "sv_safe sv PIdle (Finished r, st', acts)"
    if "acts \<in> {[], [DoResolve], DoResolve # ?pre} \<or> (sv_preStart sv \<and> acts = [DoResolve, DoPreStart])"
    for r and st' :: "'a sv_state" and acts
    using that by (auto simp: sv_safe_def sv_resting_def step_simps)
  have again: "sv_safe sv PIdle (case doBackoff bo_next cfg st of (out, st, acts) \<Rightarrow> (out, st, DoResolve # acts))" for cfg
    using sv_safe_prefix [OF resolve] doBackoff_safe [of PResolved sv bo_next cfg st] by (auto split: prod.splits)
  have started: "sv_run sv PIdle (DoResolve # ?pre @ [DoStart pid argv env])
      = Some (if sv_postStart sv then PStarted else PUp)" for pid argv env
    by (simp add: step_simps)
  have run: "sv_safe sv PIdle (case sv_running bo_next bo_reset sv a pid st of
      (out, st, acts) \<Rightarrow> (out, st, DoResolve # ?pre @ DoStart pid argv env # acts))" for pid argv env
    using sv_safe_prefix [OF started] sv_running_safe [of sv bo_next bo_reset a pid st]
    by (fastforce split: prod.splits)
  show ?thesis
    unfolding sv_attempt_def Let_def
    using stop again run by (auto split: sum.splits option.splits)
qed

text \<open>Every run of the loop follows the life cycle and leaves no process behind.\<close>

lemma sv_loop_safe:
  "sv_loop bo_next bo_reset sv as st = (r, st', acts) \<Longrightarrow>
   \<exists>ph. sv_run sv PIdle acts = Some ph \<and> sv_resting ph"
proof (induction as arbitrary: st r st' acts)
  case Nil
  then show ?case by (simp add: sv_resting_def)
next
  case (Cons a as)
  obtain out st1 acts1 where a: "sv_attempt bo_next bo_reset sv a st = (out, st1, acts1)" by (metis prod_cases3)
  from sv_attempt_safe [of sv bo_next bo_reset a st] a obtain ph where
    ph: "sv_run sv PIdle acts1 = Some ph" "sv_resting ph" "out = Again \<longrightarrow> ph = PIdle"
    by (auto simp: sv_safe_def)
  show ?case
  proof (cases out)
    case (Finished x)
    with Cons.prems a ph show ?thesis by auto
  next
    case Again
    obtain r2 st2 acts2 where l: "sv_loop bo_next bo_reset sv as st1 = (r2, st2, acts2)" by (metis prod_cases3)
    with Cons.prems a Again have "acts = acts1 @ acts2" by simp
    with Cons.IH [OF l] ph Again show ?thesis by (auto simp: sv_run_append)
  qed
qed

section \<open>The workload's entry\<close>

lemma doBackoff_w:
  "doBackoff bo_next cfg st = (out, st', acts) \<Longrightarrow>
   w_up (v_w st') = w_up (v_w st) \<and> w_pid (v_w st') = w_pid (v_w st) \<and> w_health (v_w st') = w_health (v_w st)"
  by (auto simp: doBackoff_def incRespawn_def Let_def split: if_splits option.splits prod.splits)

lemma sv_exited_w:
  "sv_exited bo_next bo_reset sv a h werr st = (out, st', acts) \<Longrightarrow>
   \<not> w_up (v_w st') \<and> w_pid (v_w st') = 0 \<and> w_health (v_w st') = w_health (v_w st)"
  by (auto simp: sv_exited_def Let_def setDown_def resetRespawn_def split: if_splits prod.splits
      dest!: doBackoff_w)

lemma sv_running_w:
  "sv_running bo_next bo_reset sv a pid st = (out, st', acts) \<Longrightarrow>
   \<not> w_up (v_w st') \<and> w_pid (v_w st') = 0
   \<and> w_health (v_w st') = w_health (apply_watches (sv_cfg sv) (sv_watched sv a) (setUp (a_started_at a) pid (v_w st)))"
  by (auto simp: sv_running_def Let_def setDown_def split: sv_event.splits prod.splits dest!: sv_exited_w)

lemma sv_attempt_w:
  assumes "sv_attempt bo_next bo_reset sv a st = (out, st', acts)"
  shows "(\<not> w_up (v_w st) \<and> w_pid (v_w st) = 0 \<longrightarrow> \<not> w_up (v_w st') \<and> w_pid (v_w st') = 0)
    \<and> (w_health (v_w st') = w_health (v_w st)
       \<or> (\<exists>pid. w_health (v_w st') =
             w_health (apply_watches (sv_cfg sv) (sv_watched sv a) (setUp (a_started_at a) pid (v_w st)))))"
  using assms
  by (auto simp: sv_attempt_def Let_def split: if_splits sum.splits option.splits prod.splits
      dest!: doBackoff_w sv_running_w)

lemma sv_loop_down:
  "sv_loop bo_next bo_reset sv as st = (r, st', acts) \<Longrightarrow> \<not> w_up (v_w st) \<and> w_pid (v_w st) = 0 \<Longrightarrow>
   \<not> w_up (v_w st') \<and> w_pid (v_w st') = 0"
proof (induction as arbitrary: st r st' acts)
  case (Cons a as)
  obtain out st1 acts1 where a: "sv_attempt bo_next bo_reset sv a st = (out, st1, acts1)" by (metis prod_cases3)
  from sv_attempt_w [OF a] Cons.prems(2) have down: "\<not> w_up (v_w st1) \<and> w_pid (v_w st1) = 0" by blast
  show ?case
  proof (cases out)
    case (Finished x)
    with Cons.prems(1) a down show ?thesis by simp
  next
    case Again
    obtain r2 st2 acts2 where l: "sv_loop bo_next bo_reset sv as st1 = (r2, st2, acts2)" by (metis prod_cases3)
    with Cons.prems(1) a Again have "st' = st2" by simp
    with Cons.IH [OF l down] show ?thesis by simp
  qed
qed simp

text \<open>Only a readiness promise that settles truthy makes a workload healthy again.\<close>

definition not_ready :: "watch_event \<Rightarrow> bool" where
  "not_ready e = (case e of Liveness _ _ \<Rightarrow> True | Readiness _ _ (Settled v) \<Rightarrow> \<not> sl_truth v | Readiness _ _ _ \<Rightarrow> True)"

definition no_ready :: "attempt \<Rightarrow> bool" where
  "no_ready a = list_all not_ready (a_watch a)"

lemma apply_watches_unhealthy:
  "list_all not_ready es \<Longrightarrow> w_health w = HealthUnhealthy \<Longrightarrow> w_health (apply_watches cfg es w) = HealthUnhealthy"
proof (induction es arbitrary: w)
  case (Cons e es)
  have "w_health (apply_watch cfg e w) = HealthUnhealthy"
    using Cons.prems
    by (auto simp: not_ready_def apply_watch_def watchReadiness_def watchLiveness_def setHealth_def
        split: watch_event.splits watch_in.splits)
  with Cons show ?case by (simp add: apply_watches_def)
qed (simp add: apply_watches_def)

lemma sv_watched_unready: "\<not> sv_readiness sv \<or> no_ready a \<Longrightarrow> list_all not_ready (sv_watched sv a)"
  by (auto simp: sv_watched_def no_ready_def list_all_iff not_ready_def split: watch_event.splits)

lemma sv_loop_unhealthy:
  "sv_loop bo_next bo_reset sv as st = (r, st', acts) \<Longrightarrow> \<not> sv_readiness sv \<or> list_all no_ready as \<Longrightarrow>
   w_health (v_w st) = HealthUnhealthy \<Longrightarrow> w_health (v_w st') = HealthUnhealthy"
proof (induction as arbitrary: st r st' acts)
  case (Cons a as)
  obtain out st1 acts1 where a: "sv_attempt bo_next bo_reset sv a st = (out, st1, acts1)" by (metis prod_cases3)
  have "w_health (apply_watches (sv_cfg sv) (sv_watched sv a) (setUp (a_started_at a) pid (v_w st))) = HealthUnhealthy" for pid
    using Cons.prems(2,3) by (intro apply_watches_unhealthy sv_watched_unready) (auto simp: setUp_def)
  with sv_attempt_w [OF a] Cons.prems(3) have un: "w_health (v_w st1) = HealthUnhealthy" by auto
  show ?case
  proof (cases out)
    case (Finished x)
    with Cons.prems(1) a un show ?thesis by simp
  next
    case Again
    obtain r2 st2 acts2 where l: "sv_loop bo_next bo_reset sv as st1 = (r2, st2, acts2)" by (metis prod_cases3)
    with Cons.prems(1) a Again have "st' = st2" by simp
    with Cons.IH [OF l] Cons.prems(2) un show ?thesis by auto
  qed
qed simp

section \<open>Retries are bounded\<close>

lemma doBackoff_attempts:
  "doBackoff bo_next cfg st = (Again, st', acts) \<Longrightarrow>
   v_attempts st' = v_attempts st + 1 \<and> (respawnMaxRetries cfg \<noteq> 0 \<longrightarrow> v_attempts st' \<le> respawnMaxRetries cfg)"
  by (auto simp: doBackoff_def Let_def split: if_splits option.splits prod.splits)

lemma sv_exited_attempts:
  assumes "sv_exited bo_next bo_reset sv a h werr st = (Again, st', acts)"
  shows "v_attempts st' = (if respawnResetAfter (sv_cfg sv) \<le> a_uptime a then 0 else v_attempts st) + 1
    \<and> (respawnMaxRetries (sv_cfg sv) \<noteq> 0 \<longrightarrow> v_attempts st' \<le> respawnMaxRetries (sv_cfg sv))"
  using assms by (auto simp: sv_exited_def Let_def split: if_splits prod.splits dest!: doBackoff_attempts)

lemma sv_attempt_attempts:
  assumes "sv_attempt bo_next bo_reset sv a st = (Again, st', acts)"
  shows "(v_attempts st' = v_attempts st + 1
       \<or> (respawnResetAfter (sv_cfg sv) \<le> a_uptime a \<and> v_attempts st' = 1))
    \<and> (respawnMaxRetries (sv_cfg sv) \<noteq> 0 \<longrightarrow> v_attempts st' \<le> respawnMaxRetries (sv_cfg sv))"
  using assms
  by (auto simp: sv_attempt_def sv_running_def Let_def split: if_splits sum.splits option.splits prod.splits sv_event.splits
      dest!: doBackoff_attempts sv_exited_attempts)

text \<open>A workload that never stays up long enough is given up after its retries.\<close>

lemma sv_loop_gives_up:
  assumes "list_all (\<lambda>a. a_uptime a < respawnResetAfter (sv_cfg sv)) as"
    and "respawnMaxRetries (sv_cfg sv) \<noteq> 0"
    and "respawnMaxRetries (sv_cfg sv) - v_attempts st < int (length as)"
  shows "fst (sv_loop bo_next bo_reset sv as st) \<noteq> None \<or> (as = [])"
  using assms
proof (induction as arbitrary: st)
  case (Cons a as)
  obtain out st1 acts1 where a: "sv_attempt bo_next bo_reset sv a st = (out, st1, acts1)" by (metis prod_cases3)
  show ?case
  proof (cases out)
    case (Finished x)
    with a show ?thesis by simp
  next
    case Again
    with a have a: "sv_attempt bo_next bo_reset sv a st = (Again, st1, acts1)" by simp
    have n: "v_attempts st1 = v_attempts st + 1" "v_attempts st1 \<le> respawnMaxRetries (sv_cfg sv)"
      using sv_attempt_attempts [OF a] Cons.prems by auto
    with Cons.prems have "as \<noteq> []" by (cases as) auto
    moreover have "fst (sv_loop bo_next bo_reset sv as st1) \<noteq> None \<or> as = []"
      using Cons.prems n by (intro Cons.IH) auto
    ultimately show ?thesis using a by (auto split: prod.splits)
  qed
qed simp

section \<open>Properties\<close>

text \<open>
  C1: process life cycle. Whatever resolve, the hooks, the watchers and the process do, the
  actions of a run follow the protocol: no process starts before it was resolved and prepared
  or while another is alive, pre_stop precedes SIGTERM and SIGTERM precedes SIGKILL, each
  process is reaped exactly once and post_stop follows it; when the loop ends, or wherever
  its attempts run out, no process is left running.
\<close>

theorem supervisor_life_cycle:
  "case sv_loop bo_next bo_reset sv as st of
     (r, st', acts) \<Rightarrow> \<exists>ph. sv_run sv PIdle acts = Some ph \<and> sv_resting ph"
  using sv_loop_safe [of bo_next bo_reset sv as st] by (auto split: prod.splits)

text \<open>
  C23: retries are bounded. With a retry limit m above zero, a workload none of whose attempts
  stays up for reset_after is given up after at most m + 1 attempts: the loop has returned.
\<close>

theorem supervisor_gives_up:
  assumes "list_all (\<lambda>a. a_uptime a < respawnResetAfter (sv_cfg sv)) as"
    and "0 < respawnMaxRetries (sv_cfg sv)" and "respawnMaxRetries (sv_cfg sv) < int (length as)"
  shows "fst (sv_loop bo_next bo_reset sv as (sv_start bo_reset b w)) \<noteq> None"
proof -
  have "as \<noteq> []" using assms(2,3) by auto
  with sv_loop_gives_up [OF assms(1), of "sv_start bo_reset b w" bo_next bo_reset] assms(2,3)
  show ?thesis by (simp add: sv_start_def)
qed

definition demo_attempt :: attempt where
  "demo_attempt =
     \<lparr>a_ctx_top = False, a_resolve = Inr (SList [SString ''tikv-server'']), a_ctx_resolve = False,
      a_look_path = (\<lambda>b. Some (''/bin/'' @ b)), a_pre_start = None, a_ctx_pre = False, a_start = Inr 42,
      a_started_at = 0, a_watch = [], a_event = ProcessExited (Some (ExitError 1 ''exit status 1'')),
      a_wait = None, a_killed = False, a_uptime = second, a_ctx_post = False, a_ctx_end = False, a_stop = False\<rparr>"

definition demo_supervisor :: supervisor where
  "demo_supervisor =
     \<lparr>sv_cfg = defaultSpawnConfig\<lparr>respawnEnabled := True, respawnMaxRetries := 2\<rparr>, sv_preStart = False,
      sv_postStart = False, sv_preStop = True, sv_postStop = False, sv_readiness = False, sv_liveness = False\<rparr>"

lemma supervisor_gives_up_witness:
  "fst (sv_loop (\<lambda>n. (Some (int n), Suc n)) (\<lambda>_. 1) demo_supervisor [demo_attempt, demo_attempt, demo_attempt]
     (sv_start (\<lambda>_. 1) 0 (new_workload ''tikv'' 2))) \<noteq> None"
  by (rule supervisor_gives_up)
    (simp_all add: demo_supervisor_def demo_attempt_def defaultSpawnConfig_def)

text \<open>
  C26: the registry tells the truth about the process. A workload entry that is down with pid 0
  before a run is down with pid 0 at every point between attempts and when the loop returns.
\<close>

theorem supervisor_entry_down:
  assumes "\<not> w_up w" and "w_pid w = 0"
    and "sv_loop bo_next bo_reset sv as (sv_start bo_reset b w) = (r, st', acts)"
  shows "\<not> w_up (v_w st') \<and> w_pid (v_w st') = 0"
  using sv_loop_down [OF assms(3)] assms(1,2) by (simp add: sv_start_def)

lemma supervisor_entry_down_witness:
  "\<not> w_up (v_w (fst (snd (sv_loop (\<lambda>n. (Some (int n), Suc n)) (\<lambda>_. 1) demo_supervisor [demo_attempt]
     (sv_start (\<lambda>_. 1) 0 (new_workload ''tikv'' 2))))))"
proof -
  have "\<not> w_up (new_workload ''tikv'' 2)" and "w_pid (new_workload ''tikv'' 2) = 0"
    by (simp_all add: new_workload_def)
  from supervisor_entry_down [OF this triple_eta] show ?thesis by (rule conjunct1)
qed

text \<open>
  C39: an unhealthy mark sticks. Once a workload has been marked unhealthy, as losing liveness does, it
  keeps failing the health probe through every later restart, however long it then runs, until a
  readiness promise settles truthy; and when spawn() was given no readiness factory that is never,
  whatever the watchers and the process do.
\<close>

theorem supervisor_unhealthy_sticks:
  assumes "w_health (v_w st) = HealthUnhealthy" and "sv_readiness sv \<longrightarrow> list_all no_ready as"
    and "sv_loop bo_next bo_reset sv as st = (r, st', acts)"
  shows "judge_snapshot (snapshot now \<lparr>h_startedAt = t0, h_workloads = [setUp t pid (v_w st')]\<rparr>) \<noteq> None"
proof -
  have "w_health (v_w st') = HealthUnhealthy" by (rule sv_loop_unhealthy [OF assms(3) _ assms(1)]) (use assms(2) in blast)
  then show ?thesis by (simp add: judge_snapshot_ok setUp_def)
qed

text \<open>The readiness the attempt would report is never looked at: \<^const>\<open>demo_supervisor\<close> has no factory for it.\<close>

lemma supervisor_unhealthy_sticks_witness:
  "judge_snapshot (snapshot 9 \<lparr>h_startedAt = 0, h_workloads = [setUp 8 43
     (v_w (fst (snd (sv_loop (\<lambda>n. (Some (int n), Suc n)) (\<lambda>_. 1) demo_supervisor
       [demo_attempt\<lparr>a_watch := [Readiness 5 False (Settled (SBool True))]\<rparr>]
       (sv_start (\<lambda>_. 1) 0 (setHealth 3 HealthUnhealthy 0 1 [] (new_workload ''tikv'' 2)))))))]\<rparr>) \<noteq> None"
  by (rule supervisor_unhealthy_sticks [where as = "[demo_attempt\<lparr>a_watch := [Readiness 5 False (Settled (SBool True))]\<rparr>]"
        and bo_reset = "\<lambda>_. 1" and sv = demo_supervisor and bo_next = "\<lambda>n. (Some (int n), Suc n)"
        and st = "sv_start (\<lambda>_. 1) 0 (setHealth 3 HealthUnhealthy 0 1 [] (new_workload ''tikv'' 2))",
        OF _ _ triple_eta])
    (simp_all add: sv_start_def setHealth_def demo_supervisor_def)

text \<open>
  A failed health check restarts even a workload that is not to be respawned. After a
  failed readiness or a lost liveness the loop backs off and goes on, or ends because the
  retries are exhausted; that respawn is off is not considered.
\<close>

theorem health_restart_ignores_respawn:
  assumes "a_ctx_top a = False" and "a_resolve a = Inr v" and "parse_resolve_result v = Inr (argv, env)"
    and "a_look_path a (hd argv) = Some bin" and "sv_preStart sv \<longrightarrow> a_pre_start a = None"
    and "a_start a = Inr pid" and "sv_selected sv a \<in> {ReadinessFailed, LivenessLost}" and "\<not> a_ctx_end a"
    and "sv_attempt bo_next bo_reset (sv\<lparr>sv_cfg := (sv_cfg sv)\<lparr>respawnEnabled := False\<rparr>\<rparr>) a st = (out, st', acts)"
  shows "out = Again \<or> out = Finished (Inl ErrRetriesExhausted)"
  using assms
  by (auto simp: sv_attempt_def sv_running_def sv_exited_def doBackoff_def Let_def sv_selected_def
      split: if_splits option.splits prod.splits sv_event.splits)

lemma health_restart_ignores_respawn_witness:
  "fst (sv_attempt (\<lambda>n. (Some (int n), Suc n)) (\<lambda>_. 1)
     ((demo_supervisor\<lparr>sv_liveness := True\<rparr>)\<lparr>sv_cfg := (sv_cfg demo_supervisor)\<lparr>respawnEnabled := False\<rparr>\<rparr>)
     (demo_attempt\<lparr>a_event := LivenessLost\<rparr>) (sv_start (\<lambda>_. 1) 0 (new_workload ''db'' 5)))
   \<in> {Again, Finished (Inl ErrRetriesExhausted)}"
  using health_restart_ignores_respawn [where a = "demo_attempt\<lparr>a_event := LivenessLost\<rparr>" and sv = "demo_supervisor\<lparr>sv_liveness := True\<rparr>"
      and v = "SList [SString ''tikv-server'']" and argv = "[''tikv-server'']" and env = "[]"
      and bin = "''/bin/tikv-server''" and pid = 42 and bo_next = "\<lambda>n. (Some (int n), Suc n)" and bo_reset = "\<lambda>_. 1"
      and st = "sv_start (\<lambda>_. 1) 0 (new_workload ''db'' 5)", OF _ _ _ _ _ _ _ _ triple_eta]
  by (simp add: demo_attempt_def demo_supervisor_def resolve_iff command_value_def sv_selected_def)

end
