(* ===== verification/Promise.thy ===== *)
theory Promise
  imports Starlark_Convert
begin

text \<open>
  The settle-once futures of promise.go and the tasks behind them (\<^verbatim>\<open>spawnFunc\<close> and
  \<^verbatim>\<open>reportIfUnobserved\<close> of starlark_engine.go). A promise is a record; the mutex makes each
  method atomic, so concurrent use is a sequence of events. Calls the promise makes outwards
  (the task's cancel function, spawn()'s signal function) are returned as effects.
\<close>

section \<open>The promise\<close>

record promise =
  p_cancellable :: bool
  p_signallable :: bool
  p_cancelFn :: bool
  p_signalFn :: bool
  p_awaited :: bool
  p_settled :: bool
  p_canceling :: bool
  p_value :: sl_value
  p_err :: "go_error option"

datatype p_effect = CallCancelFn | CallSignalFn sl_value

definition newPromise :: promise where
  "newPromise =
     \<lparr>p_cancellable = False, p_signallable = False, p_cancelFn = False, p_signalFn = False, p_awaited = False,
      p_settled = False, p_canceling = False, p_value = SNone, p_err = None\<rparr>"

definition settle :: "sl_value \<Rightarrow> go_error option \<Rightarrow> promise \<Rightarrow> promise" where
  "settle v e p = (if p_settled p then p else p\<lparr>p_settled := True, p_value := v, p_err := e\<rparr>)"

definition resolve :: "sl_value \<Rightarrow> promise \<Rightarrow> promise" where
  "resolve v p = settle v None p"

definition reject :: "go_error \<Rightarrow> promise \<Rightarrow> promise" where
  "reject e p = settle SNone (Some e) p"

definition doCancel :: "promise \<Rightarrow> promise \<times> p_effect list" where
  "doCancel p =
     (let p = p\<lparr>p_canceling := True\<rparr>
      in if p_cancelFn p then (p, [CallCancelFn]) else (settle SNone None p, []))"

definition doSignal :: "sl_value \<Rightarrow> promise \<Rightarrow> promise \<times> p_effect list" where
  "doSignal v p =
     (if p_signalFn p then (p, [CallSignalFn v])
      else (settle v None p, if p_cancelFn p then [CallCancelFn] else []))"

definition doReject :: "go_error \<Rightarrow> promise \<Rightarrow> promise \<times> p_effect list" where
  "doReject e p =
     (if p_signalFn p then (p, [CallSignalFn SNone])
      else (settle SNone (Some e) p, if p_cancelFn p then [CallCancelFn] else []))"

text \<open>
  Awaiting when either the promise has settled or the context is done (\<open>ctx\<close> is the context's
  error, if any): \<open>prefer_ctx\<close> is the select's choice when both are ready. \<open>None\<close> is waiting on.
\<close>

definition await :: "go_error option \<Rightarrow> bool \<Rightarrow> promise \<Rightarrow> (sl_value go_result) option \<times> promise" where
  "await ctx prefer_ctx p =
     (let p = p\<lparr>p_awaited := True\<rparr>;
          out = (case p_err p of None \<Rightarrow> Inr (p_value p) | Some e \<Rightarrow> Inl e)
      in case ctx of
           None \<Rightarrow> (if p_settled p then Some out else None, p)
         | Some ce \<Rightarrow> (if p_settled p \<and> \<not> prefer_ctx then Some out else Some (Inl ce), p))"

section \<open>What the script can do to it\<close>

definition attrNames :: "promise \<Rightarrow> string list" where
  "attrNames p =
     [''done''] @ (if p_cancellable p then [''cancel''] else [])
       @ (if p_signallable p then [''signal'', ''reject''] else [])"

datatype script_call = CallDone | CallCancel | CallSignal sl_value | CallReject string

fun call_name :: "script_call \<Rightarrow> string" where
  "call_name CallDone = ''done''"
| "call_name CallCancel = ''cancel''"
| "call_name (CallSignal _) = ''signal''"
| "call_name (CallReject _) = ''reject''"

text \<open>\<open>None\<close>: the promise has no such attribute.\<close>

definition promise_attr :: "script_call \<Rightarrow> promise \<Rightarrow> (sl_value \<times> promise \<times> p_effect list) option" where
  "promise_attr c p =
     (case c of
        CallDone \<Rightarrow> Some (SBool (p_settled p), p, [])
      | CallCancel \<Rightarrow> if \<not> p_cancellable p then None else (case doCancel p of (p, fx) \<Rightarrow> Some (SNone, p, fx))
      | CallSignal v \<Rightarrow> if \<not> p_signallable p then None else (case doSignal v p of (p, fx) \<Rightarrow> Some (SNone, p, fx))
      | CallReject m \<Rightarrow>
          if \<not> p_signallable p then None else (case doReject (Errorf m []) p of (p, fx) \<Rightarrow> Some (SNone, p, fx)))"

section \<open>Tasks\<close>

definition spawn_promise :: "bool \<Rightarrow> promise" where
  "spawn_promise signallable = newPromise\<lparr>p_cancellable := True, p_cancelFn := True, p_signallable := signallable\<rparr>"

text \<open>The task returns: the promise it leaves, and whether its failure goes to the unobserved check.\<close>

definition task_done :: "sl_value go_result \<Rightarrow> promise \<Rightarrow> promise \<times> bool" where
  "task_done r p =
     (case r of
        Inr v \<Rightarrow> (resolve v p, False)
      | Inl e \<Rightarrow> (if p_canceling p then (settle SNone None p, False) else (reject e p, True)))"

definition reportIfUnobserved :: "bool \<Rightarrow> promise \<Rightarrow> bool" where
  "reportIfUnobserved ctx_done p = (\<not> p_awaited p \<and> \<not> ctx_done)"

section \<open>Sequences of events\<close>

datatype p_event = EvTask "sl_value go_result" | EvScript script_call | EvAwait | EvSupervisor "sl_value go_result"

definition p_step :: "p_event \<Rightarrow> promise \<Rightarrow> promise" where
  "p_step ev p =
     (case ev of
        EvTask r \<Rightarrow> fst (task_done r p)
      | EvScript c \<Rightarrow> (case promise_attr c p of None \<Rightarrow> p | Some (_, p', _) \<Rightarrow> p')
      | EvAwait \<Rightarrow> snd (await None False p)
      | EvSupervisor r \<Rightarrow> (case r of Inl e \<Rightarrow> reject e p | Inr v \<Rightarrow> resolve v p))"

definition p_run :: "p_event list \<Rightarrow> promise \<Rightarrow> promise" where
  "p_run evs p = fold p_step evs p"

lemmas promise_defs [step_simps] =
  settle_def resolve_def reject_def doCancel_def doSignal_def doReject_def await_def promise_attr_def
  task_done_def p_step_def

lemma p_step_settled:
  "p_settled p \<Longrightarrow>
   p_settled (p_step ev p) \<and> p_value (p_step ev p) = p_value p \<and> p_err (p_step ev p) = p_err p"
  by (cases ev)
    (auto simp: promise_defs Let_def split: sum.splits script_call.splits)

lemma p_run_settled:
  "p_settled p \<Longrightarrow>
   p_settled (p_run evs p) \<and> p_value (p_run evs p) = p_value p \<and> p_err (p_run evs p) = p_err p"
proof (induction evs arbitrary: p)
  case (Cons ev evs)
  from p_step_settled [OF Cons.prems, of ev] Cons.IH [of "p_step ev p"] show ?case by (simp add: p_run_def)
qed (simp add: p_run_def)

text \<open>The shape of a promise, fixed at its creation.\<close>

definition p_shape :: "promise \<Rightarrow> bool \<times> bool \<times> bool \<times> bool" where
  "p_shape p = (p_cancellable p, p_signallable p, p_cancelFn p, p_signalFn p)"

lemma p_step_shape: "p_shape (p_step ev p) = p_shape p"
  by (cases ev)
    (auto simp: p_shape_def promise_defs Let_def split: sum.splits script_call.splits)

text \<open>A promise of a task that was asked to cancel, and that no one else rejects.\<close>

definition cancel_inv :: "promise \<Rightarrow> bool" where
  "cancel_inv p \<longleftrightarrow> p_canceling p \<and> (p_settled p \<longrightarrow> p_err p = None)"

definition not_rejecting :: "p_event \<Rightarrow> bool" where
  "not_rejecting ev = (case ev of EvScript (CallReject _) \<Rightarrow> False | EvSupervisor (Inl _) \<Rightarrow> False | _ \<Rightarrow> True)"

lemma cancel_inv_step: "cancel_inv p \<Longrightarrow> not_rejecting ev \<Longrightarrow> cancel_inv (p_step ev p)"
  by (cases ev)
    (auto simp: cancel_inv_def not_rejecting_def promise_defs Let_def
      split: sum.splits script_call.splits)

lemma cancel_inv_run: "cancel_inv p \<Longrightarrow> list_all not_rejecting evs \<Longrightarrow> cancel_inv (p_run evs p)"
  by (induction evs arbitrary: p) (auto simp: p_run_def cancel_inv_step)

text \<open>Only the supervisor settles the promise of a spawn().\<close>

lemma spawn_step:
  "p_signalFn p \<Longrightarrow> \<not> p_cancellable p \<Longrightarrow> \<not> p_settled p \<Longrightarrow>
   (case ev of EvTask _ \<Rightarrow> False | EvSupervisor _ \<Rightarrow> False | _ \<Rightarrow> True) \<Longrightarrow>
   p_signalFn (p_step ev p) \<and> \<not> p_cancellable (p_step ev p) \<and> \<not> p_settled (p_step ev p)"
  by (cases ev) (auto simp: promise_defs Let_def split: script_call.splits)

section \<open>Properties\<close>

text \<open>
  The first settle wins. Once a promise has settled, no sequence of task results, cancels,
  signals, rejections or awaits changes its value or its error.
\<close>

theorem promise_settles_once:
  assumes "p_settled p"
  shows "p_settled (p_run evs p) \<and> p_value (p_run evs p) = p_value p \<and> p_err (p_run evs p) = p_err p"
  using p_run_settled [OF assms] .

lemma promise_settles_once_witness:
  "p_value (p_run [EvTask (Inr (SInt 1)), EvScript (CallReject ''late''), EvAwait] (resolve (SBool True) (spawn_promise True)))
   = SBool True"
proof -
  have "p_settled (resolve (SBool True) (spawn_promise True))"
    by (simp add: resolve_def settle_def spawn_promise_def newPromise_def)
  from promise_settles_once [OF this, of "[EvTask (Inr (SInt 1)), EvScript (CallReject ''late''), EvAwait]"]
  show ?thesis by (simp add: resolve_def settle_def spawn_promise_def newPromise_def)
qed

text \<open>
  An intentional cancel never raises. A task that is cancelled while it has not settled
  settles without an error however it then ends, unless something else rejects the promise:
  a join() on it returns instead of raising.
\<close>

theorem cancel_never_raises:
  assumes "p_cancellable p" and "\<not> p_settled p" and "list_all not_rejecting evs"
    and "p_settled (p_run (EvScript CallCancel # evs) p)"
  shows "fst (await None False (p_run (EvScript CallCancel # evs) p))
    = Some (Inr (p_value (p_run (EvScript CallCancel # evs) p)))"
proof -
  have "cancel_inv (p_step (EvScript CallCancel) p)"
    using assms(1,2) by (auto simp: cancel_inv_def promise_defs Let_def)
  from cancel_inv_run [OF this assms(3)] have "cancel_inv (p_run (EvScript CallCancel # evs) p)"
    by (simp add: p_run_def)
  with assms(4) show ?thesis by (simp add: cancel_inv_def await_def Let_def)
qed

lemma cancel_never_raises_witness:
  "fst (await None False (p_run [EvScript CallCancel, EvTask (Inl CtxCanceled)] (spawn_promise False))) = Some (Inr SNone)"
  using cancel_never_raises [of "spawn_promise False" "[EvTask (Inl CtxCanceled)]"]
  by (simp add: spawn_promise_def newPromise_def not_rejecting_def p_run_def promise_defs Let_def)

text \<open>
  A spawn() promise reports the process. Whatever the script calls on it, the promise of
  a supervisor stays unsettled until the supervisor settles it, and then carries exactly the
  supervisor's result.
\<close>

theorem spawn_promise_reports_supervisor:
  assumes "p_signalFn p" and "\<not> p_cancellable p" and "\<not> p_settled p"
    and "list_all (\<lambda>ev. case ev of EvTask _ \<Rightarrow> False | EvSupervisor _ \<Rightarrow> False | _ \<Rightarrow> True) evs"
  shows "\<not> p_settled (p_run evs p)
    \<and> fst (await None False (p_run (evs @ EvSupervisor r # later) p)) = Some r"
proof -
  have "p_signalFn (p_run evs p) \<and> \<not> p_cancellable (p_run evs p) \<and> \<not> p_settled (p_run evs p)"
    using assms
  proof (induction evs arbitrary: p)
    case (Cons ev evs)
    with spawn_step [of p ev] show ?case by (auto simp: p_run_def)
  qed (simp add: p_run_def)
  then have un: "\<not> p_settled (p_run evs p)" by simp
  define q where "q = p_step (EvSupervisor r) (p_run evs p)"
  have q: "p_settled q \<and> (case p_err q of None \<Rightarrow> Inr (p_value q) | Some e \<Rightarrow> Inl e) = r"
    using un by (auto simp: q_def promise_defs split: sum.splits)
  then have "p_settled (p_run later q) \<and> p_value (p_run later q) = p_value q \<and> p_err (p_run later q) = p_err q"
    using p_run_settled by blast
  moreover have "p_run (evs @ EvSupervisor r # later) p = p_run later q" by (simp add: p_run_def q_def)
  ultimately show ?thesis using un q by (auto simp: await_def Let_def split: option.splits)
qed

lemma spawn_promise_reports_supervisor_witness:
  "fst (await None False (p_run [EvScript (CallSignal SNone), EvAwait, EvSupervisor (Inl ErrRetriesExhausted), EvScript (CallSignal SNone)]
     (newPromise\<lparr>p_signallable := True, p_signalFn := True\<rparr>))) = Some (Inl ErrRetriesExhausted)"
  using spawn_promise_reports_supervisor [of "newPromise\<lparr>p_signallable := True, p_signalFn := True\<rparr>"
      "[EvScript (CallSignal SNone), EvAwait]" "Inl ErrRetriesExhausted" "[EvScript (CallSignal SNone)]"]
  by (simp add: newPromise_def)

end
