(* ===== verification/Spawn.thy ===== *)
theory Spawn
  imports Supervisor Promise
begin

text \<open>
  The spawn() builtin of spawn.go (\<^verbatim>\<open>addSpawnBuiltin\<close>): its arguments as the Starlark library
  bound them to parameters, their validation, the registration of the workload and the promise
  it returns; \<^verbatim>\<open>run\<close> of the supervisor, which settles it. Go ranges over the map of callbacks in
  any order, so the order is an argument.
\<close>

section \<open>Arguments\<close>

record spawn_args =
  sa_fns :: "(string \<times> sl_value) list"
  sa_name :: string
  sa_respawn :: "bool option"
  sa_keep_alive :: "bool option"
  sa_max_retries :: "int option"
  sa_multiplier :: "rat option"
  sa_resolve_failure :: "string option"
  sa_restart_on_liveness :: "bool option"
  sa_initial_interval :: "sl_value option"
  sa_max_interval :: "sl_value option"
  sa_reset_after :: "sl_value option"
  sa_shutdown_grace :: "sl_value option"
  sa_pre_stop_timeout :: "sl_value option"
  sa_resolve_timeout :: "sl_value option"

fun callable :: "sl_value \<Rightarrow> bool" where
  "callable (SFunction _) = True"
| "callable _ = False"

definition check_callbacks :: "string list \<Rightarrow> (string \<times> sl_value) list \<Rightarrow> go_error option" where
  "check_callbacks order fns =
     (case find (\<lambda>n. case map_of fns n of None \<Rightarrow> False | Some v \<Rightarrow> \<not> callable v) order of
        Some n \<Rightarrow> Some (Errorf ''spawn: %s must be a function, got %s''
                    [n, case map_of fns n of None \<Rightarrow> [] | Some v \<Rightarrow> sl_type v])
      | None \<Rightarrow>
          if map_of fns ''resolve'' = None then Some (Errorf ''spawn: resolve is required'' []) else None)"

definition callback_names :: "string list" where
  "callback_names = [''resolve'', ''pre_start'', ''post_start'', ''pre_stop'', ''post_stop'', ''readiness'', ''liveness'']"

definition set_duration ::
  "(int \<Rightarrow> int) \<Rightarrow> sl_value option \<Rightarrow> (duration \<Rightarrow> spawnConfig \<Rightarrow> spawnConfig) \<Rightarrow> spawnConfig go_result \<Rightarrow> spawnConfig go_result" where
  "set_duration inexact v put r =
     (case r of
        Inl e \<Rightarrow> Inl e
      | Inr cfg \<Rightarrow>
          (case v of
             None \<Rightarrow> Inr cfg
           | Some x \<Rightarrow>
               (if x = SNone then Inr cfg
                else case unpack_duration inexact x of Inl e \<Rightarrow> Inl e | Inr d \<Rightarrow> Inr (put d cfg))))"

definition set_durations :: "(int \<Rightarrow> int) \<Rightarrow> spawn_args \<Rightarrow> spawnConfig \<Rightarrow> spawnConfig go_result" where
  "set_durations inexact a cfg =
     (let r = set_duration inexact (sa_initial_interval a) (\<lambda>d c. c\<lparr>respawnInitialInterval := d\<rparr>) (Inr cfg);
          r = set_duration inexact (sa_max_interval a) (\<lambda>d c. c\<lparr>respawnMaxInterval := d\<rparr>) r;
          r = set_duration inexact (sa_reset_after a) (\<lambda>d c. c\<lparr>respawnResetAfter := d\<rparr>) r;
          r = set_duration inexact (sa_shutdown_grace a) (\<lambda>d c. c\<lparr>shutdownGrace := d\<rparr>) r;
          r = set_duration inexact (sa_pre_stop_timeout a) (\<lambda>d c. c\<lparr>preStopTimeout := d\<rparr>) r
      in set_duration inexact (sa_resolve_timeout a) (\<lambda>d c. c\<lparr>resolveTimeout := d\<rparr>) r)"

definition or_else :: "'a option \<Rightarrow> 'a \<Rightarrow> 'a" where
  "or_else v d = (case v of None \<Rightarrow> d | Some x \<Rightarrow> x)"

definition spawn_base_config :: "spawn_args \<Rightarrow> spawnConfig" where
  "spawn_base_config a =
     (let d = defaultSpawnConfig
      in d\<lparr>respawnEnabled := or_else (sa_respawn a) (respawnEnabled d),
           respawnKeepAlive := or_else (sa_keep_alive a) (respawnKeepAlive d),
           respawnMaxRetries := or_else (sa_max_retries a) (respawnMaxRetries d),
           respawnMultiplier := or_else (sa_multiplier a) (respawnMultiplier d),
           resolveFailure := or_else (sa_resolve_failure a) (resolveFailure d),
           restartOnLiveness := or_else (sa_restart_on_liveness a) (restartOnLiveness d)\<rparr>)"

definition check_config :: "spawnConfig \<Rightarrow> go_error option" where
  "check_config cfg =
     (if respawnEnabled cfg \<and> respawnMultiplier cfg \<le> 1 then Some (Errorf ''spawn: multiplier must be greater than 1'' [])
      else if respawnEnabled cfg \<and> respawnMaxRetries cfg < 0 then Some (Errorf ''spawn: max_retries must be >= 0'' [])
      else if to_lower (resolveFailure cfg) \<in> {''retry'', ''fail''} then None
      else Some (Errorf ''spawn: invalid resolve_failure %q'' [resolveFailure cfg]))"

definition spawn_config :: "(int \<Rightarrow> int) \<Rightarrow> string list \<Rightarrow> spawn_args \<Rightarrow> spawnConfig go_result" where
  "spawn_config inexact order a =
     (case check_callbacks order (sa_fns a) of
        Some e \<Rightarrow> Inl e
      | None \<Rightarrow>
          (case set_durations inexact a (spawn_base_config a) of
             Inl e \<Rightarrow> Inl e
           | Inr cfg \<Rightarrow> (case check_config cfg of Some e \<Rightarrow> Inl e | None \<Rightarrow> Inr cfg)))"

section \<open>The builtin\<close>

definition given :: "spawn_args \<Rightarrow> string \<Rightarrow> bool" where
  "given a n = (map_of (sa_fns a) n \<noteq> None)"

definition workload_promise :: promise where
  "workload_promise = newPromise\<lparr>p_signallable := True, p_signalFn := True\<rparr>"

definition spawn ::
  "(int \<Rightarrow> int) \<Rightarrow> string list \<Rightarrow> spawn_args \<Rightarrow> harnessState \<Rightarrow> (supervisor \<times> nat \<times> promise \<times> harnessState) go_result" where
  "spawn inexact order a st =
     (case spawn_config inexact order a of
        Inl e \<Rightarrow> Inl e
      | Inr cfg \<Rightarrow>
          let (i, st) = register (sa_name a) (respawnMaxRetries cfg) st
          in Inr (\<lparr>sv_cfg = cfg, sv_preStart = given a ''pre_start'', sv_postStart = given a ''post_start'',
                   sv_preStop = given a ''pre_stop'', sv_postStop = given a ''post_stop'',
                   sv_readiness = given a ''readiness'', sv_liveness = given a ''liveness''\<rparr>,
                  i, workload_promise, st))"

definition exit_value :: "exit_struct \<Rightarrow> sl_value" where
  "exit_value x = SStruct [(''code'', SInt (ex_code x)), (''reason'', SString (ex_reason x)),
     (''respawn_count'', SInt (ex_respawn_count x))]"

text \<open>\<^verbatim>\<open>run\<close>: what the loop returned settles the promise.\<close>

text \<open>The promise's signalFn stops the supervisor, whatever the value.\<close>

definition spawn_signalFn :: "p_effect list \<Rightarrow> sv_flags \<Rightarrow> sv_flags" where
  "spawn_signalFn fx f = fold (\<lambda>e f. case e of CallSignalFn _ \<Rightarrow> requestStop f | CallCancelFn \<Rightarrow> f) fx f"

definition sv_settle :: "exit_struct go_result \<Rightarrow> promise \<Rightarrow> promise" where
  "sv_settle r p = (case r of Inl e \<Rightarrow> reject e p | Inr x \<Rightarrow> resolve (exit_value x) p)"

section \<open>Lemmas\<close>

definition valid_config :: "spawnConfig \<Rightarrow> bool" where
  "valid_config cfg \<longleftrightarrow> (respawnEnabled cfg \<longrightarrow> 1 < respawnMultiplier cfg \<and> 0 \<le> respawnMaxRetries cfg)
     \<and> to_lower (resolveFailure cfg) \<in> {''retry'', ''fail''}"

lemma check_config_None: "check_config cfg = None \<longleftrightarrow> valid_config cfg"
  by (auto simp: check_config_def valid_config_def)

lemma check_callbacks_None:
  "check_callbacks order fns = None \<longleftrightarrow>
     map_of fns ''resolve'' \<noteq> None \<and> (\<forall>n \<in> set order. \<forall>v. map_of fns n = Some v \<longrightarrow> callable v)"
proof -
  let ?bad = "\<lambda>n. case map_of fns n of None \<Rightarrow> False | Some v \<Rightarrow> \<not> callable v"
  have "find ?bad order = None \<longleftrightarrow> (\<forall>n \<in> set order. \<forall>v. map_of fns n = Some v \<longrightarrow> callable v)"
    by (auto simp: find_None_iff split: option.splits)
  then show ?thesis by (auto simp: check_callbacks_def split: option.splits)
qed

lemma set_duration_Inr:
  "set_duration inexact v put r = Inr cfg' \<Longrightarrow> \<exists>cfg. r = Inr cfg \<and> (cfg' = cfg \<or> (\<exists>d. cfg' = put d cfg))"
  by (auto simp: set_duration_def split: sum.splits option.splits if_splits)

text \<open>The durations are the only settings the duration arguments change.\<close>

lemma set_durations_frame:
  assumes "set_durations inexact a cfg = Inr cfg'"
  shows "respawnEnabled cfg' = respawnEnabled cfg \<and> respawnKeepAlive cfg' = respawnKeepAlive cfg
    \<and> respawnMaxRetries cfg' = respawnMaxRetries cfg \<and> respawnMultiplier cfg' = respawnMultiplier cfg
    \<and> resolveFailure cfg' = resolveFailure cfg \<and> restartOnLiveness cfg' = restartOnLiveness cfg"
  using assms unfolding set_durations_def Let_def
  by (elim set_duration_Inr [THEN exE] conjE) (auto dest!: set_duration_Inr)

section \<open>Properties\<close>

text \<open>
  What spawn() accepts. A call that passes validation supervises the workload with settings
  a supervisor can work with: with respawn on, a multiplier above one and a retry limit that is
  not negative, and a resolve_failure that is retry or fail in any case; every callback given
  is a function and resolve is one of them. The workload is added to the registry behind the
  existing ones, down, and the promise returned can be signalled but not cancelled.
\<close>

theorem spawn_accepts:
  assumes "spawn inexact order a st = Inr (sv, i, p, st')" and "set order = set callback_names"
  shows "valid_config (sv_cfg sv) \<and> respawnEnabled (sv_cfg sv) = or_else (sa_respawn a) False
    \<and> (\<forall>n v. n \<in> set callback_names \<longrightarrow> map_of (sa_fns a) n = Some v \<longrightarrow> callable v) \<and> given a ''resolve''
    \<and> take i (h_workloads st') = h_workloads st \<and> length (h_workloads st') = Suc i
    \<and> \<not> w_up (h_workloads st' ! i) \<and> w_pid (h_workloads st' ! i) = 0
    \<and> p_signallable p \<and> \<not> p_cancellable p \<and> \<not> p_settled p"
proof -
  from assms(1) obtain cfg where cfg: "spawn_config inexact order a = Inr cfg"
    by (auto simp: spawn_def split: sum.splits)
  then have cb: "check_callbacks order (sa_fns a) = None"
    and dur: "set_durations inexact a (spawn_base_config a) = Inr cfg" and ok: "check_config cfg = None"
    by (auto simp: spawn_config_def split: option.splits sum.splits)
  have sv: "sv_cfg sv = cfg" "i = length (h_workloads st)" "p = workload_promise"
    "\<exists>n. h_workloads st' = h_workloads st @ [new_workload n (respawnMaxRetries cfg)]"
    using assms(1) cfg by (auto simp: spawn_def register_def Let_def)
  have "respawnEnabled cfg = or_else (sa_respawn a) False"
    using set_durations_frame [OF dur] by (simp add: spawn_base_config_def defaultSpawnConfig_def Let_def)
  moreover have "\<forall>n v. n \<in> set callback_names \<longrightarrow> map_of (sa_fns a) n = Some v \<longrightarrow> callable v" "given a ''resolve''"
    using cb assms(2) by (auto simp: check_callbacks_None given_def)
  ultimately show ?thesis
    using sv ok by (auto simp: check_config_None new_workload_def workload_promise_def newPromise_def)
qed

definition demo_args :: spawn_args where
  "demo_args =
     \<lparr>sa_fns = [(''resolve'', SFunction 1), (''pre_stop'', SFunction 2)], sa_name = ''tikv'', sa_respawn = Some True,
      sa_keep_alive = None, sa_max_retries = Some 3, sa_multiplier = None, sa_resolve_failure = Some ''Fail'',
      sa_restart_on_liveness = None, sa_initial_interval = Some (SInt 2), sa_max_interval = None, sa_reset_after = None,
      sa_shutdown_grace = None, sa_pre_stop_timeout = None, sa_resolve_timeout = None\<rparr>"

lemma spawn_accepts_witness:
  "\<exists>sv i p st'. spawn (\<lambda>i. i) callback_names demo_args (new_harness 0) = Inr (sv, i, p, st') \<and> valid_config (sv_cfg sv)"
proof -
  have "to_lower ''Fail'' = ''fail''" by code_simp
  then have "\<exists>x. spawn (\<lambda>i. i) callback_names demo_args (new_harness 0) = Inr x"
    by (simp add: spawn_def spawn_config_def check_callbacks_def callback_names_def demo_args_def set_durations_def
        set_duration_def spawn_base_config_def or_else_def defaultSpawnConfig_def check_config_def
        Let_def split_beta)
  then obtain sv i p st' where ok: "spawn (\<lambda>i. i) callback_names demo_args (new_harness 0) = Inr (sv, i, p, st')"
    by (metis prod.exhaust)
  with spawn_accepts [OF ok refl] show ?thesis by blast
qed

end
