(* ===== verification/Async.thy ===== *)
theory Async
  imports Promise
begin

text \<open>
  The combinators of async.go and the polling loop of starlark_builtins.go. A combinator
  sees its promises through how each one ends: \<open>outcome i\<close> is what awaiting the i-th argument
  gives. The order in which promises settle, and the choice a select makes among those that
  have, are an argument \<open>pick\<close>: a function from the promises still waited for to the position
  of the next one, or \<open>None\<close> when the context is done first.
\<close>

section \<open>Arguments\<close>

fun promise_args_from :: "string \<Rightarrow> nat \<Rightarrow> sl_value list \<Rightarrow> (nat list) go_result" where
  "promise_args_from name i [] = Inr []"
| "promise_args_from name i (a # as) =
     (case a of
        SPromise p \<Rightarrow> (case promise_args_from name (i + 1) as of Inl e \<Rightarrow> Inl e | Inr ps \<Rightarrow> Inr (p # ps))
      | _ \<Rightarrow> Inl (Errorf ''%s: argument %d must be a promise, got %s'' [name, format_nat (i + 1), sl_type a]))"

definition promiseArgs :: "string \<Rightarrow> sl_value list \<Rightarrow> (nat list) go_result" where
  "promiseArgs name args =
     (if args = [] then Inl (Errorf ''%s: requires at least one promise'' [name])
      else promise_args_from name 0 args)"

section \<open>join\<close>

fun join_values :: "('p \<Rightarrow> sl_value go_result) \<Rightarrow> 'p list \<Rightarrow> (sl_value list) go_result" where
  "join_values outcome [] = Inr []"
| "join_values outcome (p # ps) =
     (case outcome p of
        Inl e \<Rightarrow> Inl e
      | Inr v \<Rightarrow> (case join_values outcome ps of Inl e \<Rightarrow> Inl e | Inr vs \<Rightarrow> Inr (v # vs)))"

definition join :: "('p \<Rightarrow> sl_value go_result) \<Rightarrow> 'p list \<Rightarrow> sl_value go_result" where
  "join outcome ps =
     (case join_values outcome ps of
        Inl e \<Rightarrow> Inl e
      | Inr vs \<Rightarrow> Inr (if length vs = 1 then hd vs else SList vs))"

section \<open>select\<close>

definition select :: "go_error \<Rightarrow> ('p list \<Rightarrow> nat option) \<Rightarrow> 'p list \<Rightarrow> 'p go_result" where
  "select ctx_err pick ps =
     (case pick ps of None \<Rightarrow> Inl ctx_err | Some i \<Rightarrow> Inr (ps ! i))"

section \<open>any\_true\<close>

text \<open>The result, and whether the others were cancelled.\<close>

function any_true_loop ::
  "go_error \<Rightarrow> ('p list \<Rightarrow> nat option) \<Rightarrow> ('p \<Rightarrow> sl_value go_result) \<Rightarrow> 'p list \<Rightarrow> (bool go_result) \<times> bool" where
  "any_true_loop ctx_err pick outcome ps =
     (if ps = [] then (Inr False, False)
      else case pick ps of
             None \<Rightarrow> (Inl ctx_err, False)
           | Some i \<Rightarrow>
               (if length ps \<le> i then (Inl ctx_err, False)
                else case outcome (ps ! i) of
                       Inl e \<Rightarrow> (Inl e, True)
                     | Inr v \<Rightarrow>
                         (if sl_truth v then (Inr True, True)
                          else any_true_loop ctx_err pick outcome (take i ps @ drop (Suc i) ps))))"
  by pat_completeness auto
termination by (relation "measure (\<lambda>(_, _, _, ps). length ps)") auto

declare any_true_loop.simps [simp del]

text \<open>The promises \<^verbatim>\<open>cancelRest\<close> cancels: every cancellable argument.\<close>

definition any_true ::
  "go_error \<Rightarrow> ('p list \<Rightarrow> nat option) \<Rightarrow> ('p \<Rightarrow> sl_value go_result) \<Rightarrow> ('p \<Rightarrow> bool) \<Rightarrow> 'p list
    \<Rightarrow> (bool go_result) \<times> 'p list" where
  "any_true ctx_err pick outcome cancellable ps =
     (case any_true_loop ctx_err pick outcome ps of
        (r, cancelled) \<Rightarrow> (r, if cancelled then filter cancellable ps else []))"

section \<open>poll\<close>

text \<open>
  One round of \<^verbatim>\<open>waitLoop\<close>: what the check returned, the time when it was done, whether the
  context was done during the sleep after it, and the random part of the default interval.
\<close>

record poll_round =
  pr_check :: "bool go_result"
  pr_now :: time
  pr_ctx :: "go_error option"
  pr_rand :: duration

datatype poll_out = PollDone "bool go_result" | PollSleep duration

definition poll_step :: "time \<Rightarrow> duration \<Rightarrow> poll_round \<Rightarrow> poll_out" where
  "poll_step deadline interval r =
     (case pr_check r of
        Inl e \<Rightarrow> PollDone (Inl e)
      | Inr True \<Rightarrow> PollDone (Inr True)
      | Inr False \<Rightarrow>
          (let remaining = deadline - pr_now r
           in if remaining \<le> 0 then PollDone (Inr False)
              else let d = (if interval \<le> 0 then 500 * millisecond + pr_rand r else interval);
                       d = (if remaining < d then remaining else d)
                   in case pr_ctx r of Some e \<Rightarrow> PollDone (Inl e) | None \<Rightarrow> PollSleep d))"

text \<open>The loop over the rounds it meets; \<open>None\<close> while it is still going when they run out.\<close>

fun waitLoop :: "time \<Rightarrow> duration \<Rightarrow> poll_round list \<Rightarrow> (bool go_result) option" where
  "waitLoop deadline interval [] = None"
| "waitLoop deadline interval (r # rs) =
     (case poll_step deadline interval r of PollDone x \<Rightarrow> Some x | PollSleep d \<Rightarrow> waitLoop deadline interval rs)"

text \<open>Rounds that follow each other on one clock: a round's check ends no earlier than the sleep before it.\<close>

fun poll_timed :: "time \<Rightarrow> duration \<Rightarrow> time \<Rightarrow> poll_round list \<Rightarrow> bool" where
  "poll_timed deadline interval t [] = True"
| "poll_timed deadline interval t (r # rs) =
     (t \<le> pr_now r \<and>
      (case poll_step deadline interval r of
         PollDone _ \<Rightarrow> True | PollSleep d \<Rightarrow> poll_timed deadline interval (pr_now r + d) rs))"

section \<open>What the combinators guarantee\<close>

lemma join_values_ok:
  "list_all (\<lambda>p. \<exists>v. outcome p = Inr v) ps \<Longrightarrow> join_values outcome ps = Inr (map (projr \<circ> outcome) ps)"
  by (induction ps) auto

lemma join_values_error:
  "join_values outcome ps = Inl e \<longleftrightarrow>
   (\<exists>pre p post. ps = pre @ p # post \<and> list_all (\<lambda>p. \<exists>v. outcome p = Inr v) pre \<and> outcome p = Inl e)"
proof (induction ps)
  case (Cons q qs)
  show ?case
  proof (cases "outcome q")
    case (Inl e')
    have "(\<exists>pre p post. q # qs = pre @ p # post \<and> list_all (\<lambda>p. \<exists>v. outcome p = Inr v) pre \<and> outcome p = Inl e)
        \<longleftrightarrow> e = e'" (is "?L \<longleftrightarrow> _")
    proof
      assume ?L
      then obtain pre p post where "q # qs = pre @ p # post" "list_all (\<lambda>p. \<exists>v. outcome p = Inr v) pre" "outcome p = Inl e"
        by blast
      with Inl show "e = e'" by (cases pre) auto
    next
      assume "e = e'"
      with Inl show ?L by (intro exI [of _ "[]"] exI [of _ q] exI [of _ qs]) simp
    qed
    with Inl show ?thesis by auto
  next
    case (Inr v)
    have "(\<exists>pre p post. q # qs = pre @ p # post \<and> list_all (\<lambda>p. \<exists>v. outcome p = Inr v) pre \<and> outcome p = Inl e)
        \<longleftrightarrow> (\<exists>pre p post. qs = pre @ p # post \<and> list_all (\<lambda>p. \<exists>v. outcome p = Inr v) pre \<and> outcome p = Inl e)"
      (is "?L \<longleftrightarrow> ?R")
    proof
      assume ?L
      then obtain pre p post where *: "q # qs = pre @ p # post" "list_all (\<lambda>p. \<exists>v. outcome p = Inr v) pre" "outcome p = Inl e"
        by blast
      with Inr obtain pre' where "pre = q # pre'" by (cases pre) auto
      with * show ?R by auto
    next
      assume ?R
      then obtain pre p post where "qs = pre @ p # post" "list_all (\<lambda>p. \<exists>v. outcome p = Inr v) pre" "outcome p = Inl e"
        by blast
      with Inr show ?L by (intro exI [of _ "q # pre"] exI [of _ p] exI [of _ post]) simp
    qed
    with Cons Inr show ?thesis by (auto split: sum.splits)
  qed
qed simp

lemma set_remove_at: "i < length ps \<Longrightarrow> set ps = insert (ps ! i) (set (take i ps @ drop (Suc i) ps))"
  by (subst id_take_nth_drop [of i ps]) auto

text \<open>Whatever the order, the loop's verdict is the disjunction, when nothing is rejected and the context lives.\<close>

definition fair_pick :: "('p list \<Rightarrow> nat option) \<Rightarrow> bool" where
  "fair_pick pick \<longleftrightarrow> (\<forall>ps. ps \<noteq> [] \<longrightarrow> (\<exists>i. pick ps = Some i \<and> i < length ps))"

lemma any_true_loop_verdict:
  assumes "fair_pick pick" and "\<forall>p \<in> set ps. \<exists>v. outcome p = Inr v"
  shows "any_true_loop ctx_err pick outcome ps
    = (Inr (\<exists>p \<in> set ps. sl_truth (projr (outcome p))), \<exists>p \<in> set ps. sl_truth (projr (outcome p)))"
  using assms(2)
proof (induction "length ps" arbitrary: ps rule: less_induct)
  case less
  show ?case
  proof (cases "ps = []")
    case True
    then show ?thesis by (simp add: any_true_loop.simps)
  next
    case False
    with assms(1) obtain i where i: "pick ps = Some i" "i < length ps" by (auto simp: fair_pick_def)
    obtain v where v: "outcome (ps ! i) = Inr v" using less.prems nth_mem [OF i(2)] by blast
    note split = set_remove_at [OF i(2)]
    show ?thesis
    proof (cases "sl_truth v")
      case True
      have "\<exists>p \<in> set ps. sl_truth (projr (outcome p))" using i(2) v True by (intro bexI [of _ "ps ! i"]) auto
      with i v True False show ?thesis by (simp add: any_true_loop.simps [of _ _ _ ps])
    next
      case falsy: False
      let ?rest = "take i ps @ drop (Suc i) ps"
      have "length ?rest < length ps" using i(2) by simp
      moreover have "\<forall>p \<in> set ?rest. \<exists>v. outcome p = Inr v" using less.prems split by auto
      ultimately have "any_true_loop ctx_err pick outcome ?rest
          = (Inr (\<exists>p \<in> set ?rest. sl_truth (projr (outcome p))), \<exists>p \<in> set ?rest. sl_truth (projr (outcome p)))"
        by (rule less.hyps)
      moreover have "(\<exists>p \<in> set ps. sl_truth (projr (outcome p))) = (\<exists>p \<in> set ?rest. sl_truth (projr (outcome p)))"
        unfolding split using v falsy by auto
      ultimately show ?thesis using i v falsy False by (simp add: any_true_loop.simps [of _ _ _ ps])
    qed
  qed
qed

lemma poll_sleep_bounds:
  assumes "poll_step deadline interval r = PollSleep d" and "0 < interval"
  shows "pr_now r + d \<le> deadline" and "0 < d" and "d = interval \<or> pr_now r + d = deadline"
  using assms by (auto simp: poll_step_def Let_def split: sum.splits bool.splits if_splits option.splits)

lemma waitLoop_after_deadline:
  "deadline \<le> pr_now r \<Longrightarrow> waitLoop deadline interval (r # rs) \<noteq> None"
  by (auto simp: poll_step_def Let_def split: sum.splits bool.splits)

text \<open>Each sleep is a whole interval but the last, so the rounds before the deadline can be counted.\<close>

lemma waitLoop_rounds:
  assumes "0 < interval" and "poll_timed deadline interval t rs"
    and "(deadline - t) div interval + 2 \<le> int (length rs)" and "t \<le> deadline"
  shows "waitLoop deadline interval rs \<noteq> None"
  using assms(2-4)
proof (induction rs arbitrary: t)
  case Nil
  then have "0 \<le> (deadline - t) div interval" using assms(1) by (simp add: pos_imp_zdiv_nonneg_iff)
  with Nil show ?case by simp
next
  case (Cons r rs)
  show ?case
  proof (cases "poll_step deadline interval r")
    case (PollDone x)
    then show ?thesis by simp
  next
    case (PollSleep d)
    note b = poll_sleep_bounds [OF PollSleep assms(1)]
    have tr: "t \<le> pr_now r" and timed: "poll_timed deadline interval (pr_now r + d) rs"
      using Cons.prems(1) PollSleep by auto
    from b(3) have "waitLoop deadline interval rs \<noteq> None"
    proof
      assume d: "d = interval"
      have "(deadline - (pr_now r + d)) div interval + 1 = (deadline - pr_now r) div interval"
        using assms(1) d div_add_self2 [of interval "deadline - (pr_now r + d)"] by simp
      also have "\<dots> \<le> (deadline - t) div interval" using tr assms(1) by (intro zdiv_mono1) auto
      finally have "(deadline - (pr_now r + d)) div interval + 2 \<le> int (length rs)"
        using Cons.prems(2) by simp
      with Cons.IH [OF timed] b(1) show ?thesis by simp
    next
      assume d: "pr_now r + d = deadline"
      have "0 \<le> (deadline - t) div interval" using assms(1) Cons.prems(3) by (simp add: pos_imp_zdiv_nonneg_iff)
      with Cons.prems(2) obtain r2 rs2 where rs: "rs = r2 # rs2" by (cases rs) auto
      with timed d have "deadline \<le> pr_now r2" by simp
      with rs show ?thesis using waitLoop_after_deadline by simp
    qed
    with PollSleep show ?thesis by simp
  qed
qed

section \<open>Properties\<close>

text \<open>
  C27: any_true is a disjunction. In whatever order the promises settle, if none is rejected and
  the context stays alive the answer is whether some promise settles truthy; the cancellable
  arguments are cancelled exactly when it is true.
\<close>

theorem any_true_is_disjunction:
  assumes "fair_pick pick" and "list_all (\<lambda>p. \<exists>v. outcome p = Inr v) ps"
  shows "any_true ctx_err pick outcome cancellable ps =
    (Inr (list_ex (\<lambda>p. sl_truth (projr (outcome p))) ps),
     if list_ex (\<lambda>p. sl_truth (projr (outcome p))) ps then filter cancellable ps else [])"
  using any_true_loop_verdict [OF assms(1), of ps outcome ctx_err] assms(2)
  by (simp add: any_true_def list_all_iff list_ex_iff)

lemma any_true_is_disjunction_witness:
  "any_true CtxCanceled (\<lambda>ps. if ps = [] then None else Some (length ps - 1)) (\<lambda>p. Inr (SBool (p = (2 :: nat)))) (\<lambda>p. p \<noteq> 3) [1, 2, 3]
   = (Inr True, [1, 2])"
  using any_true_is_disjunction [of "\<lambda>ps. if ps = [] then None else Some (length ps - 1)"
      "\<lambda>p. Inr (SBool (p = (2 :: nat)))" "[1, 2, 3]" CtxCanceled "\<lambda>p. p \<noteq> 3"]
  by (simp add: fair_pick_def)

text \<open>
  Join returns every value in argument order, a lone one unwrapped, when all promises
  resolve; otherwise it raises the error of the first argument, in order, that did not.
\<close>

theorem join_result:
  "(list_all (\<lambda>p. \<exists>v. outcome p = Inr v) ps \<longrightarrow>
      join outcome ps = Inr (if length ps = 1 then projr (outcome (hd ps)) else SList (map (projr \<circ> outcome) ps)))
   \<and> (join outcome ps = Inl e \<longleftrightarrow>
       (\<exists>pre p post. ps = pre @ p # post \<and> list_all (\<lambda>p. \<exists>v. outcome p = Inr v) pre \<and> outcome p = Inl e))"
proof
  show "list_all (\<lambda>p. \<exists>v. outcome p = Inr v) ps \<longrightarrow>
      join outcome ps = Inr (if length ps = 1 then projr (outcome (hd ps)) else SList (map (projr \<circ> outcome) ps))"
    by (cases ps) (auto simp: join_def join_values_ok split: sum.splits)
  show "join outcome ps = Inl e \<longleftrightarrow>
      (\<exists>pre p post. ps = pre @ p # post \<and> list_all (\<lambda>p. \<exists>v. outcome p = Inr v) pre \<and> outcome p = Inl e)"
    unfolding join_values_error [symmetric] by (simp add: join_def split: sum.splits)
qed

lemma join_result_witness:
  "join (\<lambda>p. Inr (SInt (int p))) [7 :: nat, 8] = Inr (SList [SInt 7, SInt 8])"
  using join_result [of "\<lambda>p. Inr (SInt (int p))" "[7 :: nat, 8]"] by simp

text \<open>
  C28: poll ends. With a positive interval, the loop has returned after at most
  timeout / interval + 2 checks, however slow the checks and the sleeps are.
\<close>

theorem poll_terminates:
  assumes "0 < interval" and "0 \<le> timeout" and "poll_timed (start + timeout) interval start rs"
    and "timeout div interval + 2 \<le> int (length rs)"
  shows "waitLoop (start + timeout) interval rs \<noteq> None"
  using waitLoop_rounds [OF assms(1,3)] assms(2,4) by simp

definition demo_round :: "time \<Rightarrow> poll_round" where
  "demo_round t = \<lparr>pr_check = Inr False, pr_now = t, pr_ctx = None, pr_rand = 0\<rparr>"

lemma poll_terminates_witness:
  "waitLoop (0 + 2 * second) second (map demo_round [0, second, 2 * second, 3 * second]) \<noteq> None"
  by (rule poll_terminates) (simp_all add: demo_round_def poll_step_def)

end
