(* ===== verification/Net_IP.thy ===== *)
theory Net_IP
  imports Go_Strings
begin

text \<open>
  IP addresses as Go's standard library reads and prints them: \<^verbatim>\<open>net.ParseIP\<close>, and of
  \<^verbatim>\<open>net/netip\<close> the parsing of an address and of a prefix, the test whether a prefix contains
  an address, and printing. An address is a machine word of its family's width.
\<close>

section \<open>Parsing\<close>

text \<open>A field of a dotted address: one to three digits, no leading zero, at most 255.\<close>

definition ipv4_field :: "string \<Rightarrow> nat option" where
  "ipv4_field s =
     (case parse_nat s of
        None \<Rightarrow> None
      | Some n \<Rightarrow> (if n \<le> 255 \<and> length s \<le> 3 \<and> (length s = 1 \<or> hd s \<noteq> CHR ''0'') then Some n else None))"

definition parse_ipv4 :: "string \<Rightarrow> nat list option" where
  "parse_ipv4 s =
     (let fs = map ipv4_field (split_on (CHR ''.'') s)
      in if length fs = 4 \<and> list_all (\<lambda>f. f \<noteq> None) fs then Some (map the fs) else None)"

definition hex_val :: "char \<Rightarrow> nat option" where
  "hex_val c =
     (let n = of_char c :: nat
      in if 48 \<le> n \<and> n \<le> 57 then Some (n - 48)
         else if 97 \<le> n \<and> n \<le> 102 then Some (n - 87)
         else if 65 \<le> n \<and> n \<le> 70 then Some (n - 55) else None)"

definition hex_group :: "string \<Rightarrow> nat option" where
  "hex_group s =
     (if s = [] \<or> 4 < length s then None
      else Some (foldl (\<lambda>a c. a * 16 + (case hex_val c of None \<Rightarrow> 0 | Some d \<Rightarrow> d)) 0 s))"

text \<open>
  The loop over the groups of an IPv6 address: \<open>room\<close> groups of two bytes are still free,
  \<open>bs\<close> are the bytes so far, \<open>ell\<close> where an ellipsis stood. The result is the bytes read,
  the ellipsis and what was left of the string.
\<close>

fun ipv6_groups :: "nat \<Rightarrow> nat list \<Rightarrow> nat option \<Rightarrow> string \<Rightarrow> (nat list \<times> nat option \<times> string) option" where
  "ipv6_groups 0 bs ell s = Some (bs, ell, s)"
| "ipv6_groups (Suc room) bs ell s =
     (let h = takeWhile (\<lambda>c. hex_val c \<noteq> None) s; rest = dropWhile (\<lambda>c. hex_val c \<noteq> None) s
      in case hex_group h of
           None \<Rightarrow> None
         | Some g \<Rightarrow>
             if rest \<noteq> [] \<and> hd rest = CHR ''.'' then
               (if (ell = None \<and> length bs \<noteq> 12) \<or> 16 < length bs + 4 then None
                else case parse_ipv4 s of None \<Rightarrow> None | Some v4 \<Rightarrow> Some (bs @ v4, ell, []))
             else
               (let bs = bs @ [g div 256, g mod 256]
                in case rest of
                     [] \<Rightarrow> Some (bs, ell, [])
                   | c # s' \<Rightarrow>
                       if c \<noteq> CHR '':'' \<or> s' = [] then None
                       else if hd s' = CHR '':'' then
                         (if ell \<noteq> None then None
                          else if tl s' = [] then Some (bs, Some (length bs), [])
                          else ipv6_groups room bs (Some (length bs)) (tl s'))
                       else ipv6_groups room bs ell s'))"

definition parse_ipv6 :: "string \<Rightarrow> nat list option" where
  "parse_ipv6 s =
     (let ell = (2 \<le> length s \<and> take 2 s = ''::''); s1 = (if ell then drop 2 s else s)
      in if ell \<and> s1 = [] then Some (replicate 16 0)
         else case ipv6_groups 8 [] (if ell then Some 0 else None) s1 of
                None \<Rightarrow> None
              | Some (bs, e, rest) \<Rightarrow>
                  (if rest \<noteq> [] then None
                   else if length bs < 16
                   then (case e of
                           None \<Rightarrow> None
                         | Some k \<Rightarrow> Some (take k bs @ replicate (16 - length bs) 0 @ drop k bs))
                   else (if e \<noteq> None then None else Some bs)))"

text \<open>\<^verbatim>\<open>ParseIP\<close> scans for the first dot, colon or percent sign; a zone is not accepted.\<close>

datatype ip_kind = IPv4 | IPv6

definition is_ip_mark :: "char \<Rightarrow> bool" where
  "is_ip_mark c = (c = CHR ''.'' \<or> c = CHR '':'' \<or> c = CHR ''%'')"

definition parse_ip :: "string \<Rightarrow> ip_kind option" where
  "parse_ip s =
     (case dropWhile (\<lambda>c. \<not> is_ip_mark c) s of
        [] \<Rightarrow> None
      | c # _ \<Rightarrow>
          if c = CHR ''.'' then map_option (\<lambda>_. IPv4) (parse_ipv4 s)
          else if c = CHR ''%'' \<or> CHR ''%'' \<in> set s then None
          else map_option (\<lambda>bs. if take 12 bs = replicate 10 0 @ [255, 255] then IPv4 else IPv6) (parse_ipv6 s))"

section \<open>Addresses and prefixes\<close>

unbundle bit_operations_syntax

datatype ip_addr = IP4 "32 word" | IP6 "128 word"

definition word_of_bytes :: "nat list \<Rightarrow> 'w::len word" where
  "word_of_bytes bs = foldl (\<lambda>w b. push_bit 8 w OR of_nat b) 0 bs"

definition byte_at :: "nat \<Rightarrow> 'w::len word \<Rightarrow> nat" where
  "byte_at i w = unat (drop_bit (8 * i) w AND 255)"

text \<open>\<^verbatim>\<open>netip.ParseAddr\<close>; an IPv6 zone, which a prefix does not accept, is an error here.\<close>

definition parse_addr :: "string \<Rightarrow> ip_addr option" where
  "parse_addr s =
     (case dropWhile (\<lambda>c. \<not> is_ip_mark c) s of
        [] \<Rightarrow> None
      | c # _ \<Rightarrow>
          if c = CHR ''.'' then map_option (\<lambda>bs. IP4 (word_of_bytes bs)) (parse_ipv4 s)
          else if c = CHR ''%'' \<or> CHR ''%'' \<in> set s then None
          else map_option (\<lambda>bs. IP6 (word_of_bytes bs)) (parse_ipv6 s))"

fun bit_len :: "ip_addr \<Rightarrow> nat" where
  "bit_len (IP4 _) = 32"
| "bit_len (IP6 _) = 128"

text \<open>\<^verbatim>\<open>netip.ParsePrefix\<close>: the address before the last slash and a plain decimal number of bits.\<close>

definition parse_prefix :: "string \<Rightarrow> (ip_addr \<times> nat) option" where
  "parse_prefix s =
     (case rcut_at (CHR ''/'') s of
        None \<Rightarrow> None
      | Some (addr, bits) \<Rightarrow>
          (case parse_addr addr of
             None \<Rightarrow> None
           | Some ip \<Rightarrow>
               if 1 < length bits \<and> (hd bits = CHR ''0'' \<or> digit_val (hd bits) = None) then None
               else case parse_int64 bits of
                      None \<Rightarrow> None
                    | Some n \<Rightarrow> if n < 0 \<or> int (bit_len ip) < n then None else Some (ip, nat n)))"

text \<open>\<^verbatim>\<open>Prefix.Contains\<close>: the same family and no difference under the mask.\<close>

fun contains :: "ip_addr \<times> nat \<Rightarrow> ip_addr \<Rightarrow> bool" where
  "contains (IP4 p, n) (IP4 a) = (drop_bit (32 - n) (p XOR a) = 0)"
| "contains (IP6 p, n) (IP6 a) = ((p XOR a) AND NOT (mask (128 - n)) = 0)"
| "contains _ _ = False"

definition format4 :: "32 word \<Rightarrow> string" where
  "format4 w = join_with ''.'' (map (\<lambda>i. format_nat (byte_at i w)) [3, 2, 1, 0])"

text \<open>
  Printing an IPv6 address: the longest run of at least two zero groups, the first of equally
  long ones, becomes a double colon; a mapped IPv4 address keeps its dots.
\<close>

definition hex_char :: "nat \<Rightarrow> char" where
  "hex_char d = (if d < 10 then char_of (48 + d) else char_of (87 + d))"

fun format_hex :: "nat \<Rightarrow> string" where
  "format_hex n = (if n < 16 then [hex_char n] else format_hex (n div 16) @ [hex_char (n mod 16)])"

declare format_hex.simps [simp del]

definition groups6 :: "128 word \<Rightarrow> nat list" where
  "groups6 w = map (\<lambda>i. unat (drop_bit (16 * i) w AND 0xFFFF)) [7, 6, 5, 4, 3, 2, 1, 0]"

definition zero_run :: "nat list \<Rightarrow> (nat \<times> nat) option" where
  "zero_run gs =
     fold (\<lambda>i best. let l = length (takeWhile (\<lambda>g. g = 0) (drop i gs))
                    in if 2 \<le> l \<and> (case best of None \<Rightarrow> 0 | Some (a, b) \<Rightarrow> b - a) < l then Some (i, i + l) else best)
       [0..<length gs] None"

definition format6 :: "128 word \<Rightarrow> string" where
  "format6 w =
     (if drop_bit 32 w = 0xFFFF then ''::ffff:'' @ format4 (ucast w)
      else let gs = groups6 w; pieces = map format_hex gs
           in case zero_run gs of
                None \<Rightarrow> join_with '':'' pieces
              | Some (a, b) \<Rightarrow> join_with '':'' (take a pieces) @ ''::'' @ join_with '':'' (drop b pieces))"

fun addr_string :: "ip_addr \<Rightarrow> string" where
  "addr_string (IP4 w) = format4 w"
| "addr_string (IP6 w) = format6 w"

section \<open>Lemmas\<close>

lemma split_on_set:
  "c \<in> set s \<Longrightarrow> c \<noteq> sep \<Longrightarrow> \<exists>f \<in> set (split_on sep s). c \<in> set f"
proof (induction s)
  case (Cons d s)
  obtain p ps where "split_on sep s = p # ps" by (cases "split_on sep s") auto
  with Cons show ?case by fastforce
qed simp

lemma parse_digits_chars: "parse_digits acc s = Some n \<Longrightarrow> c \<in> set s \<Longrightarrow> digit_val c \<noteq> None"
  by (induction s arbitrary: acc) (auto split: option.splits)

text \<open>What an IPv4 address looks like: short, dots and digits, a digit last.\<close>

lemma parse_ipv4_shape:
  assumes "parse_ipv4 a = Some v"
  shows "a \<noteq> []" and "digit_val (last a) \<noteq> None" and "length a \<le> 15"
    and "list_all (\<lambda>c. c = CHR ''.'' \<or> digit_val c \<noteq> None) a"
proof -
  let ?fs = "split_on (CHR ''.'') a"
  have four: "length ?fs = 4" and ok: "\<forall>f \<in> set ?fs. ipv4_field f \<noteq> None"
    using assms by (auto simp: parse_ipv4_def Let_def list_all_iff split: if_splits)
  have f: "f \<noteq> [] \<and> length f \<le> 3 \<and> (\<forall>c \<in> set f. digit_val c \<noteq> None)" if "f \<in> set ?fs" for f
    using ok that parse_digits_chars [of 0 f]
    by (fastforce simp: ipv4_field_def parse_nat_def split: option.splits if_splits)
  obtain w x y z where fs: "?fs = [w, x, y, z]"
    using four by (auto simp: numeral_eq_Suc length_Suc_conv)
  have a: "a = w @ ''.'' @ x @ ''.'' @ y @ ''.'' @ z"
    using join_split_on [of "CHR ''.''" a] by (simp add: fs)
  have parts: "length w \<le> 3" "length x \<le> 3" "length y \<le> 3" "length z \<le> 3" "z \<noteq> []"
    using f fs by auto
  show "length a \<le> 15" and "a \<noteq> []" using parts by (simp_all add: a)
  have "last z \<in> set z" using parts by simp
  then have "digit_val (last z) \<noteq> None" using f [of z] fs by simp
  with parts(5) show "digit_val (last a) \<noteq> None" by (simp add: a)
  show "list_all (\<lambda>c. c = CHR ''.'' \<or> digit_val c \<noteq> None) a"
    using f split_on_set [of _ a "CHR ''.''"] by (fastforce simp: list_all_iff)
qed

text \<open>Containing is agreement on the leading bits.\<close>

fun addr_bit :: "ip_addr \<Rightarrow> nat \<Rightarrow> bool" where
  "addr_bit (IP4 w) i = bit w i"
| "addr_bit (IP6 w) i = bit w i"

lemma xor_drop_zero_iff:
  fixes p a :: "'w::len word"
  shows "drop_bit k (p XOR a) = 0 \<longleftrightarrow> (\<forall>i. k \<le> i \<and> i < LENGTH('w) \<longrightarrow> bit p i = bit a i)"
proof
  assume h: "drop_bit k (p XOR a) = 0"
  show "\<forall>i. k \<le> i \<and> i < LENGTH('w) \<longrightarrow> bit p i = bit a i"
  proof (intro allI impI)
    fix i
    assume i: "k \<le> i \<and> i < LENGTH('w)"
    have "bit (drop_bit k (p XOR a)) (i - k) = False" using h by simp
    with i show "bit p i = bit a i" by (simp add: bit_drop_bit_eq bit_xor_iff)
  qed
next
  assume "\<forall>i. k \<le> i \<and> i < LENGTH('w) \<longrightarrow> bit p i = bit a i"
  then have "bit p i = bit a i" if "k \<le> i" for i
    using that bit_imp_le_length [of p i] bit_imp_le_length [of a i] by blast
  then show "drop_bit k (p XOR a) = 0"
    by (intro bit_word_eqI) (simp add: bit_drop_bit_eq bit_xor_iff)
qed

lemma xor_mask_zero_iff:
  fixes p a :: "'w::len word"
  shows "(p XOR a) AND NOT (mask k) = 0 \<longleftrightarrow> (\<forall>i. k \<le> i \<and> i < LENGTH('w) \<longrightarrow> bit p i = bit a i)"
proof
  assume h: "(p XOR a) AND NOT (mask k) = 0"
  show "\<forall>i. k \<le> i \<and> i < LENGTH('w) \<longrightarrow> bit p i = bit a i"
  proof (intro allI impI)
    fix i
    assume i: "k \<le> i \<and> i < LENGTH('w)"
    have "bit ((p XOR a) AND NOT (mask k)) i = False" using h by simp
    with i show "bit p i = bit a i" by (simp add: bit_and_iff bit_not_iff bit_xor_iff bit_mask_iff)
  qed
next
  assume "\<forall>i. k \<le> i \<and> i < LENGTH('w) \<longrightarrow> bit p i = bit a i"
  then show "(p XOR a) AND NOT (mask k) = 0"
    by (intro bit_word_eqI) (auto simp: bit_and_iff bit_not_iff bit_xor_iff bit_mask_iff)
qed

lemma contains_iff:
  assumes "n \<le> bit_len p"
  shows "contains (p, n) a \<longleftrightarrow>
    bit_len a = bit_len p \<and> (\<forall>i < bit_len p. bit_len p - n \<le> i \<longrightarrow> addr_bit p i = addr_bit a i)"
  using assms
  by (cases p; cases a)
    (simp_all only: contains.simps xor_drop_zero_iff xor_mask_zero_iff bit_len.simps addr_bit.simps, auto)

lemma byte_word: "of_nat (byte_at i (w::'w::len word)) = drop_bit (8 * i) w AND mask 8"
  by (simp add: byte_at_def mask_eq_exp_minus_1)

lemma word_of_bytes4: "word_of_bytes [byte_at 3 w, byte_at 2 w, byte_at 1 w, byte_at 0 w] = (w :: 32 word)"
proof (rule bit_word_eqI)
  fix n
  assume "n < LENGTH(32)"
  then have n: "n < 32" by simp
  consider "n < 8" | "8 \<le> n" "n < 16" | "16 \<le> n" "n < 24" | "24 \<le> n" "n < 32" using n by linarith
  then show "bit (word_of_bytes [byte_at 3 w, byte_at 2 w, byte_at 1 w, byte_at 0 w] :: 32 word) n = bit w n"
    by cases (auto simp: word_of_bytes_def byte_word bit_or_iff bit_push_bit_iff bit_and_iff bit_drop_bit_eq bit_mask_iff)
qed

lemma digit_char_zero: "0 < d \<Longrightarrow> d < 10 \<Longrightarrow> digit_char d \<noteq> CHR ''0''"
  using digit_val_char [of d] by (auto simp: digit_val_def)

lemma format_nat_two: "10 \<le> n \<Longrightarrow> n < 100 \<Longrightarrow> format_nat n = [digit_char (n div 10), digit_char (n mod 10)]"
proof -
  assume "10 \<le> n" and "n < 100"
  then have "n div 10 < 10" by linarith
  with \<open>10 \<le> n\<close> show ?thesis by (simp add: format_nat.simps [of n] format_nat.simps [of "n div 10"])
qed

lemma format_nat_byte:
  assumes "n \<le> 255"
  shows "length (format_nat n) \<le> 3 \<and> (length (format_nat n) = 1 \<or> hd (format_nat n) \<noteq> CHR ''0'')"
proof -
  consider "n < 10" | "10 \<le> n" "n < 100" | "100 \<le> n" by linarith
  then show ?thesis
  proof cases
    case 1
    then show ?thesis by (simp add: format_nat.simps [of n])
  next
    case 2
    then have "0 < n div 10" "n div 10 < 10" by linarith+
    with 2 show ?thesis by (simp add: format_nat_two digit_char_zero)
  next
    case 3
    then have d: "10 \<le> n div 10" "n div 10 < 100" "0 < n div 10 div 10" "n div 10 div 10 < 10" using assms by linarith+
    with 3 show ?thesis by (simp add: format_nat.simps [of n] format_nat_two [of "n div 10"] digit_char_zero)
  qed
qed

lemma ipv4_field_format: "n \<le> 255 \<Longrightarrow> ipv4_field (format_nat n) = Some n"
  using format_nat_byte [of n] by (simp add: ipv4_field_def)

lemma byte_at_le: "byte_at i (w :: 32 word) \<le> 255"
proof -
  have "drop_bit (8 * i) w AND 255 \<le> 255" by (rule word_and_le1)
  then show ?thesis by (simp add: byte_at_def word_le_nat_alt)
qed

lemma format_nat_no_dot: "CHR ''.'' \<notin> set (format_nat n)"
  using parse_digits_chars [OF parse_format_nat_aux [of n], of "CHR ''.''"] by (auto simp: digit_val_def)

lemma digit_no_mark: "digit_val c \<noteq> None \<Longrightarrow> \<not> is_ip_mark c"
  by (auto simp: is_ip_mark_def digit_val_def)

text \<open>Reading back a printed IPv4 address.\<close>

lemma parse_format4: "parse_addr (format4 w) = Some (IP4 w)"
proof -
  let ?fs = "map (\<lambda>i. format_nat (byte_at i w)) [3, 2, 1, 0]"
  have "split_on (CHR ''.'') (join_with ''.'' ?fs) = ?fs"
    by (rule split_join) (auto simp: format_nat_no_dot)
  then have p4: "parse_ipv4 (format4 w) = Some (map (\<lambda>i. byte_at i w) [3, 2, 1, 0])"
    by (simp add: parse_ipv4_def format4_def ipv4_field_format byte_at_le del: join_with.simps)
  have "list_all (\<lambda>c. \<not> is_ip_mark c) (format_nat (byte_at 3 w))"
    using parse_digits_chars [OF parse_format_nat_aux [of "byte_at 3 w"]] digit_no_mark
    by (auto simp: list_all_iff)
  then have "dropWhile (\<lambda>c. \<not> is_ip_mark c) (format_nat (byte_at 3 w) @ CHR ''.'' # rest) = CHR ''.'' # rest" for rest
    by (rule dropWhile_append_stop) (simp add: is_ip_mark_def)
  then obtain rest where "dropWhile (\<lambda>c. \<not> is_ip_mark c) (format4 w) = CHR ''.'' # rest"
    by (simp add: format4_def)
  with p4 show ?thesis using word_of_bytes4 [of w] by (simp add: parse_addr_def)
qed

end
