(* ===== verification/Discovery.thy ===== *)
theory Discovery
  imports Provider_Types Net_IP "HOL-Library.Sublist"
begin

text \<open>
  Finding and publishing peers: internal/provider/aws/discovery.go (CloudMap) and
  internal/provider/gcp/discovery.go (Service Directory). The cloud clients are parameters:
  CloudMap's lookup is a function from a request to a response, Service Directory is a service
  with a state, whose documented behaviour is the locale \<open>service_directory\<close>.
\<close>

section \<open>CloudMap\<close>

record cloudmap_request =
  cm_namespace :: string
  cm_service :: string
  cm_health :: string

definition healthFilters :: "string \<rightharpoonup> string" where
  "healthFilters =
     [''HEALTHY'' \<mapsto> ''HEALTHY'', ''UNHEALTHY'' \<mapsto> ''UNHEALTHY'', ''ALL'' \<mapsto> ''ALL'',
      ''HEALTHY_OR_ALL'' \<mapsto> ''HEALTHY_OR_ELSE_ALL'']"

definition attr_or_empty :: "(string \<rightharpoonup> string) \<Rightarrow> string \<Rightarrow> string" where
  "attr_or_empty as k = (case as k of None \<Rightarrow> [] | Some v \<Rightarrow> v)"

fun cloudmap_entries :: "(string \<rightharpoonup> string) list \<Rightarrow> (provider_instance list) go_result" where
  "cloudmap_entries [] = Inr []"
| "cloudmap_entries (as # rest) =
     (case (case as ''AWS_INSTANCE_PORT'' of
              None \<Rightarrow> Inr 0
            | Some v \<Rightarrow> (case parse_int64 v of
                None \<Rightarrow> Inl (Wrapf ''failed to convert port to int: %w'' [] (External ''strconv.Atoi''))
              | Some p \<Rightarrow> Inr p)) of
        Inl e \<Rightarrow> Inl e
      | Inr port \<Rightarrow>
          (case cloudmap_entries rest of
             Inl e \<Rightarrow> Inl e
           | Inr es \<Rightarrow> Inr (\<lparr>IPv4Addr = attr_or_empty as ''AWS_INSTANCE_IPV4'',
                             IPv6Addr = attr_or_empty as ''AWS_INSTANCE_IPV6'', Port = port\<rparr> # es)))"

definition aws_discover ::
  "(cloudmap_request \<Rightarrow> ((string \<rightharpoonup> string) list) go_result) \<Rightarrow> string \<Rightarrow> discover_query
    \<Rightarrow> (provider_instance list) go_result" where
  "aws_discover discover_instances dflt_ns q =
     (let namespace = (if q_namespace q = [] then dflt_ns else q_namespace q)
      in case (if q_health q = [] then Some ''HEALTHY'' else healthFilters (q_health q)) of
           None \<Rightarrow> Inl (Errorf ''invalid health status: %s'' [q_health q])
         | Some hsf \<Rightarrow>
             (case discover_instances \<lparr>cm_namespace = namespace, cm_service = q_service q, cm_health = hsf\<rparr> of
                Inl e \<Rightarrow> Inl (Wrapf ''failed to discover instances: %w'' [] e)
              | Inr is \<Rightarrow> cloudmap_entries is))"

section \<open>Service Directory\<close>

record endpoint =
  ep_address :: string
  ep_port :: int

datatype sd_req =
    ResolveService string nat
  | CreateEndpoint string string endpoint
  | DeleteEndpoint string

datatype sd_resp = SdEndpoints "endpoint list" | SdOk | SdNotFound | SdFail go_error

definition servicePath :: "string \<Rightarrow> string \<Rightarrow> string \<Rightarrow> string \<Rightarrow> string" where
  "servicePath project location namespace service =
     ''projects/'' @ project @ ''/locations/'' @ location @ ''/namespaces/'' @ namespace @ ''/services/'' @ service"

definition maxEndpoints :: nat where
  "maxEndpoints = 100"

record sd_discovery =
  sd_project :: string
  sd_location :: string
  sd_namespace :: string

definition endpoint_entry :: "endpoint \<Rightarrow> provider_instance" where
  "endpoint_entry ep =
     (case parse_ip (ep_address ep) of
        Some IPv4 \<Rightarrow> \<lparr>IPv4Addr = ep_address ep, IPv6Addr = [], Port = ep_port ep\<rparr>
      | Some IPv6 \<Rightarrow> \<lparr>IPv4Addr = [], IPv6Addr = ep_address ep, Port = ep_port ep\<rparr>
      | None \<Rightarrow> \<lparr>IPv4Addr = [], IPv6Addr = [], Port = ep_port ep\<rparr>)"

definition gcp_discover ::
  "(sd_req \<Rightarrow> 's \<Rightarrow> sd_resp \<times> 's) \<Rightarrow> sd_discovery \<Rightarrow> discover_query \<Rightarrow> 's
    \<Rightarrow> (provider_instance list) go_result \<times> 's" where
  "gcp_discover serve d q s =
     (if q_health q \<noteq> [] \<and> q_health q \<noteq> ''ALL''
      then (Inl (Errorf ''health_status=%s: Service Directory endpoints carry no health status; use %q and probe the peers yourself''
                   [q_health q, ''ALL'']), s)
      else let namespace = (if q_namespace q = [] then sd_namespace d else q_namespace q)
           in case serve (ResolveService (servicePath (sd_project d) (sd_location d) namespace (q_service q)) maxEndpoints) s of
                (SdEndpoints eps, s') \<Rightarrow> (Inr (map endpoint_entry eps), s')
              | (SdNotFound, s') \<Rightarrow> (Inr [], s')
              | (SdFail e, s') \<Rightarrow> (Inl (Wrapf ''failed to discover instances: %w'' [] e), s')
              | (SdOk, s') \<Rightarrow> (Inr [], s'))"

record registrar =
  rg_project :: string
  rg_location :: string
  rg_namespace :: string
  rg_address :: string
  rg_registered :: string
  rg_registeredAddr :: string

definition endpoint_char :: "char \<Rightarrow> char" where
  "endpoint_char c =
     (let n = of_char c :: nat
      in if (97 \<le> n \<and> n \<le> 122) \<or> (48 \<le> n \<and> n \<le> 57) then c
         else if 65 \<le> n \<and> n \<le> 90 then char_of (n + 32)
         else CHR ''-'')"

definition endpointID :: "string \<Rightarrow> string" where
  "endpointID address =
     (let ident = ''ip-'' @ map endpoint_char address;
          ident = (if 63 < length ident then take 63 ident else ident)
      in trim_right (\<lambda>c. c = CHR ''-'') ident)"

definition endpoint_name :: "string \<Rightarrow> string \<Rightarrow> string" where
  "endpoint_name parent ident = parent @ ''/endpoints/'' @ ident"

definition endpointPath :: "registrar \<Rightarrow> string \<Rightarrow> string \<Rightarrow> string" where
  "endpointPath r service address =
     endpoint_name (servicePath (rg_project r) (rg_location r) (rg_namespace r) service) (endpointID address)"

definition wrap32 :: "int \<Rightarrow> int" where
  "wrap32 i = (i + 2 ^ 31) mod 2 ^ 32 - 2 ^ 31"

fun sd_error :: "sd_resp \<Rightarrow> go_error option" where
  "sd_error (SdFail e) = Some e"
| "sd_error SdNotFound = Some (External ''NotFound'')"
| "sd_error _ = None"

definition sd_register ::
  "(sd_req \<Rightarrow> 's \<Rightarrow> sd_resp \<times> 's) \<Rightarrow> registration \<Rightarrow> registrar \<Rightarrow> 's \<Rightarrow> go_error option \<times> registrar \<times> 's" where
  "sd_register serve reg r s =
     (let namespace = (if r_namespace reg = [] then rg_namespace r else r_namespace reg);
          address = (if r_address reg = [] then rg_address r else r_address reg)
      in if address = [] then
           (Some (Errorf ''cannot register: this instance has no address peers can reach (only a Cloud Run worker pool does; services and jobs support egress but not ingress)'' []), r, s)
         else let parent = servicePath (rg_project r) (rg_location r) namespace (r_service reg);
                  ident = endpointID address;
                  (_, s) = serve (DeleteEndpoint (endpoint_name parent ident)) s;
                  (a, s) = serve (CreateEndpoint parent ident \<lparr>ep_address = address, ep_port = wrap32 (r_port reg)\<rparr>) s
              in case sd_error a of
                   Some e \<Rightarrow> (Some (Wrapf ''failed to register endpoint: %w'' [] e), r, s)
                 | None \<Rightarrow> (None, r\<lparr>rg_registered := r_service reg, rg_registeredAddr := address\<rparr>, s))"

definition sd_deregister ::
  "(sd_req \<Rightarrow> 's \<Rightarrow> sd_resp \<times> 's) \<Rightarrow> registrar \<Rightarrow> 's \<Rightarrow> go_error option \<times> registrar \<times> 's" where
  "sd_deregister serve r s =
     (if rg_registered r = [] then (None, r, s)
      else case serve (DeleteEndpoint (endpointPath r (rg_registered r) (rg_registeredAddr r))) s of
             (SdFail e, s) \<Rightarrow> (Some (Wrapf ''failed to deregister endpoint: %w'' [] e), r, s)
           | (_, s) \<Rightarrow> (None, r\<lparr>rg_registered := []\<rparr>, s))"

section \<open>What the code relies on in Service Directory\<close>

locale service_directory =
  fixes serve :: "sd_req \<Rightarrow> 's \<Rightarrow> sd_resp \<times> 's"
    and eps :: "'s \<Rightarrow> string \<Rightarrow> endpoint option"
  assumes delete_endpoint: "serve (DeleteEndpoint n) s = (a, s') \<Longrightarrow>
      (a = SdOk \<and> eps s n \<noteq> None \<and> eps s' = (eps s)(n := None))
      \<or> (a = SdNotFound \<and> eps s n = None \<and> eps s' = eps s)
      \<or> ((\<exists>e. a = SdFail e) \<and> (eps s' = eps s \<or> eps s' = (eps s)(n := None)))"
    and create_endpoint: "serve (CreateEndpoint p i ep) s = (a, s') \<Longrightarrow>
      (a = SdOk \<and> eps s (endpoint_name p i) = None \<and> eps s' = (eps s)(endpoint_name p i \<mapsto> ep))
      \<or> (a = SdNotFound \<and> eps s' = eps s)
      \<or> ((\<exists>e. a = SdFail e) \<and> (eps s' = eps s \<or> eps s' = (eps s)(endpoint_name p i \<mapsto> ep)))"
begin

text \<open>Where a registration publishes: the namespace and the address it uses.\<close>

lemma register_ok:
  assumes "sd_register serve reg r s = (None, r', s')"
  shows "\<exists>ns addr.
    ns = (if r_namespace reg = [] then rg_namespace r else r_namespace reg)
    \<and> addr = (if r_address reg = [] then rg_address r else r_address reg) \<and> addr \<noteq> []
    \<and> r' = r\<lparr>rg_registered := r_service reg, rg_registeredAddr := addr\<rparr>
    \<and> eps s' = (eps s)(endpoint_name (servicePath (rg_project r) (rg_location r) ns (r_service reg)) (endpointID addr)
                        \<mapsto> \<lparr>ep_address = addr, ep_port = wrap32 (r_port reg)\<rparr>)"
proof -
  define ns where "ns = (if r_namespace reg = [] then rg_namespace r else r_namespace reg)"
  define addr where "addr = (if r_address reg = [] then rg_address r else r_address reg)"
  define parent where "parent = servicePath (rg_project r) (rg_location r) ns (r_service reg)"
  let ?n = "endpoint_name parent (endpointID addr)"
  let ?ep = "\<lparr>ep_address = addr, ep_port = wrap32 (r_port reg)\<rparr>"
  obtain a1 s1 where d: "serve (DeleteEndpoint ?n) s = (a1, s1)" by fastforce
  obtain a2 s2 where c: "serve (CreateEndpoint parent (endpointID addr) ?ep) s1 = (a2, s2)" by fastforce
  have "addr \<noteq> []" and a2: "sd_error a2 = None" and r': "r' = r\<lparr>rg_registered := r_service reg, rg_registeredAddr := addr\<rparr>"
    and s': "s' = s2"
    using assms d c unfolding sd_register_def Let_def ns_def [symmetric] addr_def [symmetric] parent_def [symmetric]
    by (auto split: if_splits option.splits)
  from create_endpoint [OF c] a2 have "eps s2 = (eps s1)(?n \<mapsto> ?ep)" by auto
  moreover have "(eps s1)(?n \<mapsto> ?ep) = (eps s)(?n \<mapsto> ?ep)"
    using delete_endpoint [OF d] by auto
  ultimately show ?thesis
    using \<open>addr \<noteq> []\<close> r' s' unfolding ns_def addr_def parent_def by auto
qed

lemma deregister_ok:
  assumes "sd_deregister serve r s = (None, r', s')" and "rg_registered r \<noteq> []"
  shows "eps s' = (eps s)(endpointPath r (rg_registered r) (rg_registeredAddr r) := None)"
    and "r' = r\<lparr>rg_registered := []\<rparr>"
proof -
  let ?n = "endpointPath r (rg_registered r) (rg_registeredAddr r)"
  obtain a s1 where d: "serve (DeleteEndpoint ?n) s = (a, s1)" by fastforce
  with assms have "\<nexists>e. a = SdFail e" and s': "s' = s1" and "r' = r\<lparr>rg_registered := []\<rparr>"
    by (auto simp: sd_deregister_def split: sd_resp.splits)
  then show "r' = r\<lparr>rg_registered := []\<rparr>" by simp
  show "eps s' = (eps s)(?n := None)"
    using delete_endpoint [OF d] \<open>\<nexists>e. a = SdFail e\<close> s' by (auto simp: fun_upd_idem)
qed

end

text \<open>A directory that answers: \<open>parents\<close> are the services it knows, under which endpoints can be made.\<close>

locale service_directory_up = service_directory serve eps
  for serve :: "sd_req \<Rightarrow> 's \<Rightarrow> sd_resp \<times> 's"
    and eps :: "'s \<Rightarrow> string \<Rightarrow> endpoint option" +
  fixes parents :: "'s \<Rightarrow> string \<Rightarrow> bool"
  assumes delete_answers: "fst (serve (DeleteEndpoint n) s) \<noteq> SdFail e"
    and create_answers: "parents s p \<Longrightarrow> eps s (endpoint_name p i) = None \<Longrightarrow> fst (serve (CreateEndpoint p i ep) s) = SdOk"
    and parents_kept: "parents (snd (serve q s)) p = parents s p"
begin

lemma register_answers:
  assumes "(if r_address reg = [] then rg_address r else r_address reg) \<noteq> []"
    and "parents s (servicePath (rg_project r) (rg_location r) (if r_namespace reg = [] then rg_namespace r else r_namespace reg) (r_service reg))"
  shows "fst (sd_register serve reg r s) = None"
proof -
  define addr where "addr = (if r_address reg = [] then rg_address r else r_address reg)"
  define parent where "parent = servicePath (rg_project r) (rg_location r)
    (if r_namespace reg = [] then rg_namespace r else r_namespace reg) (r_service reg)"
  let ?n = "endpoint_name parent (endpointID addr)"
  let ?ep = "\<lparr>ep_address = addr, ep_port = wrap32 (r_port reg)\<rparr>"
  obtain a1 s1 where d: "serve (DeleteEndpoint ?n) s = (a1, s1)" by fastforce
  with delete_answers [of ?n s] delete_endpoint [OF d] have "eps s1 ?n = None" by auto
  moreover have "parents s1 parent" using parents_kept [of "DeleteEndpoint ?n" s parent] d assms(2) by (simp add: parent_def)
  ultimately have "fst (serve (CreateEndpoint parent (endpointID addr) ?ep) s1) = SdOk" by (intro create_answers)
  then show ?thesis
    using assms(1) d unfolding sd_register_def Let_def addr_def [symmetric] parent_def [symmetric]
    by (auto split: option.splits prod.splits)
qed

lemma deregister_answers: "fst (sd_deregister serve r s) = None"
proof -
  obtain a s1 where d: "serve (DeleteEndpoint (endpointPath r (rg_registered r) (rg_registeredAddr r))) s = (a, s1)" by fastforce
  with delete_answers [of "endpointPath r (rg_registered r) (rg_registeredAddr r)" s] have "a \<noteq> SdFail e" for e by simp
  with d show ?thesis by (cases a) (auto simp: sd_deregister_def)
qed

end

section \<open>A reference directory\<close>

text \<open>A directory as a list of named endpoints: the parameter's concrete instance.\<close>

type_synonym sd_entries = "(string \<times> endpoint) list"

fun sd_ref_serve :: "sd_req \<Rightarrow> sd_entries \<Rightarrow> sd_resp \<times> sd_entries" where
  "sd_ref_serve (ResolveService p n) es =
     (SdEndpoints (take n (map snd (filter (\<lambda>(k, _). prefix (p @ ''/endpoints/'') k) es))), es)"
| "sd_ref_serve (CreateEndpoint p i ep) es =
     (if map_of es (endpoint_name p i) = None then (SdOk, (endpoint_name p i, ep) # es)
      else (SdFail (External ''AlreadyExists''), es))"
| "sd_ref_serve (DeleteEndpoint n) es =
     (if map_of es n = None then (SdNotFound, es) else (SdOk, filter (\<lambda>(k, _). k \<noteq> n) es))"

lemma map_of_filter_key: "map_of (filter (\<lambda>(k, _). k \<noteq> n) es) = (map_of es)(n := None)"
  by (induction es) (auto simp: fun_eq_iff)

interpretation sdref: service_directory sd_ref_serve map_of
  by unfold_locales (auto simp: map_of_filter_key split: if_splits)

interpretation sdup: service_directory_up sd_ref_serve map_of "\<lambda>_ _. True"
  by unfold_locales (auto simp: map_of_filter_key split: if_splits)

section \<open>Endpoint names\<close>

definition endpoint_id_char :: "char \<Rightarrow> bool" where
  "endpoint_id_char c =
     (let n = of_char c :: nat in (97 \<le> n \<and> n \<le> 122) \<or> (48 \<le> n \<and> n \<le> 57) \<or> c = CHR ''-'')"

lemma endpoint_char_ok: "endpoint_id_char (endpoint_char c)"
  by (auto simp: endpoint_char_def endpoint_id_char_def Let_def)

lemma trim_right_keep: "\<not> p c \<Longrightarrow> trim_right p (xs @ [c] @ ys) = xs @ [c] @ trim_right p ys"
  by (cases "\<exists>y \<in> set ys. \<not> p y")
    (auto simp: trim_right_def dropWhile_append dropWhile_eq_Nil_conv)

lemma trim_right_none: "xs \<noteq> [] \<Longrightarrow> \<not> p (last xs) \<Longrightarrow> trim_right p xs = xs"
  by (cases xs rule: rev_cases) (auto simp: trim_right_def)

lemma endpointID_split:
  "\<exists>rest. endpointID a = ''ip'' @ rest \<and> length rest \<le> 61 \<and> list_all endpoint_id_char rest
    \<and> (rest = [] \<or> last rest \<noteq> CHR ''-'')"
proof -
  define body where "body = CHR ''-'' # map endpoint_char (take 60 a)"
  have "(if 63 < length (''ip-'' @ map endpoint_char a) then take 63 (''ip-'' @ map endpoint_char a)
      else ''ip-'' @ map endpoint_char a) = ''i'' @ [CHR ''p''] @ body"
    by (simp add: body_def take_map)
  then have e: "endpointID a = ''ip'' @ trim_right (\<lambda>c. c = CHR ''-'') body"
    unfolding endpointID_def Let_def by (simp add: trim_right_keep [where xs = "''i''", simplified])
  have "list_all endpoint_id_char body"
    by (simp add: body_def list_all_iff endpoint_char_ok) (simp add: endpoint_id_char_def)
  then have "list_all endpoint_id_char (trim_right (\<lambda>c. c = CHR ''-'') body)"
    using set_trim_right [of "\<lambda>c. c = CHR ''-''" body] by (auto simp: list_all_iff)
  moreover have "length (trim_right (\<lambda>c. c = CHR ''-'') body) \<le> 61"
    using length_trim_right [of "\<lambda>c. c = CHR ''-''" body] by (simp add: body_def)
  ultimately show ?thesis
    using e trim_right_last [of "\<lambda>c. c = CHR ''-''" body] by blast
qed

lemma endpoint_char_ipv4:
  "c = CHR ''.'' \<or> digit_val c \<noteq> None \<Longrightarrow> endpoint_char c = (if c = CHR ''.'' then CHR ''-'' else c)"
  by (auto simp: endpoint_char_def digit_val_def Let_def split: if_splits)

lemma endpointID_ipv4:
  assumes "parse_ipv4 a = Some v"
  shows "endpointID a = ''ip-'' @ map endpoint_char a"
proof -
  note sh = parse_ipv4_shape [OF assms]
  have "last a \<in> set a" using sh(1) by simp
  then have "endpoint_char (last a) \<noteq> CHR ''-''"
    using sh(2) endpoint_char_ipv4 [of "last a"] by (auto simp: digit_val_def split: if_splits)
  then have "last (''ip-'' @ map endpoint_char a) \<noteq> CHR ''-''"
    using sh(1) by (simp add: last_map)
  then have "trim_right (\<lambda>c. c = CHR ''-'') (''ip-'' @ map endpoint_char a) = ''ip-'' @ map endpoint_char a"
    by (intro trim_right_none) auto
  then show ?thesis using sh(3) by (simp add: endpointID_def)
qed

lemma endpoint_char_inj:
  assumes "list_all (\<lambda>c. c = CHR ''.'' \<or> digit_val c \<noteq> None) a"
    and "list_all (\<lambda>c. c = CHR ''.'' \<or> digit_val c \<noteq> None) b"
    and "map endpoint_char a = map endpoint_char b"
  shows "a = b"
proof (rule list.inj_map_strong [OF _ assms(3)])
  fix x y
  assume x: "x \<in> set a" and y: "y \<in> set b" and eq: "endpoint_char x = endpoint_char y"
  have px: "x = CHR ''.'' \<or> digit_val x \<noteq> None" and py: "y = CHR ''.'' \<or> digit_val y \<noteq> None"
    using assms(1,2) x y by (auto simp: list_all_iff)
  with eq endpoint_char_ipv4 [OF px] endpoint_char_ipv4 [OF py] digit_val_sign(1) show "x = y" by metis
qed

section \<open>Properties\<close>

text \<open>
  Endpoint ids are valid for Service Directory whatever the address: they begin with
  ip, have at most 63 characters, all of them lower-case letters, digits or dashes, and do
  not end in a dash.
\<close>

theorem endpoint_id_valid:
  "take 2 (endpointID a) = ''ip'' \<and> length (endpointID a) \<le> 63
   \<and> list_all endpoint_id_char (endpointID a) \<and> last (endpointID a) \<noteq> CHR ''-''"
proof -
  from endpointID_split [of a] obtain rest where
    e: "endpointID a = ''ip'' @ rest" "length rest \<le> 61" "list_all endpoint_id_char rest"
      "rest = [] \<or> last rest \<noteq> CHR ''-''" by blast
  then show ?thesis by (auto simp: endpoint_id_char_def)
qed

text \<open>
  Instances with different IPv4 addresses publish under different endpoint ids, so no
  registration overwrites another live instance's.
\<close>

theorem endpoint_id_distinguishes_ipv4:
  assumes "parse_ipv4 a \<noteq> None" and "parse_ipv4 b \<noteq> None" and "a \<noteq> b"
  shows "endpointID a \<noteq> endpointID b"
proof
  assume eq: "endpointID a = endpointID b"
  from assms(1,2) obtain v w where v: "parse_ipv4 a = Some v" and w: "parse_ipv4 b = Some w" by auto
  from eq have "map endpoint_char a = map endpoint_char b"
    by (simp add: endpointID_ipv4 [OF v] endpointID_ipv4 [OF w])
  with endpoint_char_inj [OF parse_ipv4_shape(4) [OF v] parse_ipv4_shape(4) [OF w]] assms(3)
  show False by blast
qed

lemma endpoint_id_distinguishes_ipv4_witness: "endpointID ''10.1.0.11'' \<noteq> endpointID ''10.10.1.1''"
proof -
  have "parse_ipv4 ''10.1.0.11'' \<noteq> None" and "parse_ipv4 ''10.10.1.1'' \<noteq> None"
    by (simp_all add: parse_ipv4_def ipv4_field_def parse_nat_def digit_val_def)
  from endpoint_id_distinguishes_ipv4 [OF this] show ?thesis by simp
qed

text \<open>
  C30: register then deregister, in the registrar's own namespace, leaves the directory as it
  was but for this instance's endpoint, which is gone.
\<close>

theorem register_deregister:
  assumes "service_directory serve eps" and "r_service reg \<noteq> []"
    and "r_namespace reg = [] \<or> r_namespace reg = rg_namespace r"
    and "sd_register serve reg r s = (None, r1, s1)" and "sd_deregister serve r1 s1 = (None, r2, s2)"
  shows "eps s2 = (eps s)(endpointPath r (r_service reg) (if r_address reg = [] then rg_address r else r_address reg) := None)
    \<and> rg_registered r2 = []"
proof -
  note reg = service_directory.register_ok [OF assms(1,4)]
  from reg assms(2) have "rg_registered r1 \<noteq> []" by auto
  from service_directory.deregister_ok [OF assms(1,5) this] reg assms(3) show ?thesis
    by (auto simp: endpointPath_def)
qed

definition demo_registrar :: registrar where
  "demo_registrar = \<lparr>rg_project = ''p'', rg_location = ''r1'', rg_namespace = ''ns'', rg_address = ''10.0.0.5'',
     rg_registered = [], rg_registeredAddr = []\<rparr>"

definition demo_registration :: "string \<Rightarrow> registration" where
  "demo_registration ns = \<lparr>r_namespace = ns, r_service = ''pd'', r_address = [], r_port = 2379\<rparr>"

abbreviation demo_registered :: "string \<Rightarrow> go_error option \<times> registrar \<times> sd_entries" where
  "demo_registered ns \<equiv> sd_register sd_ref_serve (demo_registration ns) demo_registrar []"

abbreviation demo_deregistered :: "string \<Rightarrow> go_error option \<times> registrar \<times> sd_entries" where
  "demo_deregistered ns \<equiv>
     sd_deregister sd_ref_serve (fst (snd (demo_registered ns))) (snd (snd (demo_registered ns)))"

lemma demo_registered_ok:
  "ns \<in> {[], ''blue''} \<Longrightarrow> demo_registered ns = (None, fst (snd (demo_registered ns)), snd (snd (demo_registered ns)))"
  "ns \<in> {[], ''blue''} \<Longrightarrow> demo_deregistered ns = (None, fst (snd (demo_deregistered ns)), snd (snd (demo_deregistered ns)))"
  by (auto simp: demo_registrar_def demo_registration_def sd_register_def sd_deregister_def Let_def
      endpointPath_def endpoint_name_def servicePath_def)

lemma register_deregister_witness:
  "map_of (snd (snd (demo_deregistered []))) = Map.empty(endpointPath demo_registrar ''pd'' ''10.0.0.5'' := None)"
  using register_deregister [OF sdref.service_directory_axioms _ _ demo_registered_ok(1) demo_registered_ok(2), of "[]"]
  by (simp add: demo_registration_def demo_registrar_def)

text \<open>
  C40: register in a namespace other than the registrar's own, then deregister, over a directory
  that answers and knows the service: both calls succeed, the registrar takes the endpoint for gone,
  and it is still published, because deregister looks in the registrar's own namespace and takes
  NotFound for success. (The instance has an address, the service a name, and neither namespace
  contains a slash.)
\<close>

theorem register_other_namespace_leaks:
  assumes "service_directory_up serve eps parents" and "r_service reg \<noteq> []"
    and "r_namespace reg \<noteq> []" and "r_namespace reg \<noteq> rg_namespace r"
    and "CHR ''/'' \<notin> set (r_namespace reg)" and "CHR ''/'' \<notin> set (rg_namespace r)"
    and "(if r_address reg = [] then rg_address r else r_address reg) \<noteq> []"
    and "parents s (servicePath (rg_project r) (rg_location r) (r_namespace reg) (r_service reg))"
    and "sd_register serve reg r s = (e1, r1, s1)" and "sd_deregister serve r1 s1 = (e2, r2, s2)"
  shows "e1 = None \<and> e2 = None \<and> rg_registered r2 = []
    \<and> eps s2 (endpoint_name (servicePath (rg_project r) (rg_location r) (r_namespace reg) (r_service reg))
        (endpointID (if r_address reg = [] then rg_address r else r_address reg))) \<noteq> None"
proof -
  define addr where "addr = (if r_address reg = [] then rg_address r else r_address reg)"
  have dir: "service_directory serve eps" using assms(1) by (simp add: service_directory_up_def)
  have e1: "e1 = None" using service_directory_up.register_answers [OF assms(1,7), of s] assms(3,8,9) by simp
  have e2: "e2 = None" using service_directory_up.deregister_answers [OF assms(1), of r1 s1] assms(10) by simp
  note reg = service_directory.register_ok [OF dir assms(9) [unfolded e1]]
  from reg assms(2) have "rg_registered r1 \<noteq> []" by auto
  note dereg = service_directory.deregister_ok [OF dir assms(10) [unfolded e2] this]
  have "endpoint_name (servicePath (rg_project r) (rg_location r) (r_namespace reg) (r_service reg)) (endpointID addr)
      \<noteq> endpointPath r (r_service reg) addr"
  proof
    assume eq: "endpoint_name (servicePath (rg_project r) (rg_location r) (r_namespace reg) (r_service reg)) (endpointID addr)
      = endpointPath r (r_service reg) addr"
    then have "cut_at (CHR ''/'') (r_namespace reg @ CHR ''/'' # ''services/'' @ r_service reg @ ''/endpoints/'' @ endpointID addr)
      = cut_at (CHR ''/'') (rg_namespace r @ CHR ''/'' # ''services/'' @ r_service reg @ ''/endpoints/'' @ endpointID addr)"
      by (simp add: endpointPath_def endpoint_name_def servicePath_def)
    with assms(4-6) show False by (simp add: cut_at_append)
  qed
  with reg dereg assms(3) e1 e2 show ?thesis by (auto simp: endpointPath_def addr_def)
qed

lemma register_other_namespace_leaks_witness:
  "fst (demo_deregistered ''blue'') = None
   \<and> map_of (snd (snd (demo_deregistered ''blue'')))
      (endpoint_name (servicePath ''p'' ''r1'' ''blue'' ''pd'') (endpointID ''10.0.0.5'')) \<noteq> None"
proof -
  have triple: "x = (fst x, fst (snd x), snd (snd x))" for x :: "go_error option \<times> registrar \<times> sd_entries" by simp
  from register_other_namespace_leaks [OF sdup.service_directory_up_axioms _ _ _ _ _ _ TrueI triple triple,
      of "demo_registration ''blue''" demo_registrar "[]"] show ?thesis
    by (simp add: demo_registration_def demo_registrar_def)
qed

end
