(* ===== verification/Flags.thy ===== *)
theory Flags
  imports Go_Strings "HOL-Library.List_Lexorder" "HOL-Library.Char_ord" "HOL-Library.Multiset"
begin

text \<open>
  The command line: flags.go (provider options, removed flags) and envflags.go (defaults from
  the environment), with the flag table of \<^verbatim>\<open>init\<close> in main.go. A Go map of strings is an
  association list with distinct keys; \<^verbatim>\<open>sort.Strings\<close> is byte-wise lexicographic. The flag
  package is the standard library's: \<open>set_value\<close> is the \<^verbatim>\<open>Set\<close> of its string and bool
  values, and \<^verbatim>\<open>VisitAll\<close> goes through the flags in the order of their names.
\<close>

section \<open>Provider options\<close>

type_synonym opt_flags = "(string \<times> string) list"

definition opt_string :: "opt_flags \<Rightarrow> string" where
  "opt_string m = join_with '','' (sort (map (\<lambda>(k, v). k @ ''='' @ v) m))"

definition opt_set :: "string \<Rightarrow> opt_flags \<Rightarrow> opt_flags go_result" where
  "opt_set s m =
     (case cut_at (CHR ''='') s of
        None \<Rightarrow> Inl (Errorf ''expected k=v, got %q'' [s])
      | Some (k, v) \<Rightarrow>
          (if k = [] then Inl (Errorf ''expected k=v, got %q'' [s])
           else if map_of m k \<noteq> None then Inl (Errorf ''duplicate -provider-opt key %q'' [k])
           else Inr (m @ [(k, v)])))"

section \<open>Removed flags\<close>

definition renamedFlags :: "(string \<times> string) list" where
  "renamedFlags = [(''kv-table'', ''kv-store''), (''kv-create-table'', ''kv-create'')]"

definition checkRenamedFlags :: "(string \<Rightarrow> bool) \<Rightarrow> go_error option" where
  "checkRenamedFlags passed =
     (case find passed (sort (map fst renamedFlags)) of
        None \<Rightarrow> None
      | Some old \<Rightarrow> Some (Errorf ''-%s has been renamed to -%s (see Migrating in the README)''
          [old, (case map_of renamedFlags old of None \<Rightarrow> [] | Some n \<Rightarrow> n)]))"

section \<open>Flag values\<close>

datatype flag_value = VString string | VBool bool | VOpts opt_flags

definition parse_bool :: "string \<Rightarrow> bool option" where
  "parse_bool s =
     (if s \<in> {''1'', ''t'', ''T'', ''TRUE'', ''true'', ''True''} then Some True
      else if s \<in> {''0'', ''f'', ''F'', ''FALSE'', ''false'', ''False''} then Some False
      else None)"

fun set_value :: "string \<Rightarrow> flag_value \<Rightarrow> flag_value go_result" where
  "set_value s (VString _) = Inr (VString s)"
| "set_value s (VBool _) =
     (case parse_bool s of None \<Rightarrow> Inl (External ''parse error'') | Some b \<Rightarrow> Inr (VBool b))"
| "set_value s (VOpts m) = (case opt_set s m of Inl e \<Rightarrow> Inl e | Inr m' \<Rightarrow> Inr (VOpts m'))"

record flag_entry =
  fl_name :: string
  fl_value :: flag_value
  fl_passed :: bool

text \<open>The flags muster registers, unset, in the order \<^verbatim>\<open>VisitAll\<close> meets them.\<close>

definition muster_flags :: "flag_entry list" where
  "muster_flags =
     map (\<lambda>(n, v). \<lparr>fl_name = n, fl_value = v, fl_passed = False\<rparr>)
       [(''allow-run'', VBool False), (''control-socket'', VString []), (''health-probe'', VBool False),
        (''kv-create'', VBool False), (''kv-create-table'', VString []), (''kv-key-prefix'', VString []),
        (''kv-store'', VString []), (''kv-table'', VString []), (''namespace'', VString []),
        (''provider'', VString []), (''provider-help'', VBool False), (''provider-opt'', VOpts []),
        (''script'', VString [])]"

section \<open>Defaults from the environment\<close>

definition envExempt :: "string \<Rightarrow> bool" where
  "envExempt n = (n \<in> {''health-probe'', ''provider-help''})"

definition envRepeatable :: "string \<Rightarrow> bool" where
  "envRepeatable n = (n = ''provider-opt'')"

definition env_char :: "char \<Rightarrow> char" where
  "env_char c = to_upper_char (if c = CHR ''-'' then CHR ''_'' else c)"

definition envName :: "string \<Rightarrow> string" where
  "envName n = ''MUSTER_'' @ map env_char n"

fun set_all :: "string \<Rightarrow> string list \<Rightarrow> flag_value \<Rightarrow> flag_value \<times> go_error option" where
  "set_all var [] fv = (fv, None)"
| "set_all var (v # vs) fv =
     (case set_value (trim_space v) fv of
        Inl e \<Rightarrow> (fv, Some (Wrapf ''%s: %w'' [var] e))
      | Inr fv' \<Rightarrow> set_all var vs fv')"

definition env_settable :: "flag_entry \<Rightarrow> bool" where
  "env_settable f = (\<not> fl_passed f \<and> \<not> envExempt (fl_name f) \<and> map_of renamedFlags (fl_name f) = None)"

definition apply_env_flag :: "(string \<Rightarrow> string option) \<Rightarrow> flag_entry \<Rightarrow> flag_entry \<times> go_error option" where
  "apply_env_flag lookup f =
     (if \<not> env_settable f then (f, None)
      else case lookup (envName (fl_name f)) of
             None \<Rightarrow> (f, None)
           | Some raw \<Rightarrow>
               (if raw = [] then (f, None)
                else let values = (if envRepeatable (fl_name f) then split_on (CHR '','') raw else [raw]);
                         (fv, e) = set_all (envName (fl_name f)) values (fl_value f)
                     in (f\<lparr>fl_value := fv\<rparr>, e)))"

fun applyEnvDefaults :: "(string \<Rightarrow> string option) \<Rightarrow> flag_entry list \<Rightarrow> flag_entry list \<times> go_error option" where
  "applyEnvDefaults lookup [] = ([], None)"
| "applyEnvDefaults lookup (f # fs) =
     (case apply_env_flag lookup f of
        (f', Some e) \<Rightarrow> (f' # fs, Some e)
      | (f', None) \<Rightarrow> (case applyEnvDefaults lookup fs of (fs', e) \<Rightarrow> (f' # fs', e)))"

definition envSettableFlags :: "flag_entry list \<Rightarrow> string list" where
  "envSettableFlags fs =
     map (\<lambda>f. envName (fl_name f))
       (filter (\<lambda>f. \<not> envExempt (fl_name f) \<and> map_of renamedFlags (fl_name f) = None) fs)"

section \<open>What the environment may change\<close>

lemma apply_env_flag_frame: "\<not> env_settable f \<Longrightarrow> apply_env_flag lookup f = (f, None)"
  by (simp add: apply_env_flag_def)

lemma apply_env_flag_keys:
  "fl_name (fst (apply_env_flag lookup f)) = fl_name f \<and> fl_passed (fst (apply_env_flag lookup f)) = fl_passed f"
  by (auto simp: apply_env_flag_def Let_def split: option.splits prod.splits)

lemma applyEnvDefaults_map:
  "snd (applyEnvDefaults lookup fs) = None \<Longrightarrow>
   fst (applyEnvDefaults lookup fs) = map (\<lambda>f. fst (apply_env_flag lookup f)) fs"
  by (induction fs) (auto split: prod.splits option.splits)

lemma applyEnvDefaults_frame:
  "list_all2 (\<lambda>f f'. fl_name f' = fl_name f \<and> fl_passed f' = fl_passed f \<and> (\<not> env_settable f \<longrightarrow> f' = f))
     fs (fst (applyEnvDefaults lookup fs))"
proof (induction fs)
  case (Cons f fs)
  obtain f' e where a: "apply_env_flag lookup f = (f', e)" by fastforce
  have "fl_name f' = fl_name f \<and> fl_passed f' = fl_passed f \<and> (\<not> env_settable f \<longrightarrow> f' = f)"
    using apply_env_flag_keys [of lookup f] apply_env_flag_frame [of f lookup] a by auto
  moreover have "list_all2 (\<lambda>f f'. fl_name f' = fl_name f \<and> fl_passed f' = fl_passed f \<and> (\<not> env_settable f \<longrightarrow> f' = f)) fs fs"
    by (simp add: list_all2_same)
  ultimately show ?case using Cons a by (cases e) (auto split: prod.splits)
qed simp

text \<open>Flag names use lower-case letters, digits and dashes, so their variables are distinct.\<close>

definition flag_char :: "char \<Rightarrow> bool" where
  "flag_char c = (let n = of_char c :: nat in (97 \<le> n \<and> n \<le> 122) \<or> (48 \<le> n \<and> n \<le> 57) \<or> c = CHR ''-'')"

lemma env_char_inj: "flag_char c \<Longrightarrow> flag_char d \<Longrightarrow> env_char c = env_char d \<Longrightarrow> c = d"
proof -
  assume fc: "flag_char c" and fd: "flag_char d" and eq: "env_char c = env_char d"
  have of: "(of_char (env_char x) :: nat) =
      (if x = CHR ''-'' then 95 else if 97 \<le> (of_char x :: nat) then of_char x - 32 else of_char x)"
    if "flag_char x" for x
    using that by (auto simp: flag_char_def env_char_def to_upper_char_def Let_def)
  from eq have "(of_char (env_char c) :: nat) = of_char (env_char d)" by simp
  then have "(of_char c :: nat) = of_char d"
    using fc fd of [OF fc] of [OF fd] by (auto simp: flag_char_def Let_def eq_diff_iff split: if_splits)
  then show "c = d" by simp
qed

lemma envName_inj:
  assumes "list_all flag_char n" and "list_all flag_char m" and "envName n = envName m"
  shows "n = m"
proof (rule list.inj_map_strong)
  show "map env_char n = map env_char m" using assms(3) by (simp add: envName_def)
  fix x y
  assume "x \<in> set n" and "y \<in> set m" and "env_char x = env_char y"
  with assms(1,2) show "x = y" by (auto simp: list_all_iff intro: env_char_inj)
qed

section \<open>Provider options read back\<close>

text \<open>Options that survive the comma-separated form: trimmed, no comma, no equals sign in a key.\<close>

definition opt_ok :: "string \<times> string \<Rightarrow> bool" where
  "opt_ok p = (case p of (k, v) \<Rightarrow>
     k \<noteq> [] \<and> CHR ''='' \<notin> set k \<and> CHR '','' \<notin> set k \<and> CHR '','' \<notin> set v \<and> trim_space (k @ ''='' @ v) = k @ ''='' @ v)"

lemma opt_set_ok:
  assumes "opt_ok (k, v)" and "map_of m k = None"
  shows "opt_set (k @ ''='' @ v) m = Inr (m @ [(k, v)])"
  using assms by (simp add: opt_ok_def opt_set_def cut_at_append)

lemma set_all_opts:
  assumes "list_all opt_ok ps" and "distinct (map fst (m @ ps))"
  shows "set_all var (map (\<lambda>(k, v). k @ ''='' @ v) ps) (VOpts m) = (VOpts (m @ ps), None)"
  using assms
proof (induction ps arbitrary: m)
  case (Cons p ps)
  obtain k v where p: "p = (k, v)" by (cases p)
  have ok: "opt_ok (k, v)" using Cons.prems(1) p by simp
  then have tr: "trim_space (k @ ''='' @ v) = k @ ''='' @ v" by (simp add: opt_ok_def)
  have "map_of m k = None" using Cons.prems(2) p by (auto simp: map_of_eq_None_iff)
  with opt_set_ok [OF ok] have "opt_set (k @ ''='' @ v) m = Inr (m @ [(k, v)])" .
  with tr have "set_all var (map (\<lambda>(k, v). k @ ''='' @ v) (p # ps)) (VOpts m)
      = set_all var (map (\<lambda>(k, v). k @ ''='' @ v) ps) (VOpts (m @ [(k, v)]))" using p by simp
  with Cons.IH [of "m @ [(k, v)]"] Cons.prems p show ?case by auto
qed simp

lemma sort_map_enc:
  fixes f :: "'a \<Rightarrow> 'b :: linorder"
  shows "sort (map f xs) = map f (sort_key f xs)"
  by (rule properties_for_sort) simp_all

lemma opt_string_split:
  assumes "list_all opt_ok m" and "m \<noteq> []"
  shows "split_on (CHR '','') (opt_string m)
    = map (\<lambda>(k, v). k @ ''='' @ v) (sort_key (\<lambda>(k, v). k @ ''='' @ v) m)"
proof -
  let ?enc = "\<lambda>(k, v). k @ ''='' @ v :: string"
  let ?ps = "sort_key ?enc m"
  have "\<forall>x \<in> set (map ?enc ?ps). CHR '','' \<notin> set x"
    using assms(1) by (auto simp: list_all_iff opt_ok_def)
  moreover have "length (map ?enc ?ps) \<noteq> 0" using assms(2) by (simp only: length_map length_sort) simp
  then have "map ?enc ?ps \<noteq> []" by (rule contrapos_nn) (simp only: list.size)
  ultimately have "split_on (CHR '','') (join_with [CHR '',''] (map ?enc ?ps)) = map ?enc ?ps"
    by (intro split_join) assumption+
  then show ?thesis by (simp add: opt_string_def sort_map_enc)
qed

lemma map_of_perm:
  assumes "mset ps = mset m" and "distinct (map fst m)"
  shows "map_of ps = map_of m"
proof -
  have "distinct (map fst ps)"
    using assms by (metis mset_map mset_eq_imp_distinct_iff)
  moreover have "set ps = set m" using assms(1) by (metis set_mset_mset)
  ultimately show ?thesis using assms(2) by (simp add: map_of_inject_set)
qed

section \<open>Properties\<close>

text \<open>
  C35: the environment never overrides the command line. Whatever the variables hold, and
  whether or not one of them is invalid, a flag that was passed, a mode switch and a removed
  flag keep their values, and no flag's name or passed mark changes.
\<close>

theorem env_respects_command_line:
  "list_all2 (\<lambda>f f'. fl_name f' = fl_name f \<and> fl_passed f' = fl_passed f
      \<and> (fl_passed f \<or> envExempt (fl_name f) \<or> map_of renamedFlags (fl_name f) \<noteq> None \<longrightarrow> fl_value f' = fl_value f))
     fs (fst (applyEnvDefaults lookup fs))"
  using applyEnvDefaults_frame [of fs lookup] by (rule list_all2_mono) (auto simp: env_settable_def)

lemma env_respects_command_line_witness:
  "list_all2 (\<lambda>f f'. fl_name f' = fl_name f \<and> fl_passed f' = fl_passed f
      \<and> (fl_passed f \<or> envExempt (fl_name f) \<or> map_of renamedFlags (fl_name f) \<noteq> None \<longrightarrow> fl_value f' = fl_value f))
     muster_flags (fst (applyEnvDefaults (\<lambda>_. Some ''true'') muster_flags))"
  by (rule env_respects_command_line)

text \<open>
  Variables are unambiguous. Two flag names made of lower-case letters, digits and dashes
  have the same MUSTER_ variable only if they are the same name, and all of muster's flags
  are such names.
\<close>

theorem env_names_unambiguous:
  "list_all (\<lambda>f. list_all flag_char (fl_name f)) muster_flags
   \<and> (\<forall>n m. list_all flag_char n \<and> list_all flag_char m \<and> envName n = envName m \<longrightarrow> n = m)"
proof
  show "list_all (\<lambda>f. list_all flag_char (fl_name f)) muster_flags"
    by (simp add: muster_flags_def flag_char_def)
  show "\<forall>n m. list_all flag_char n \<and> list_all flag_char m \<and> envName n = envName m \<longrightarrow> n = m"
    using envName_inj by blast
qed

lemma env_names_unambiguous_witness: "envName ''kv-store'' \<noteq> envName ''kv-create''"
proof
  assume "envName ''kv-store'' = envName ''kv-create''"
  moreover have "list_all flag_char ''kv-store''" and "list_all flag_char ''kv-create''"
    by (simp_all add: flag_char_def)
  ultimately show False using env_names_unambiguous by blast
qed

text \<open>
  Provider options survive the environment. Printing a set of options the way the flag
  prints itself and supplying the text as MUSTER_PROVIDER_OPT gives back the same options,
  if keys and values contain no comma or outer space and keys no equals sign.
\<close>

theorem provider_opts_roundtrip:
  assumes "list_all opt_ok m" and "distinct (map fst m)" and "m \<noteq> []"
    and "lookup ''MUSTER_PROVIDER_OPT'' = Some (opt_string m)"
  shows "\<exists>ps. apply_env_flag lookup \<lparr>fl_name = ''provider-opt'', fl_value = VOpts [], fl_passed = False\<rparr>
      = (\<lparr>fl_name = ''provider-opt'', fl_value = VOpts ps, fl_passed = False\<rparr>, None) \<and> map_of ps = map_of m"
proof -
  let ?enc = "\<lambda>(k, v). k @ ''='' @ v :: string"
  define ps where "ps = sort_key ?enc m"
  have ms: "mset ps = mset m" by (simp add: ps_def)
  have d: "distinct (map fst ps)" using ms assms(2) by (metis mset_map mset_eq_imp_distinct_iff)
  have ok: "list_all opt_ok ps" using assms(1) by (simp add: ps_def list_all_iff)
  have split: "split_on (CHR '','') (opt_string m) = map ?enc ps"
    using opt_string_split [OF assms(1,3)] by (simp add: ps_def)
  have "opt_string m \<noteq> []"
  proof
    assume "opt_string m = []"
    with split have "map ?enc ps = [[]]" by simp
    then obtain k v where "ps = [(k, v)]" and "k @ ''='' @ v = []" by (cases ps) auto
    then show False by simp
  qed
  moreover have "envName ''provider-opt'' = ''MUSTER_PROVIDER_OPT''"
    by code_simp
  ultimately have "apply_env_flag lookup \<lparr>fl_name = ''provider-opt'', fl_value = VOpts [], fl_passed = False\<rparr>
      = (\<lparr>fl_name = ''provider-opt'', fl_value = VOpts ps, fl_passed = False\<rparr>, None)"
    using assms(4) split set_all_opts [OF ok, of "[]" "''MUSTER_PROVIDER_OPT''"] d
    by (simp add: apply_env_flag_def env_settable_def envExempt_def envRepeatable_def renamedFlags_def Let_def)
  with map_of_perm [OF ms assms(2)] show ?thesis by blast
qed

lemma provider_opts_roundtrip_witness:
  "\<exists>ps. apply_env_flag (\<lambda>_. Some (opt_string [(''region'', ''us-central1''), (''kv'', ''firestore'')]))
      \<lparr>fl_name = ''provider-opt'', fl_value = VOpts [], fl_passed = False\<rparr>
      = (\<lparr>fl_name = ''provider-opt'', fl_value = VOpts ps, fl_passed = False\<rparr>, None)
      \<and> map_of ps = map_of [(''region'', ''us-central1''), (''kv'', ''firestore'')]"
  by (rule provider_opts_roundtrip)
    (simp_all add: opt_ok_def trim_space_def trim_right_def is_space_def)

end
