(* ===== verification/Registry.thy ===== *)
theory Registry
  imports Provider_Types Mem_KV "HOL-Library.List_Lexorder" "HOL-Library.Char_ord"
begin

text \<open>
  Which cloud a binary talks to: internal/provider/registry.go and provider.go, the
  registrations of internal/providers (one per build tag) and the in-process provider of
  internal/provider/memkv/provider.go. The registry's two Go maps are association lists; a
  panic of \<^verbatim>\<open>Register\<close> is \<open>None\<close>. The environment is a function from names to values, the empty
  string for an unset variable, as \<^verbatim>\<open>os.Getenv\<close> has it.
\<close>

section \<open>Configuration and capabilities\<close>

type_synonym environment = "string \<Rightarrow> string"

record provider_config =
  c_namespace :: string
  c_kv_store :: string
  c_kv_prefix :: string
  c_options :: "(string \<times> string) list"

definition option_of :: "(string \<times> string) list \<Rightarrow> string \<Rightarrow> string" where
  "option_of opts k = (case map_of opts k of None \<Rightarrow> [] | Some v \<Rightarrow> v)"

record option_spec =
  os_key :: string
  os_default :: string
  os_doc :: string

definition ValidateOptions :: "(string \<times> string) list \<Rightarrow> option_spec list \<Rightarrow> go_error option" where
  "ValidateOptions opts specs =
     (let known = (\<lambda>k. k \<in> set (map os_key specs));
          unknown = sort (filter (\<lambda>k. \<not> known k) (map fst opts))
      in if unknown = [] then None
         else if specs = [] then Some (Errorf ''takes no -provider-opt (got %s)'' [join_with '', '' unknown])
         else Some (Errorf ''unknown -provider-opt %s (accepts %s)''
                [join_with '', '' unknown, join_with '', '' (sort (map os_key specs))]))"

text \<open>
  A provider as the harness uses it: each capability accessor is called once at start-up and
  must be idempotent, so it is the answer itself. What \<^verbatim>\<open>Unimplemented\<close> gives is the default.
\<close>

record ('kv, 'disc, 'fleet, 'reg) provider =
  p_name :: string
  p_self :: "identity go_result"
  p_kv :: "'kv go_result"
  p_discovery :: "'disc go_result"
  p_fleet :: "'fleet go_result"
  p_registrar :: "'reg go_result"

definition Unimplemented :: "string \<Rightarrow> ('kv, 'disc, 'fleet, 'reg) provider" where
  "Unimplemented n =
     \<lparr>p_name = n, p_self = Inl ErrUnsupported, p_kv = Inl ErrUnsupported, p_discovery = Inl ErrUnsupported,
      p_fleet = Inl ErrUnsupported, p_registrar = Inl ErrUnsupported\<rparr>"

section \<open>The registry\<close>

record 'f registry =
  factories :: "(string \<times> 'f) list"
  absent :: "(string \<times> string) list"

definition empty_registry :: "'f registry" where
  "empty_registry = \<lparr>factories = [], absent = []\<rparr>"

definition Register :: "string \<Rightarrow> 'f \<Rightarrow> 'f registry \<Rightarrow> 'f registry option" where
  "Register name f r =
     (if map_of (factories r) name \<noteq> None then None
      else Some (r\<lparr>factories := factories r @ [(name, f)]\<rparr>))"

definition RegisterAbsent :: "string \<Rightarrow> string \<Rightarrow> 'f registry \<Rightarrow> 'f registry" where
  "RegisterAbsent name reason r =
     (if map_of (factories r) name \<noteq> None then r
      else r\<lparr>absent := (name, reason) # filter (\<lambda>(n, _). n \<noteq> name) (absent r)\<rparr>)"

definition sortedKeys :: "(string \<times> 'a) list \<Rightarrow> string list" where
  "sortedKeys m = sort (map fst m)"

definition Available :: "'f registry \<Rightarrow> string list" where
  "Available r = sortedKeys (factories r)"

definition Known :: "'f registry \<Rightarrow> string list" where
  "Known r = sort (sortedKeys (factories r) @ sortedKeys (absent r))"

section \<open>Selection\<close>

definition envProvider :: string where
  "envProvider = ''MUSTER_PROVIDER''"

definition detectors :: "(string \<times> string list) list" where
  "detectors =
     [(''aws'', [''ECS_CONTAINER_METADATA_URI_V4'', ''ECS_CONTAINER_METADATA_URI'']),
      (''gcp'', [''K_SERVICE'', ''CLOUD_RUN_JOB'', ''CLOUD_RUN_WORKER_POOL''])]"

definition Autodetect :: "environment \<Rightarrow> string option" where
  "Autodetect env =
     map_option fst (find (\<lambda>(name, vars). list_ex (\<lambda>v. env v \<noteq> []) vars) detectors)"

definition select_named :: "'f registry \<Rightarrow> string \<Rightarrow> 'f go_result" where
  "select_named r name =
     (case map_of (factories r) name of
        Some f \<Rightarrow> Inr f
      | None \<Rightarrow>
          (case map_of (absent r) name of
             Some reason \<Rightarrow> Inl (Errorf ''provider %q: %s'' [name, reason])
           | None \<Rightarrow> Inl (Errorf ''unknown provider %q (known: %s)'' [name, join_with '', '' (Known r)])))"

definition Select :: "environment \<Rightarrow> 'f registry \<Rightarrow> string \<Rightarrow> 'f go_result" where
  "Select env r name =
     (if name = []
      then (case Autodetect env of
              None \<Rightarrow> Inl (Errorf
                ''could not determine the provider from the environment; pass -provider or set %s (available: %s)''
                [envProvider, join_with '', '' (Available r)])
            | Some detected \<Rightarrow> select_named r detected)
      else select_named r name)"

section \<open>What a build registers\<close>

definition rebuild_gcp :: string where
  "rebuild_gcp = ''this muster was built without gcp support; rebuild with `go build -tags gcp`''"

definition rebuild_aws :: string where
  "rebuild_aws = ''this muster was built for another cloud; rebuild without -tags gcp''"

text \<open>
  The provider packages' own \<^verbatim>\<open>init\<close> functions run before that of the package importing them,
  so the registrations come first and the note about the missing cloud last.
\<close>

definition build_registry :: "bool \<Rightarrow> 'f \<Rightarrow> 'f \<Rightarrow> 'f \<Rightarrow> 'f registry option" where
  "build_registry gcp_tag aws gcp mem =
     (if gcp_tag
      then Option.bind (Register ''gcp'' gcp empty_registry) (\<lambda>r.
           map_option (RegisterAbsent ''aws'' rebuild_aws) (Register ''mem'' mem r))
      else Option.bind (Register ''aws'' aws empty_registry) (\<lambda>r.
           map_option (RegisterAbsent ''gcp'' rebuild_gcp) (Register ''mem'' mem r)))"

definition own_cloud :: "bool \<Rightarrow> string" where
  "own_cloud gcp_tag = (if gcp_tag then ''gcp'' else ''aws'')"

section \<open>The in-process provider\<close>

definition mem_open :: "string go_result \<Rightarrow> provider_config \<Rightarrow> ((mem_kv, 'd, 'fl, 'rg) provider) go_result" where
  "mem_open hostname cfg =
     (case ValidateOptions (c_options cfg) [] of
        Some e \<Rightarrow> Inl e
      | None \<Rightarrow>
          let owner = (case hostname of Inr h \<Rightarrow> h | Inl _ \<Rightarrow> [])
          in Inr ((Unimplemented ''mem'')\<lparr>p_kv :=
                (if c_kv_store cfg \<noteq> [] then Inr (mem_new owner) else Inl ErrNotConfigured)\<rparr>))"

section \<open>Lemmas\<close>

text \<open>The keys stay distinct, and a name is not both registered and absent while absences come last.\<close>

definition registry_ok :: "'f registry \<Rightarrow> bool" where
  "registry_ok r \<longleftrightarrow> distinct (map fst (factories r)) \<and> distinct (map fst (absent r))"

lemma Register_ok: "registry_ok r \<Longrightarrow> Register name f r = Some r' \<Longrightarrow> registry_ok r'"
  by (auto simp: registry_ok_def Register_def map_of_eq_None_iff split: if_splits)

lemma RegisterAbsent_ok: "registry_ok r \<Longrightarrow> registry_ok (RegisterAbsent name reason r)"
  by (auto simp: registry_ok_def RegisterAbsent_def distinct_map_filter)

lemma Autodetect_cases:
  "Autodetect env =
     (if env ''ECS_CONTAINER_METADATA_URI_V4'' \<noteq> [] \<or> env ''ECS_CONTAINER_METADATA_URI'' \<noteq> [] then Some ''aws''
      else if env ''K_SERVICE'' \<noteq> [] \<or> env ''CLOUD_RUN_JOB'' \<noteq> [] \<or> env ''CLOUD_RUN_WORKER_POOL'' \<noteq> [] then Some ''gcp''
      else None)"
  by (simp add: Autodetect_def detectors_def)

lemma build_registry_entries:
  "build_registry gcp_tag aws gcp mem = Some r \<Longrightarrow>
   factories r = [(if gcp_tag then ''gcp'' else ''aws'', if gcp_tag then gcp else aws), (''mem'', mem)]
   \<and> absent r = [if gcp_tag then (''aws'', rebuild_aws) else (''gcp'', rebuild_gcp)]"
  by (auto simp: build_registry_def Register_def RegisterAbsent_def empty_registry_def split: if_splits)

lemma build_registry_ok: "build_registry gcp_tag aws gcp mem \<noteq> None"
  by (simp add: build_registry_def Register_def empty_registry_def)

lemma sort_Nil_iff: "sort xs = [] \<longleftrightarrow> xs = []"
  by (metis set_sort set_empty)

lemma ValidateOptions_None_iff:
  "ValidateOptions opts specs = None \<longleftrightarrow> list_all (\<lambda>(k, v). k \<in> set (map os_key specs)) opts"
proof -
  have "ValidateOptions opts specs = None \<longleftrightarrow> filter (\<lambda>k. k \<notin> set (map os_key specs)) (map fst opts) = []"
    by (simp add: ValidateOptions_def Let_def sort_Nil_iff)
  also have "\<dots> \<longleftrightarrow> list_all (\<lambda>(k, v). k \<in> set (map os_key specs)) opts"
    by (induction opts) auto
  finally show ?thesis .
qed

text \<open>
  While every absence is recorded after the registrations, as the builds do, no name is listed
  twice; the other order leaves a registered name among the absent ones as well.
\<close>

lemma Known_distinct:
  assumes "registry_ok r" and "set (map fst (factories r)) \<inter> set (map fst (absent r)) = {}"
  shows "distinct (Known (RegisterAbsent name reason r))"
  using assms RegisterAbsent_ok [OF assms(1), of name reason]
  by (auto simp: Known_def sortedKeys_def registry_ok_def RegisterAbsent_def map_of_eq_None_iff split: if_splits)

section \<open>Properties\<close>

text \<open>
  C36: provider selection. In either build no registration panics, and for every environment
  and every -provider a factory is selected exactly when it is named, or detected if nothing
  is named, and compiled in: the in-process provider only by name, the build's own cloud by
  name or by its runtime's variables. The other cloud, named or detected, is answered with
  the instruction to rebuild and not with an unknown name.
\<close>

theorem provider_selection:
  "\<exists>r. build_registry gcp_tag ''aws'' ''gcp'' ''mem'' = Some r
    \<and> (Select env r name = Inr f \<longleftrightarrow>
         (f = name \<and> name \<in> {own_cloud gcp_tag, ''mem''})
         \<or> (name = [] \<and> f = own_cloud gcp_tag \<and> Autodetect env = Some (own_cloud gcp_tag)))
    \<and> ((name = own_cloud (\<not> gcp_tag) \<or> (name = [] \<and> Autodetect env = Some (own_cloud (\<not> gcp_tag)))) \<longrightarrow>
         Select env r name = Inl (Errorf ''provider %q: %s''
           [own_cloud (\<not> gcp_tag), if gcp_tag then rebuild_aws else rebuild_gcp]))"
proof -
  obtain r where r: "build_registry gcp_tag ''aws'' ''gcp'' ''mem'' = Some r"
    using build_registry_ok [of gcp_tag "''aws''" "''gcp''" "''mem''"] by blast
  note e = build_registry_entries [OF r]
  show ?thesis
    by (intro exI [of _ r] conjI r)
      (use e in \<open>auto simp: own_cloud_def Select_def select_named_def Autodetect_cases\<close>)
qed

lemma provider_selection_witness:
  "\<exists>r. build_registry False ''aws'' ''gcp'' ''mem'' = Some r
    \<and> Select (\<lambda>v. if v = ''K_SERVICE'' then ''api'' else []) r []
        = Inl (Errorf ''provider %q: %s'' [''gcp'', rebuild_gcp])"
  using provider_selection [of False "\<lambda>v. if v = ''K_SERVICE'' then ''api'' else []" "[]" "''aws''"]
  by (auto simp: Autodetect_cases own_cloud_def)

end
