(* ===== verification/Identity.thy ===== *)
theory Identity
  imports Registry
begin

text \<open>
  Who this instance is: internal/provider/aws/identity.go reads the ECS task metadata endpoint,
  internal/provider/gcp/identity.go the Cloud Run environment and metadata server, both into the
  neutral identity; internal/provider/aws/fleet.go asks ECS about a replica set. HTTP, the
  metadata server and ECS are outside the repository: they are functions the definitions take
  as arguments, with JSON already decoded.
\<close>

section \<open>Amazon ECS\<close>

record ecs_network =
  n_ipv4 :: "string list"
  n_ipv6 :: "string list"

record taskMetadataV4 =
  tm_cluster :: string
  tm_serviceName :: string
  tm_vpcID :: string
  tm_taskARN :: string
  tm_family :: string
  tm_revision :: string
  tm_zone :: string
  tm_createdAt :: string
  tm_containers :: "ecs_network list list"

definition first_or_empty :: "string list \<Rightarrow> string" where
  "first_or_empty xs = (case xs of [] \<Rightarrow> [] | x # _ \<Rightarrow> x)"

definition network_addresses :: "ecs_network \<Rightarrow> string \<times> string" where
  "network_addresses n = (first_or_empty (n_ipv4 n), first_or_empty (n_ipv6 n))"

definition addresses :: "taskMetadataV4 \<Rightarrow> string \<times> string" where
  "addresses m =
     (case find (\<lambda>(v4, v6). v4 \<noteq> [] \<or> v6 \<noteq> []) (map network_addresses (concat (tm_containers m))) of
        Some a \<Rightarrow> a
      | None \<Rightarrow> ([], []))"

definition metadataURIEnv :: "string list" where
  "metadataURIEnv = [''ECS_CONTAINER_METADATA_URI_V4'', ''ECS_CONTAINER_METADATA_URI'']"

definition metadataURI :: "environment \<Rightarrow> string" where
  "metadataURI env = (case find (\<lambda>v. env v \<noteq> []) metadataURIEnv of None \<Rightarrow> [] | Some v \<Rightarrow> env v)"

definition MetadataURIEnv :: "string list" where
  "MetadataURIEnv = metadataURIEnv"

text \<open>A GET: no request can be built for the URL, no answer, or a status with a body, which may
  fail to be read or to decode.\<close>

datatype 'd http_answer =
    BadRequest go_error
  | NoAnswer go_error
  | Answer nat string "(go_error + 'd) go_result"

definition container_created_at :: "taskMetadataV4 http_answer \<Rightarrow> string" where
  "container_created_at a = (case a of Answer _ _ (Inr (Inr c)) \<Rightarrow> tm_createdAt c | _ \<Rightarrow> [])"

definition fetchContainerMetadata ::
  "(string \<Rightarrow> taskMetadataV4 http_answer) \<Rightarrow> environment \<Rightarrow> taskMetadataV4 go_result" where
  "fetchContainerMetadata http env =
     (let uri = metadataURI env
      in if uri = [] then Inl (Errorf ''none of %s is set; not running under ECS?'' [join_with '', '' metadataURIEnv])
         else case http (uri @ ''/task'') of
                BadRequest e \<Rightarrow> Inl (Wrapf ''failed to build a request: %w'' [] e)
              | NoAnswer e \<Rightarrow> Inl (Wrapf ''failed to fetch container metadata: %w'' [] e)
              | Answer code status body \<Rightarrow>
                  (if code \<noteq> 200 then Inl (Errorf ''failed to fetch container metadata: %s'' [status])
                   else case body of
                          Inl e \<Rightarrow> Inl (Wrapf ''failed to read response body: %w'' [] e)
                        | Inr (Inl e) \<Rightarrow> Inl (Wrapf ''failed to unmarshal container metadata: %w'' [] e)
                        | Inr (Inr m) \<Rightarrow>
                            Inr (if tm_createdAt m = [] then m\<lparr>tm_createdAt := container_created_at (http uri)\<rparr> else m)))"

definition regionFromTaskARN :: "string \<Rightarrow> string" where
  "regionFromTaskARN arn =
     (let parts = split_on (CHR '':'') arn
      in if length parts < 4 \<or> parts ! 0 \<noteq> ''arn'' then [] else parts ! 3)"

definition aws_FetchIdentity :: "(string \<Rightarrow> taskMetadataV4 http_answer) \<Rightarrow> environment \<Rightarrow> identity go_result" where
  "aws_FetchIdentity http env =
     (case fetchContainerMetadata http env of
        Inl e \<Rightarrow> Inl e
      | Inr m \<Rightarrow>
          let (ipv4, ipv6) = addresses m
          in Inr \<lparr>i_provider = ''aws'', i_id = tm_taskARN m, i_name = [], i_group = tm_cluster m,
                 i_service = tm_serviceName m, i_zone = tm_zone m, i_region = regionFromTaskARN (tm_taskARN m),
                 i_network = tm_vpcID m, i_ipv4 = ipv4, i_ipv6 = ipv6, i_createdAt = tm_createdAt m,
                 i_extra = [(''task_arn'', tm_taskARN m), (''cluster'', tm_cluster m), (''family'', tm_family m),
                            (''revision'', tm_revision m), (''vpc_id'', tm_vpcID m)]\<rparr>)"

section \<open>ECS replica sets\<close>

record ecs_service =
  s_running :: int
  s_desired :: int

definition serviceStable :: "(string \<Rightarrow> string \<Rightarrow> (ecs_service list) go_result) \<Rightarrow> string \<Rightarrow> string \<Rightarrow> bool go_result" where
  "serviceStable describe cluster service =
     (case describe cluster service of
        Inl e \<Rightarrow> Inl (Wrapf ''failed to describe ECS service: %w'' [] e)
      | Inr [] \<Rightarrow> Inl (Errorf ''no ECS service found for %s'' [service])
      | Inr (s # _) \<Rightarrow> Inr (s_running s = s_desired s))"

definition AllReplicasRunning ::
  "(string \<Rightarrow> string \<Rightarrow> (ecs_service list) go_result) \<Rightarrow> workload_ref \<Rightarrow> bool go_result" where
  "AllReplicasRunning describe ref = serviceStable describe (wr_group ref) (wr_name ref)"

section \<open>Google Cloud Run\<close>

definition RuntimeEnv :: "string list" where
  "RuntimeEnv = [''K_SERVICE'', ''CLOUD_RUN_JOB'', ''CLOUD_RUN_WORKER_POOL'']"

definition lastSegment :: "string \<Rightarrow> string" where
  "lastSegment s = (case rcut_at (CHR ''/'') s of Some (_, b) \<Rightarrow> b | None \<Rightarrow> s)"

definition regionOfZone :: "string \<Rightarrow> string" where
  "regionOfZone zone = (case rcut_at (CHR ''-'') zone of Some (a, _) \<Rightarrow> a | None \<Rightarrow> [])"

definition md_get :: "(string \<Rightarrow> string go_result) \<Rightarrow> string \<Rightarrow> string" where
  "md_get c suffix = (case c suffix of Inl _ \<Rightarrow> [] | Inr v \<Rightarrow> trim_space v)"

definition putIf :: "string \<Rightarrow> string \<Rightarrow> (string \<times> string) list \<Rightarrow> (string \<times> string) list" where
  "putIf key val m = (if val \<noteq> [] then filter (\<lambda>(k, _). k \<noteq> key) m @ [(key, val)] else m)"

definition gcp_extra :: "(string \<Rightarrow> string go_result) \<Rightarrow> environment \<Rightarrow> (string \<times> string) list" where
  "gcp_extra c env =
     (let pool = env ''CLOUD_RUN_WORKER_POOL'';
          m = putIf ''instance_id'' (md_get c ''instance/id'') [];
          m = putIf ''project'' (md_get c ''project/project-id'') m;
          m = putIf ''service'' (env ''K_SERVICE'') m;
          m = putIf ''revision'' (env ''K_REVISION'') m;
          m = putIf ''configuration'' (env ''K_CONFIGURATION'') m;
          m = putIf ''job'' (env ''CLOUD_RUN_JOB'') m;
          m = putIf ''execution'' (env ''CLOUD_RUN_EXECUTION'') m;
          m = putIf ''task_index'' (env ''CLOUD_RUN_TASK_INDEX'') m;
          m = putIf ''task_count'' (env ''CLOUD_RUN_TASK_COUNT'') m;
          m = putIf ''worker_pool'' pool m
      in if pool \<noteq> [] then putIf ''revision'' (env ''CLOUD_RUN_REVISION'') m else m)"

definition gcp_fetchIdentity :: "(string \<Rightarrow> string go_result) \<Rightarrow> environment \<Rightarrow> identity go_result" where
  "gcp_fetchIdentity c env =
     (let service = env ''K_SERVICE''; job = env ''CLOUD_RUN_JOB''; pool = env ''CLOUD_RUN_WORKER_POOL''
      in if service = [] \<and> job = [] \<and> pool = []
         then Inl (Errorf ''none of %s, %s or %s is set; not running on Cloud Run?''
                [''K_SERVICE'', ''CLOUD_RUN_JOB'', ''CLOUD_RUN_WORKER_POOL''])
         else let ident = md_get c ''instance/id'';
                  region = lastSegment (md_get c ''instance/region'');
                  region = (if region = [] then regionOfZone (lastSegment (md_get c ''instance/zone'')) else region)
              in Inr \<lparr>i_provider = ''gcp'', i_id = ident, i_name = [], i_group = region,
                     i_service = (if pool \<noteq> [] then pool else if job \<noteq> [] then job else service),
                     i_zone = [], i_region = region, i_network = [],
                     i_ipv4 = (if pool \<noteq> [] then md_get c ''instance/network-interfaces/0/ip'' else []),
                     i_ipv6 = [], i_createdAt = [], i_extra = gcp_extra c env\<rparr>)"

section \<open>Lemmas\<close>

text \<open>Auto-detection, which is built without the providers, asks for the very variables they read.\<close>

lemma detectors_agree: "detectors = [(''aws'', MetadataURIEnv), (''gcp'', RuntimeEnv)]"
  by (simp add: detectors_def MetadataURIEnv_def metadataURIEnv_def RuntimeEnv_def)

lemma metadataURI_iff:
  "metadataURI env = (if env ''ECS_CONTAINER_METADATA_URI_V4'' \<noteq> [] then env ''ECS_CONTAINER_METADATA_URI_V4''
     else env ''ECS_CONTAINER_METADATA_URI'')"
  by (simp add: metadataURI_def metadataURIEnv_def)

lemma find_concat_first:
  "find P (xs @ ys) = (case find P xs of Some x \<Rightarrow> Some x | None \<Rightarrow> find P ys)"
  by (induction xs) auto

lemma addresses_first:
  assumes "list_all (\<lambda>n. network_addresses n = ([], [])) skipped"
    and "concat (tm_containers m) = skipped @ n # rest" and "network_addresses n \<noteq> ([], [])"
  shows "addresses m = network_addresses n"
proof -
  have "find (\<lambda>(v4, v6). v4 \<noteq> [] \<or> v6 \<noteq> []) (map network_addresses skipped) = None"
    using assms(1) by (induction skipped) auto
  with assms(2,3) show ?thesis
    by (cases "network_addresses n") (auto simp: addresses_def find_concat_first)
qed

lemma region_of_task_arn:
  assumes "CHR '':'' \<notin> set part" and "CHR '':'' \<notin> set region"
  shows "regionFromTaskARN (''arn:'' @ part @ '':ecs:'' @ region @ '':'' @ rest) = region"
proof -
  have s: "split_on (CHR '':'') (part @ CHR '':'' # ''ecs:'' @ region @ CHR '':'' # rest)
      = part # ''ecs'' # region # split_on (CHR '':'') rest"
    using assms by (simp add: split_on_append)
  then show ?thesis by (simp add: regionFromTaskARN_def Let_def)
qed

lemma region_of_zone:
  assumes "CHR ''/'' \<notin> set z" and "CHR ''/'' \<notin> set region" and "CHR ''-'' \<notin> set z"
  shows "regionOfZone (lastSegment (''projects/1/zones/'' @ region @ ''-'' @ z)) = region"
proof -
  have "rcut_at (CHR ''/'') (''projects/1/zones'' @ CHR ''/'' # region @ CHR ''-'' # z)
      = Some (''projects/1/zones'', region @ CHR ''-'' # z)"
    using assms by (intro rcut_at_append) auto
  then have "lastSegment (''projects/1/zones/'' @ region @ ''-'' @ z) = region @ CHR ''-'' # z"
    by (simp add: lastSegment_def)
  with rcut_at_append [OF assms(3), of region] show ?thesis by (simp add: regionOfZone_def)
qed

lemma map_of_filter_other: "map_of (filter (\<lambda>(k, _). k \<noteq> key) m) k' = (if k' = key then None else map_of m k')"
  by (induction m) auto

lemma map_of_putIf: "map_of (putIf key val m) k = (if val \<noteq> [] \<and> k = key then Some val else map_of m k)"
  by (auto simp: putIf_def map_add_def map_of_filter_other split: option.splits)

lemma gcp_extra_revision:
  assumes "env ''CLOUD_RUN_WORKER_POOL'' \<noteq> []" and "env ''CLOUD_RUN_REVISION'' \<noteq> []"
  shows "map_of (gcp_extra c env) ''revision'' = Some (env ''CLOUD_RUN_REVISION'')"
  using assms by (simp add: gcp_extra_def map_of_putIf)

section \<open>Properties\<close>

text \<open>
  Detection and identity agree. The registry repeats the variables of the providers it may
  not link; a detected AWS is exactly a task whose metadata endpoint is known, and when
  Google Cloud is detected its identity can be read whatever the metadata server answers.
\<close>

theorem detection_matches_identity:
  "(Autodetect env = Some ''aws'' \<longleftrightarrow> metadataURI env \<noteq> [])
   \<and> (Autodetect env = Some ''gcp'' \<longleftrightarrow>
        metadataURI env = [] \<and> (\<exists>self. gcp_fetchIdentity c env = Inr self \<and> i_provider self = ''gcp''))"
  by (auto simp: Autodetect_cases metadataURI_iff gcp_fetchIdentity_def Let_def)

text \<open>
  Only a worker pool publishes an address. A Cloud Run identity carries an IPv4 address
  only on a worker pool, and then it is the one the metadata server gives; on a service or a
  job it is empty, so nothing registers an address that cannot be dialled. The name is empty
  on every runtime, the service is that of the runtime, and the revision reported is the
  runtime's own.
\<close>

theorem cloud_run_identity:
  assumes "gcp_fetchIdentity c env = Inr self"
  shows "i_name self = []
    \<and> (env ''CLOUD_RUN_WORKER_POOL'' = [] \<longrightarrow> i_ipv4 self = [] \<and> i_service self \<in> {env ''CLOUD_RUN_JOB'', env ''K_SERVICE''})
    \<and> (env ''CLOUD_RUN_WORKER_POOL'' \<noteq> [] \<longrightarrow>
         i_ipv4 self = md_get c ''instance/network-interfaces/0/ip'' \<and> i_service self = env ''CLOUD_RUN_WORKER_POOL''
         \<and> (env ''CLOUD_RUN_REVISION'' \<noteq> [] \<longrightarrow> map_of (i_extra self) ''revision'' = Some (env ''CLOUD_RUN_REVISION'')))"
proof -
  have self: "i_name self = []" "i_extra self = gcp_extra c env"
    "i_ipv4 self = (if env ''CLOUD_RUN_WORKER_POOL'' \<noteq> [] then md_get c ''instance/network-interfaces/0/ip'' else [])"
    "i_service self = (if env ''CLOUD_RUN_WORKER_POOL'' \<noteq> [] then env ''CLOUD_RUN_WORKER_POOL''
       else if env ''CLOUD_RUN_JOB'' \<noteq> [] then env ''CLOUD_RUN_JOB'' else env ''K_SERVICE'')"
    using assms by (auto simp: gcp_fetchIdentity_def Let_def split: if_splits)
  then show ?thesis by (simp add: gcp_extra_revision)
qed

definition demo_pool_env :: environment where
  "demo_pool_env v = (if v = ''CLOUD_RUN_WORKER_POOL'' then ''pd'' else if v = ''CLOUD_RUN_REVISION'' then ''pd-00002'' else [])"

lemma cloud_run_identity_witness:
  "\<exists>self. gcp_fetchIdentity (\<lambda>_. Inr ''10.0.0.7'') demo_pool_env = Inr self
    \<and> i_ipv4 self = md_get (\<lambda>_. Inr ''10.0.0.7'') ''instance/network-interfaces/0/ip'' \<and> i_service self = ''pd''"
proof -
  obtain self where self: "gcp_fetchIdentity (\<lambda>_. Inr ''10.0.0.7'') demo_pool_env = Inr self"
    by (simp add: gcp_fetchIdentity_def Let_def demo_pool_env_def)
  have "demo_pool_env ''CLOUD_RUN_WORKER_POOL'' = ''pd''" by (simp add: demo_pool_env_def)
  with cloud_run_identity [OF self] self show ?thesis by simp
qed

end
