(* ===== verification/Cloud_Providers.thy ===== *)
theory Cloud_Providers
  imports Identity Discovery Dynamo_KV GCS_KV Firestore_KV
begin

text \<open>
  The provider glue of internal/provider/aws/provider.go and internal/provider/gcp/provider.go:
  how a configuration becomes clients, stores, a registrar and a lease owner. The SDKs' client
  constructors are parameters that may fail; \<open>fetched\<close> is what reading the identity would give
  at the time of the call, because \<^verbatim>\<open>sync.Once\<close> reads it only the first time.
\<close>

section \<open>Stores\<close>

datatype kv_store =
    KvMem mem_kv
  | KvDynamo dynamo_kv
  | KvGCS string string string gcs_kv
  | KvFirestore string firestoreKV

fun store_owner :: "kv_store \<Rightarrow> string" where
  "store_owner (KvMem m) = m_owner m"
| "store_owner (KvDynamo d) = d_owner d"
| "store_owner (KvGCS _ _ _ g) = g_owner g"
| "store_owner (KvFirestore _ f) = f_owner f"

section \<open>AWS\<close>

record aws_provider =
  ap_cfg :: provider_config
  ap_endpoint :: "string option"
  ap_self :: "(identity go_result) option"

text \<open>\<open>load_config\<close>: the SDK's configuration, of which the endpoint override matters here.\<close>

definition aws_open :: "(string option) go_result \<Rightarrow> provider_config \<Rightarrow> aws_provider go_result" where
  "aws_open load_config cfg =
     (case ValidateOptions (c_options cfg) [] of
        Some e \<Rightarrow> Inl e
      | None \<Rightarrow>
          if c_namespace cfg = [] then Inl (Errorf ''namespace is required'' [])
          else case load_config of
                 Inl e \<Rightarrow> Inl e
               | Inr endpoint \<Rightarrow> Inr \<lparr>ap_cfg = cfg, ap_endpoint = endpoint, ap_self = None\<rparr>)"

text \<open>The discoverer: its default namespace, and whether the client's host name is left as configured.\<close>

record service_discovery =
  cm_namespace :: string
  cm_host_immutable :: bool

definition aws_Discovery :: "aws_provider \<Rightarrow> service_discovery" where
  "aws_Discovery p =
     \<lparr>cm_namespace = c_namespace (ap_cfg p), cm_host_immutable = (ap_endpoint p \<noteq> None)\<rparr>"

text \<open>The fleet: its client has the provider's configuration, the endpoint override included.\<close>

definition aws_Fleet :: "aws_provider \<Rightarrow> (string option) go_result" where
  "aws_Fleet p = Inr (ap_endpoint p)"

definition aws_Self :: "identity go_result \<Rightarrow> aws_provider \<Rightarrow> identity go_result \<times> aws_provider" where
  "aws_Self fetched p =
     (case ap_self p of Some r \<Rightarrow> (r, p) | None \<Rightarrow> (fetched, p\<lparr>ap_self := Some fetched\<rparr>))"

definition result_option :: "'a go_result \<Rightarrow> 'a option" where
  "result_option r = (case r of Inl _ \<Rightarrow> None | Inr x \<Rightarrow> Some x)"

definition aws_KV :: "string go_result \<Rightarrow> identity go_result \<Rightarrow> aws_provider \<Rightarrow> kv_store go_result \<times> aws_provider" where
  "aws_KV hostname fetched p =
     (if c_kv_store (ap_cfg p) = [] then (Inl (Wrapf ''%w (set -kv-store)'' [] ErrNotConfigured), p)
      else let (self, p) = aws_Self fetched p; owner = owner_id hostname (result_option self)
           in (Inr (KvDynamo \<lparr>d_table = c_kv_store (ap_cfg p), d_prefix = c_kv_prefix (ap_cfg p), d_owner = owner\<rparr>), p))"

section \<open>Google Cloud\<close>

datatype sdk_client = LookupClient | RegistrationClient | StorageClient | FirestoreClient

datatype client_option = WithEndpoint string | WithoutAuthentication

text \<open>The clients built so far, each with the options it was built with.\<close>

record gcp_provider =
  gp_cfg :: provider_config
  gp_self :: "(identity go_result) option"
  gp_clients :: "(sdk_client \<times> client_option list) list"

definition gcp_options :: "option_spec list" where
  "gcp_options =
     [\<lparr>os_key = ''project'', os_default = [], os_doc = ''project id (default: $GOOGLE_CLOUD_PROJECT, then the metadata server)''\<rparr>,
      \<lparr>os_key = ''location'', os_default = [], os_doc = ''Service Directory location (default: this instance'' @ [CHR 0x27] @ ''s region)''\<rparr>,
      \<lparr>os_key = ''kv.backend'', os_default = ''gcs'', os_doc = ''kv store backend: gcs (a bucket) or firestore (a collection)''\<rparr>,
      \<lparr>os_key = ''kv.database'', os_default = ''(default)'', os_doc = ''Firestore database id; ignored by the gcs backend''\<rparr>,
      \<lparr>os_key = ''endpoint.storage'', os_default = [], os_doc = ''Cloud Storage endpoint override, for a fake server''\<rparr>,
      \<lparr>os_key = ''endpoint.servicedirectory'', os_default = [], os_doc = ''Service Directory endpoint override''\<rparr>]"

definition gcp_open :: "provider_config \<Rightarrow> gcp_provider go_result" where
  "gcp_open cfg =
     (case ValidateOptions (c_options cfg) gcp_options of
        Some e \<Rightarrow> Inl e
      | None \<Rightarrow>
          let backend = option_of (c_options cfg) ''kv.backend''
          in if c_namespace cfg = [] then Inl (Errorf ''namespace is required'' [])
             else if backend \<in> {[], ''gcs'', ''firestore''} then Inr \<lparr>gp_cfg = cfg, gp_self = None, gp_clients = []\<rparr>
             else Inl (Errorf ''%s=%q: want %q or %q'' [''kv.backend'', backend, ''gcs'', ''firestore'']))"

definition gcp_Self :: "identity go_result \<Rightarrow> gcp_provider \<Rightarrow> identity go_result \<times> gcp_provider" where
  "gcp_Self fetched p =
     (case gp_self p of Some r \<Rightarrow> (r, p) | None \<Rightarrow> (fetched, p\<lparr>gp_self := Some fetched\<rparr>))"

definition gcp_project :: "environment \<Rightarrow> identity go_result \<Rightarrow> gcp_provider \<Rightarrow> string go_result \<times> gcp_provider" where
  "gcp_project env fetched p =
     (let v = option_of (c_options (gp_cfg p)) ''project''
      in if v \<noteq> [] then (Inr v, p)
         else case find (\<lambda>n. env n \<noteq> []) [''GOOGLE_CLOUD_PROJECT'', ''GCLOUD_PROJECT'', ''GCP_PROJECT''] of
                Some n \<Rightarrow> (Inr (env n), p)
              | None \<Rightarrow>
                  let (self, p) = gcp_Self fetched p;
                      v = (case self of Inr i \<Rightarrow> option_of (i_extra i) ''project'' | Inl _ \<Rightarrow> [])
                  in if v \<noteq> [] then (Inr v, p)
                     else (Inl (Errorf ''project unknown; pass -provider-opt %s=<id> or set GOOGLE_CLOUD_PROJECT'' [''project'']), p))"

definition gcp_location :: "identity go_result \<Rightarrow> gcp_provider \<Rightarrow> string go_result \<times> gcp_provider" where
  "gcp_location fetched p =
     (let v = option_of (c_options (gp_cfg p)) ''location''
      in if v \<noteq> [] then (Inr v, p)
         else let (self, p) = gcp_Self fetched p
              in (case self of
                    Inr i \<Rightarrow> if i_region i \<noteq> [] then (Inr (i_region i), p)
                            else (Inl (Errorf ''location unknown; pass -provider-opt %s=<region>'' [''location'']), p)
                  | Inl _ \<Rightarrow> (Inl (Errorf ''location unknown; pass -provider-opt %s=<region>'' [''location'']), p)))"

text \<open>An endpoint override aims a client at a fake server, which has no credentials to check.\<close>

definition gcp_clientOptions :: "gcp_provider \<Rightarrow> string \<Rightarrow> client_option list" where
  "gcp_clientOptions p key =
     (let endpoint = option_of (c_options (gp_cfg p)) key
      in if endpoint = [] then [] else [WithEndpoint endpoint, WithoutAuthentication])"

text \<open>A client is built on first use and kept.\<close>

type_synonym client_maker = "sdk_client \<Rightarrow> client_option list \<Rightarrow> go_error option"

definition ensure_client ::
  "client_maker \<Rightarrow> string \<Rightarrow> client_option list \<Rightarrow> sdk_client \<Rightarrow> gcp_provider \<Rightarrow> go_error option \<times> gcp_provider" where
  "ensure_client mk what opts c p =
     (if c \<in> fst ` set (gp_clients p) then (None, p)
      else case mk c opts of
             Some e \<Rightarrow> (Some (Wrapf what [] e), p)
           | None \<Rightarrow> (None, p\<lparr>gp_clients := (c, opts) # gp_clients p\<rparr>))"

definition gcp_Discovery ::
  "client_maker \<Rightarrow> environment \<Rightarrow> identity go_result \<Rightarrow> gcp_provider \<Rightarrow> sd_discovery go_result \<times> gcp_provider" where
  "gcp_Discovery mk env fetched p =
     (case gcp_project env fetched p of
        (Inl e, p) \<Rightarrow> (Inl e, p)
      | (Inr project, p) \<Rightarrow>
          (case gcp_location fetched p of
             (Inl e, p) \<Rightarrow> (Inl e, p)
           | (Inr location, p) \<Rightarrow>
               (case ensure_client mk ''service directory: %w'' (gcp_clientOptions p ''endpoint.servicedirectory'') LookupClient p of
                  (Some e, p) \<Rightarrow> (Inl e, p)
                | (None, p) \<Rightarrow>
                    (Inr \<lparr>sd_project = project, sd_location = location, sd_namespace = c_namespace (gp_cfg p)\<rparr>, p))))"

definition gcp_Registrar ::
  "client_maker \<Rightarrow> environment \<Rightarrow> identity go_result \<Rightarrow> gcp_provider \<Rightarrow> registrar go_result \<times> gcp_provider" where
  "gcp_Registrar mk env fetched p =
     (case gcp_project env fetched p of
        (Inl e, p) \<Rightarrow> (Inl e, p)
      | (Inr project, p) \<Rightarrow>
          (case gcp_location fetched p of
             (Inl e, p) \<Rightarrow> (Inl e, p)
           | (Inr location, p) \<Rightarrow>
               (case gcp_Self fetched p of
                  (Inl e, p) \<Rightarrow> (Inl (Wrapf ''registration needs this instance's identity: %w'' [] e), p)
                | (Inr self, p) \<Rightarrow>
                    (case ensure_client mk ''service directory: %w'' (gcp_clientOptions p ''endpoint.servicedirectory'') RegistrationClient p of
                       (Some e, p) \<Rightarrow> (Inl e, p)
                     | (None, p) \<Rightarrow>
                         (Inr \<lparr>rg_project = project, rg_location = location, rg_namespace = c_namespace (gp_cfg p),
                               rg_address = i_ipv4 self, rg_registered = [], rg_registeredAddr = []\<rparr>, p)))))"

definition gcp_gcsKV ::
  "(time \<Rightarrow> string) \<Rightarrow> client_maker \<Rightarrow> environment \<Rightarrow> identity go_result \<Rightarrow> string \<Rightarrow> gcp_provider
    \<Rightarrow> kv_store go_result \<times> gcp_provider" where
  "gcp_gcsKV rfc3339 mk env fetched owner p =
     (case ensure_client mk ''cloud storage: %w'' (gcp_clientOptions p ''endpoint.storage'') StorageClient p of
        (Some e, p) \<Rightarrow> (Inl e, p)
      | (None, p) \<Rightarrow>
          let (project, p) = gcp_project env fetched p; (location, p) = gcp_location fetched p;
              or_empty = (\<lambda>r. case r of Inl _ \<Rightarrow> [] | Inr v \<Rightarrow> v)
          in (Inr (KvGCS (c_kv_store (gp_cfg p)) (or_empty project) (or_empty location)
                \<lparr>g_prefix = c_kv_prefix (gp_cfg p), g_owner = owner, g_rfc3339 = rfc3339\<rparr>), p))"

definition gcp_firestoreKV ::
  "client_maker \<Rightarrow> environment \<Rightarrow> identity go_result \<Rightarrow> string \<Rightarrow> gcp_provider
    \<Rightarrow> kv_store go_result \<times> gcp_provider" where
  "gcp_firestoreKV mk env fetched owner p =
     (case gcp_project env fetched p of
        (Inl e, p) \<Rightarrow> (Inl e, p)
      | (Inr project, p) \<Rightarrow>
          let database = option_of (c_options (gp_cfg p)) ''kv.database'';
              database = (if database = [] then ''(default)'' else database)
          in (case ensure_client mk ''firestore: %w'' [] FirestoreClient p of
                (Some e, p) \<Rightarrow> (Inl e, p)
              | (None, p) \<Rightarrow>
                  (Inr (KvFirestore database
                     \<lparr>f_collection = c_kv_store (gp_cfg p), f_prefix = c_kv_prefix (gp_cfg p), f_owner = owner\<rparr>), p)))"

definition gcp_KV ::
  "(time \<Rightarrow> string) \<Rightarrow> client_maker \<Rightarrow> environment \<Rightarrow> string go_result \<Rightarrow> identity go_result \<Rightarrow> gcp_provider
    \<Rightarrow> kv_store go_result \<times> gcp_provider" where
  "gcp_KV rfc3339 mk env hostname fetched p =
     (if c_kv_store (gp_cfg p) = [] then (Inl (Wrapf ''%w (set -kv-store)'' [] ErrNotConfigured), p)
      else let (self, p) = gcp_Self fetched p; owner = owner_id hostname (result_option self)
           in if option_of (c_options (gp_cfg p)) ''kv.backend'' = ''firestore''
              then gcp_firestoreKV mk env fetched owner p
              else gcp_gcsKV rfc3339 mk env fetched owner p)"

text \<open>\<^verbatim>\<open>Close\<close>: the errors \<^verbatim>\<open>errors.Join\<close> combines, none meaning success.\<close>

definition gcp_Close :: "(sdk_client \<Rightarrow> go_error option) \<Rightarrow> gcp_provider \<Rightarrow> go_error list \<times> sdk_client list" where
  "gcp_Close close p =
     (let open_clients = filter (\<lambda>c. c \<in> fst ` set (gp_clients p)) [LookupClient, RegistrationClient, StorageClient, FirestoreClient]
      in (List.map_filter close open_clients, open_clients))"

section \<open>Sequences of accessor calls\<close>

datatype accessor = AskSelf | AskDiscovery | AskRegistrar | AskKV

definition gcp_call ::
  "(time \<Rightarrow> string) \<Rightarrow> client_maker \<Rightarrow> environment \<Rightarrow> string go_result \<Rightarrow> accessor \<Rightarrow> identity go_result
    \<Rightarrow> gcp_provider \<Rightarrow> kv_store option \<times> gcp_provider" where
  "gcp_call rfc3339 mk env hostname a fetched p =
     (case a of
        AskSelf \<Rightarrow> (None, snd (gcp_Self fetched p))
      | AskDiscovery \<Rightarrow> (None, snd (gcp_Discovery mk env fetched p))
      | AskRegistrar \<Rightarrow> (None, snd (gcp_Registrar mk env fetched p))
      | AskKV \<Rightarrow> apfst result_option (gcp_KV rfc3339 mk env hostname fetched p))"

definition aws_call :: "string go_result \<Rightarrow> accessor \<Rightarrow> identity go_result \<Rightarrow> aws_provider \<Rightarrow> kv_store option \<times> aws_provider" where
  "aws_call hostname a fetched p =
     (case a of
        AskSelf \<Rightarrow> (None, snd (aws_Self fetched p))
      | AskKV \<Rightarrow> apfst result_option (aws_KV hostname fetched p)
      | _ \<Rightarrow> (None, p))"

text \<open>The stores a sequence of calls hands out, each call with what the identity would read as then.\<close>

fun handed_out ::
  "(accessor \<Rightarrow> identity go_result \<Rightarrow> 'p \<Rightarrow> kv_store option \<times> 'p) \<Rightarrow> (accessor \<times> identity go_result) list \<Rightarrow> 'p
    \<Rightarrow> kv_store list \<times> 'p" where
  "handed_out call [] p = ([], p)"
| "handed_out call ((a, fetched) # cs) p =
     (let (kv, p) = call a fetched p; (kvs, p) = handed_out call cs p
      in ((case kv of None \<Rightarrow> kvs | Some k \<Rightarrow> k # kvs), p))"

text \<open>
  A provider whose identity is read once: a call never changes what was read, and a store it
  hands out is owned by what was read. \<open>memo\<close> is the state \<^verbatim>\<open>sync.Once\<close> guards.
\<close>

locale memoized_identity =
  fixes call :: "accessor \<Rightarrow> identity go_result \<Rightarrow> 'p \<Rightarrow> kv_store option \<times> 'p"
    and memo :: "'p \<Rightarrow> (identity go_result) option"
    and hostname :: "string go_result"
  assumes memo_kept: "call a fetched p = (kv, p') \<Longrightarrow> memo p = Some r \<Longrightarrow> memo p' = Some r"
    and store_owned: "call a fetched p = (Some k, p') \<Longrightarrow>
      \<exists>r. memo p' = Some r \<and> store_owner k = owner_id hostname (result_option r)"
begin

lemma known_owner:
  assumes "memo p = Some r" and "k \<in> set (fst (handed_out call cs p))"
  shows "store_owner k = owner_id hostname (result_option r)"
  using assms
proof (induction cs arbitrary: p)
  case Nil
  then show ?case by simp
next
  case (Cons c cs)
  obtain a fetched where c: "c = (a, fetched)" by (cases c)
  obtain kv p' where step: "call a fetched p = (kv, p')" by (cases "call a fetched p")
  have memo: "memo p' = Some r" using memo_kept [OF step Cons.prems(1)] .
  from Cons.prems(2) c step have "k \<in> set (fst (handed_out call cs p')) \<or> kv = Some k"
    by (auto simp: split_beta Let_def split: option.splits)
  then show ?case
  proof
    assume "k \<in> set (fst (handed_out call cs p'))"
    with memo show ?thesis by (rule Cons.IH)
  next
    assume "kv = Some k"
    with step store_owned [of a fetched p k p'] memo show ?thesis by auto
  qed
qed

lemma one_owner:
  assumes "k \<in> set (fst (handed_out call cs p))" and "k' \<in> set (fst (handed_out call cs p))"
  shows "store_owner k = store_owner k'"
  using assms
proof (induction cs arbitrary: p)
  case Nil
  then show ?case by simp
next
  case (Cons c cs)
  obtain a fetched where c: "c = (a, fetched)" by (cases c)
  obtain kv p' where step: "call a fetched p = (kv, p')" by (cases "call a fetched p")
  show ?case
  proof (cases kv)
    case None
    then have "fst (handed_out call (c # cs) p) = fst (handed_out call cs p')"
      using c step by (simp add: split_beta Let_def)
    with Cons.IH Cons.prems show ?thesis by simp
  next
    case (Some k0)
    then have "fst (handed_out call (c # cs) p) = k0 # fst (handed_out call cs p')"
      using c step by (simp add: split_beta Let_def)
    moreover obtain r where r: "memo p' = Some r" "store_owner k0 = owner_id hostname (result_option r)"
      using store_owned step Some by blast
    ultimately have "x \<in> set (fst (handed_out call (c # cs) p)) \<Longrightarrow> store_owner x = store_owner k0" for x
      using known_owner [OF r(1)] by auto
    with Cons.prems show ?thesis by simp
  qed
qed

end

lemma gcp_Self_memo:
  "gcp_Self fetched p = (r, p') \<Longrightarrow> gp_self p' = Some r \<and> gp_cfg p' = gp_cfg p \<and> gp_clients p' = gp_clients p
   \<and> (gp_self p = Some r0 \<longrightarrow> r = r0)"
  by (auto simp: gcp_Self_def split: option.splits)

definition memo_step :: "gcp_provider \<Rightarrow> gcp_provider \<Rightarrow> bool" where
  "memo_step p p' \<longleftrightarrow> gp_cfg p' = gp_cfg p \<and> (\<forall>r. gp_self p = Some r \<longrightarrow> gp_self p' = Some r)
     \<and> (distinct (map fst (gp_clients p)) \<longrightarrow> distinct (map fst (gp_clients p'))) \<and> set (gp_clients p) \<subseteq> set (gp_clients p')"

lemma memo_step_refl [simp]: "memo_step p p"
  by (simp add: memo_step_def)

lemma memo_step_trans: "memo_step p q \<Longrightarrow> memo_step q r \<Longrightarrow> memo_step p r"
  by (auto simp: memo_step_def)

lemma gcp_Self_step: "memo_step p (snd (gcp_Self fetched p))"
  by (auto simp: memo_step_def gcp_Self_def split: option.splits)

lemma ensure_client_step: "memo_step p (snd (ensure_client mk what opts c p))"
  by (auto simp: memo_step_def ensure_client_def split: option.splits)

lemma gcp_project_step: "memo_step p (snd (gcp_project env fetched p))"
  using gcp_Self_step [of p fetched]
  by (auto simp: gcp_project_def Let_def split_beta split: option.splits)

lemma gcp_location_step: "memo_step p (snd (gcp_location fetched p))"
  using gcp_Self_step [of p fetched]
  by (auto simp: gcp_location_def Let_def split_beta split: sum.splits)

lemma memo_steps:
  "gcp_Self fetched p = (r, p') \<Longrightarrow> memo_step p p'"
  "gcp_project env fetched p = (rp, p') \<Longrightarrow> memo_step p p'"
  "gcp_location fetched p = (rl, p') \<Longrightarrow> memo_step p p'"
  "ensure_client mk what opts c p = (rc, p') \<Longrightarrow> memo_step p p'"
  using gcp_Self_step [of p fetched] gcp_project_step [of p env fetched] gcp_location_step [of p fetched]
    ensure_client_step [of p mk what opts c] by auto

lemma gcp_Discovery_step: "memo_step p (snd (gcp_Discovery mk env fetched p))"
  unfolding gcp_Discovery_def
  by (auto split: prod.splits sum.splits option.splits dest!: memo_steps) (blast intro: memo_step_trans)+

lemma gcp_Registrar_step: "memo_step p (snd (gcp_Registrar mk env fetched p))"
  unfolding gcp_Registrar_def
  by (auto split: prod.splits sum.splits option.splits dest!: memo_steps) (blast intro: memo_step_trans)+

lemma gcp_gcsKV_store:
  "gcp_gcsKV rfc3339 mk env fetched owner p = (r, p') \<Longrightarrow> memo_step p p' \<and> (r = Inr k \<longrightarrow> store_owner k = owner)"
  unfolding gcp_gcsKV_def Let_def
  by (auto split: prod.splits sum.splits option.splits dest!: memo_steps) (blast intro: memo_step_trans)+

lemma gcp_firestoreKV_store:
  "gcp_firestoreKV mk env fetched owner p = (r, p') \<Longrightarrow> memo_step p p' \<and> (r = Inr k \<longrightarrow> store_owner k = owner)"
  unfolding gcp_firestoreKV_def Let_def
  by (auto split: prod.splits sum.splits option.splits dest!: memo_steps) (blast intro: memo_step_trans)+

lemma gcp_KV_store:
  assumes "gcp_KV rfc3339 mk env hostname fetched p = (r, p')"
  shows "memo_step p p' \<and> (r = Inr k \<longrightarrow>
    (\<exists>self. gp_self p' = Some self \<and> store_owner k = owner_id hostname (result_option self)))"
proof (cases "c_kv_store (gp_cfg p) = []")
  case True
  with assms show ?thesis by (auto simp: gcp_KV_def)
next
  case False
  obtain self q where q: "gcp_Self fetched p = (self, q)" by (cases "gcp_Self fetched p")
  have "memo_step q p' \<and> (r = Inr k \<longrightarrow> store_owner k = owner_id hostname (result_option self))"
    using assms False q gcp_gcsKV_store [of rfc3339 mk env fetched _ q r p' k]
      gcp_firestoreKV_store [of mk env fetched _ q r p' k]
    by (auto simp: gcp_KV_def Let_def split: if_splits)
  moreover have "gp_self q = Some self" and "memo_step p q" using gcp_Self_memo [OF q] memo_steps(1) [OF q] by auto
  ultimately show ?thesis using memo_step_trans by (auto simp: memo_step_def)
qed

lemma result_option_Some: "result_option r = Some x \<longleftrightarrow> r = Inr x"
  by (auto simp: result_option_def split: sum.splits)

lemma gcp_call_memo:
  "gcp_call rfc3339 mk env hostname a fetched p = (kv, p') \<Longrightarrow> memo_step p p'"
  using gcp_Self_step [of p fetched] gcp_Discovery_step [of p mk env fetched] gcp_Registrar_step [of p mk env fetched]
    gcp_KV_store [of rfc3339 mk env hostname fetched p]
  by (cases a) (auto simp: gcp_call_def apfst_def map_prod_def split: prod.splits)

interpretation gcp_owner: memoized_identity "gcp_call rfc3339 mk env hostname" gp_self hostname
  for rfc3339 mk env hostname
proof unfold_locales
  fix a fetched p kv p' r
  assume "gcp_call rfc3339 mk env hostname a fetched p = (kv, p')" and "gp_self p = Some r"
  then show "gp_self p' = Some r" using gcp_call_memo by (auto simp: memo_step_def)
next
  fix a fetched p k p'
  assume "gcp_call rfc3339 mk env hostname a fetched p = (Some k, p')"
  then have "gcp_KV rfc3339 mk env hostname fetched p = (Inr k, p')"
    by (cases a; cases "gcp_KV rfc3339 mk env hostname fetched p") (auto simp: gcp_call_def result_option_Some)
  from gcp_KV_store [OF this, of k] show "\<exists>r. gp_self p' = Some r \<and> store_owner k = owner_id hostname (result_option r)"
    by blast
qed

interpretation aws_owner: memoized_identity "aws_call hostname" ap_self hostname for hostname
  by unfold_locales
    (auto simp: aws_call_def aws_Self_def aws_KV_def result_option_def Let_def
      split: accessor.splits option.splits sum.splits if_splits prod.splits)

section \<open>Properties\<close>

text \<open>
  C14: one lease owner per process. However often and in whatever order the harness asks an AWS
  or a Google provider for its identity and its store, and whatever the metadata endpoint
  answers at each of those times, all stores it hands out have the same lease owner, so a
  lease taken through one can be renewed through another.
\<close>

theorem one_lease_owner:
  assumes "kvs = fst (handed_out (gcp_call rfc3339 mk env hostname) cs p) \<or> kvs = fst (handed_out (aws_call hostname) cs q)"
    and "k \<in> set kvs" and "k' \<in> set kvs"
  shows "store_owner k = store_owner k'"
  using assms gcp_owner.one_owner aws_owner.one_owner by blast

definition demo_cfg :: provider_config where
  "demo_cfg = \<lparr>c_namespace = ''tikv'', c_kv_store = ''locks'', c_kv_prefix = [], c_options = [(''project'', ''p''), (''location'', ''r'')]\<rparr>"

lemma one_lease_owner_witness:
  "\<exists>k k'. fst (handed_out (aws_call (Inr ''host'')) [(AskKV, Inl ErrUnsupported), (AskKV, gcp_fetchIdentity (\<lambda>_. Inr ''7'') demo_pool_env)]
       \<lparr>ap_cfg = demo_cfg, ap_endpoint = None, ap_self = None\<rparr>) = [k, k'] \<and> store_owner k = store_owner k'"
proof -
  let ?kvs = "fst (handed_out (aws_call (Inr ''host'')) [(AskKV, Inl ErrUnsupported), (AskKV, gcp_fetchIdentity (\<lambda>_. Inr ''7'') demo_pool_env)]
       \<lparr>ap_cfg = demo_cfg, ap_endpoint = None, ap_self = None\<rparr>)"
  have "length ?kvs = 2" by (simp add: aws_call_def aws_KV_def aws_Self_def demo_cfg_def result_option_def)
  then obtain k k' where kvs: "?kvs = [k, k']" by (auto simp: numeral_2_eq_2 length_Suc_conv)
  then have "k \<in> set ?kvs" and "k' \<in> set ?kvs" by simp_all
  then have "store_owner k = store_owner k'" by (rule one_lease_owner [OF disjI2 [OF refl]])
  with kvs show ?thesis by blast
qed

end
