(* ===== verification/Control.thy ===== *)
theory Control
  imports Workload_State
begin

text \<open>
  The control socket of main.go (\<^verbatim>\<open>serveControlSocket\<close>) with its one handler, the plain probes
  \<^verbatim>\<open>probeHTTP\<close> and \<^verbatim>\<open>probeTCP\<close>, and the whole way of a container health check: the probe client, the
  socket, the handler and the registry behind it. The file system's and the network's answers
  and the JSON encoding are arguments.
\<close>

section \<open>The handler\<close>

text \<open>Status and body of the answer to a request; the mux knows one path.\<close>

definition control_request ::
  "(stateSnapshot \<Rightarrow> string) \<Rightarrow> time \<Rightarrow> harnessState \<Rightarrow> string \<Rightarrow> string \<Rightarrow> nat \<times> string" where
  "control_request encode now st method path =
     (if path \<noteq> ''/health'' then (404, ''404 page not found'' @ [CHR 0x0A])
      else if method \<noteq> ''GET'' then (405, ''method not allowed'' @ [CHR 0x0A])
      else (200, encode (snapshot now st)))"

section \<open>The server\<close>

datatype rm_result = Removed | NotExist | RemoveFailed go_error

datatype sock_action = SockRemove | SockListen | SockShutdown | SockUnlink

datatype serve_end = ServeStopped | ServeError go_error | ServerClosed

text \<open>
  The stale socket is removed, the listener opened, and the server runs until the context is
  done or serving ends; the socket file is removed on the way out whenever it was opened.
\<close>

definition serveControlSocket :: "rm_result \<Rightarrow> go_error option \<Rightarrow> serve_end \<Rightarrow> go_error option \<times> sock_action list" where
  "serveControlSocket stale listen ending =
     (case stale of
        RemoveFailed e \<Rightarrow> (Some (Wrapf ''failed to remove stale control socket: %w'' [] e), [SockRemove])
      | _ \<Rightarrow>
          (case listen of
             Some e \<Rightarrow> (Some (Wrapf ''failed to listen on control socket: %w'' [] e), [SockRemove, SockListen])
           | None \<Rightarrow>
               (case ending of
                  ServeStopped \<Rightarrow> (None, [SockRemove, SockListen, SockShutdown, SockUnlink])
                | ServeError e \<Rightarrow> (Some e, [SockRemove, SockListen, SockUnlink])
                | ServerClosed \<Rightarrow> (None, [SockRemove, SockListen, SockUnlink]))))"

section \<open>Probes\<close>

text \<open>\<open>exchange\<close> is the request with the client's timeout: the status code of the answer.\<close>

definition probeHTTP ::
  "(string \<Rightarrow> go_error option) \<Rightarrow> (string \<Rightarrow> duration \<Rightarrow> int go_result) \<Rightarrow> string \<Rightarrow> duration \<Rightarrow> go_error option" where
  "probeHTTP new_request exchange target timeout =
     (case new_request target of
        Some e \<Rightarrow> Some e
      | None \<Rightarrow>
          (case exchange target timeout of
             Inl e \<Rightarrow> Some e
           | Inr code \<Rightarrow>
               if code < 200 \<or> 300 \<le> code then Some (Errorf ''unexpected status code: %d'' [format_int code]) else None))"

text \<open>\<open>dial\<close>: the error of connecting, or what closing the connection returned.\<close>

definition probeTCP :: "(string \<Rightarrow> duration \<Rightarrow> (go_error option) go_result) \<Rightarrow> string \<Rightarrow> duration \<Rightarrow> go_error option" where
  "probeTCP dial target timeout = (case dial target timeout of Inl e \<Rightarrow> Some e | Inr closed \<Rightarrow> closed)"

section \<open>Lemmas\<close>

definition verdict_fields :: "stateSnapshot \<Rightarrow> (bool \<times> string) list" where
  "verdict_fields s = map (\<lambda>w. (s_up w, s_health w)) (snap_workloads s)"

text \<open>The verdict reads nothing but the up flags and the health strings.\<close>

lemma judge_verdict_fields:
  "judge_snapshot s = None \<longleftrightarrow>
     verdict_fields s \<noteq> [] \<and> list_all (\<lambda>(up, health). health = ''healthy'' \<or> (health = ''unknown'' \<and> up)) (verdict_fields s)"
  by (simp add: judge_snapshot_def verdict_fields_def probe_workloads_ok list.pred_map comp_def)

lemma judge_same_fields: "verdict_fields s' = verdict_fields s \<Longrightarrow> judge_snapshot s' = None \<longleftrightarrow> judge_snapshot s = None"
  by (simp add: judge_verdict_fields)

text \<open>Once the listener was opened the socket file does not outlive the server.\<close>

lemma socket_unlinked: "serveControlSocket stale listen ending = (r, acts) \<Longrightarrow> SockListen \<in> set acts \<Longrightarrow> listen = None \<Longrightarrow> last acts = SockUnlink"
  by (auto simp: serveControlSocket_def split: rm_result.splits option.splits serve_end.splits)

section \<open>Properties\<close>

text \<open>
  C22: the container health check, end to end, as the code has it. When the JSON encoding carries
  the up flags and health strings of the snapshot across, the probe run against the socket of a
  harness exits successfully exactly when the harness has at least one workload and each is either
  marked healthy, or is up with its health unknown. So a workload that is down passes as long as it
  was last marked healthy, against the README and the comment in runHealthProbe, which say that any
  down workload fails the probe. A request with another method is refused.
\<close>

theorem health_check_end_to_end:
  assumes "\<exists>s'. decode (encode (snapshot now st)) = Inr s' \<and> verdict_fields s' = verdict_fields (snapshot now st)"
  shows "(fst (run_health_probe (\<lambda>_. Inr (Inr (snd (control_request encode now st ''GET'' ''/health'')))) decode path) = None
      \<longleftrightarrow> path \<noteq> [] \<and> h_workloads st \<noteq> []
        \<and> list_all (\<lambda>w. w_health w = HealthHealthy \<or> (w_health w = HealthUnknown \<and> w_up w)) (h_workloads st))
    \<and> (method \<noteq> ''GET'' \<longrightarrow> fst (control_request encode now st method ''/health'') = 405)"
proof -
  from assms obtain s' where
    s': "decode (encode (snapshot now st)) = Inr s'" "verdict_fields s' = verdict_fields (snapshot now st)" by blast
  then show ?thesis
    by (simp add: control_request_def run_health_probe_def judge_same_fields [OF s'(2)] judge_snapshot_ok)
qed

text \<open>An encoding that meets the law: two characters per workload.\<close>

definition demo_encode :: "stateSnapshot \<Rightarrow> string" where
  "demo_encode s = concat (map (\<lambda>(up, health). [if up then CHR ''+'' else CHR ''-'', if health = ''healthy'' then CHR ''h'' else CHR ''u''])
     (verdict_fields s))"

fun demo_fields :: "string \<Rightarrow> (bool \<times> string) list" where
  "demo_fields (u # h # cs) = (u = CHR ''+'', if h = CHR ''h'' then ''healthy'' else ''unknown'') # demo_fields cs"
| "demo_fields _ = []"

definition demo_decode :: "string \<Rightarrow> stateSnapshot go_result" where
  "demo_decode body =
     Inr \<lparr>snap_running = True, snap_startedAt = 0, snap_uptime = 0,
          snap_workloads = map (\<lambda>(up, health). (snapshot_workload 0 (new_workload ''w'' 0))\<lparr>s_up := up, s_health := health\<rparr>)
            (demo_fields body)\<rparr>"

lemma health_check_end_to_end_witness:
  "fst (run_health_probe
     (\<lambda>_. Inr (Inr (snd (control_request demo_encode 9 \<lparr>h_startedAt = 0, h_workloads = [setUp 1 42 (new_workload ''w'' 0)]\<rparr> ''GET'' ''/health''))))
     demo_decode ''/run/muster.sock'') = None"
proof -
  let ?st = "\<lparr>h_startedAt = 0, h_workloads = [setUp 1 42 (new_workload ''w'' 0)]\<rparr>"
  have "\<exists>s'. demo_decode (demo_encode (snapshot 9 ?st)) = Inr s' \<and> verdict_fields s' = verdict_fields (snapshot 9 ?st)"
    by (simp add: demo_decode_def demo_encode_def verdict_fields_def snapshot_def snapshot_workload_def setUp_def new_workload_def)
  from health_check_end_to_end [where decode = demo_decode and encode = demo_encode and now = 9 and st = ?st,
      OF this, of "''/run/muster.sock''"] show ?thesis
    by (simp add: setUp_def new_workload_def)
qed

end
