(* ===== verification/Harness.thy ===== *)
theory Harness
  imports Registry Promise Control Flags
begin

text \<open>
  The harness itself: capability.go (a capability that may be missing, with the reason), and of
  main.go \<^verbatim>\<open>openProvider\<close>, \<^verbatim>\<open>provisionKV\<close>, the wait of \<^verbatim>\<open>doIt\<close> for the promise of main() and the
  exit code of \<^verbatim>\<open>main\<close>; from starlark_engine.go \<^verbatim>\<open>loadScript\<close> and \<^verbatim>\<open>callMain\<close>. The script is an
  argument: what loading it gave and what main() returned. The select of \<^verbatim>\<open>doIt\<close> is a sequence
  of events, among them those of the promise it waits for.
\<close>

section \<open>Capabilities\<close>

text \<open>A nil interface value is \<open>None\<close>.\<close>

record 'a optional =
  o_val :: "'a option"
  o_err :: "go_error option"

definition resolved :: "'a \<Rightarrow> 'a optional" where
  "resolved v = \<lparr>o_val = Some v, o_err = None\<rparr>"

definition unavailable :: "go_error \<Rightarrow> 'a optional" where
  "unavailable e = \<lparr>o_val = None, o_err = Some e\<rparr>"

definition capability :: "'a go_result \<Rightarrow> 'a optional" where
  "capability r = (case r of Inl e \<Rightarrow> unavailable e | Inr v \<Rightarrow> resolved v)"

definition opt_get :: "'a optional \<Rightarrow> 'a go_result" where
  "opt_get c =
     (case o_err c of
        Some e \<Rightarrow> Inl e
      | None \<Rightarrow> (case o_val c of None \<Rightarrow> Inl ErrNotConfigured | Some v \<Rightarrow> Inr v))"

definition require :: "string \<Rightarrow> 'a optional \<Rightarrow> 'a go_result" where
  "require what c = (case opt_get c of Inl e \<Rightarrow> Inl (Wrapf ''%s %w'' [what] e) | Inr v \<Rightarrow> Inr v)"

section \<open>Opening the provider\<close>

record ('kv, 'disc, 'fleet, 'reg) engine_deps =
  dp_disc :: "'disc optional"
  dp_kv :: "'kv optional"
  dp_fleet :: "'fleet optional"
  dp_reg :: "'reg optional"
  dp_self :: "identity option"
  dp_provider :: string
  dp_command :: "string list"
  dp_allowRun :: bool
  dp_st :: harnessState

text \<open>
  A store that implements \<^verbatim>\<open>Provisioner\<close> has a \<open>provision\<close> answer (its error, if any); one that
  does not has none.
\<close>

definition provisionKV :: "('kv \<Rightarrow> go_error option option) \<Rightarrow> string \<Rightarrow> 'kv optional \<Rightarrow> go_error option" where
  "provisionKV provision pname kv =
     (case require ''kv store'' kv of
        Inl e \<Rightarrow> Some (Wrapf ''-kv-create: %w'' [] e)
      | Inr store \<Rightarrow>
          (case provision store of
             None \<Rightarrow> Some (Errorf ''-kv-create: provider %q cannot create its kv store; provision it out of band'' [pname])
           | Some (Some e) \<Rightarrow> Some (Wrapf ''failed to ensure kv store: %w'' [] e)
           | Some None \<Rightarrow> None))"

record muster_settings =
  m_provider :: string
  m_cfg :: provider_config
  m_kvCreate :: bool
  m_command :: "string list"
  m_allowRun :: bool

type_synonym ('kv, 'disc, 'fleet, 'reg) factory =
  "string \<times> (provider_config \<Rightarrow> (('kv, 'disc, 'fleet, 'reg) provider) go_result)"

definition openProvider ::
  "environment \<Rightarrow> ('kv, 'disc, 'fleet, 'reg) factory registry \<Rightarrow> ('kv \<Rightarrow> go_error option option) \<Rightarrow> time \<Rightarrow> muster_settings
    \<Rightarrow> (('kv, 'disc, 'fleet, 'reg) provider \<times> ('kv, 'disc, 'fleet, 'reg) engine_deps) go_result" where
  "openProvider env r provision now ms =
     (case Select env r (m_provider ms) of
        Inl e \<Rightarrow> Inl e
      | Inr (fname, fopen) \<Rightarrow>
          (case fopen (m_cfg ms) of
             Inl e \<Rightarrow> Inl (Wrapf ''provider %q: %w'' [fname] e)
           | Inr p \<Rightarrow>
               let self = (case p_self p of Inl _ \<Rightarrow> None | Inr i \<Rightarrow> Some i);
                   kv = capability (p_kv p)
               in case (if m_kvCreate ms then provisionKV provision (p_name p) kv else None) of
                    Some e \<Rightarrow> Inl e
                  | None \<Rightarrow>
                      Inr (p, \<lparr>dp_disc = capability (p_discovery p), dp_kv = kv, dp_fleet = capability (p_fleet p),
                               dp_reg = capability (p_registrar p), dp_self = self, dp_provider = p_name p,
                               dp_command = m_command ms, dp_allowRun = m_allowRun ms, dp_st = new_harness now\<rparr>)))"

text \<open>How loudly a missing identity is logged: a provider without one is not a problem.\<close>

datatype log_level = LevelDebug | LevelWarn

definition identity_log_level :: "go_error \<Rightarrow> log_level" where
  "identity_log_level e = (if errors_is e ErrUnsupported then LevelDebug else LevelWarn)"

section \<open>The script\<close>

text \<open>The globals the script defined, or why it could not be read or run.\<close>

datatype script_load = ScriptUnreadable go_error | ScriptFailed go_error | ScriptGlobals "(string \<times> sl_value) list"

definition loadScript :: "string \<Rightarrow> script_load \<Rightarrow> nat go_result" where
  "loadScript path load =
     (case load of
        ScriptUnreadable e \<Rightarrow> Inl (Wrapf ''failed to read script: %w'' [] e)
      | ScriptFailed e \<Rightarrow> Inl (Wrapf ''failed to load script %s: %w'' [path] e)
      | ScriptGlobals g \<Rightarrow>
          (case map_of g ''main'' of
             Some (SFunction f) \<Rightarrow> Inr f
           | _ \<Rightarrow> Inl (Errorf ''script must define a main() function'' [])))"

definition callMain :: "sl_value go_result \<Rightarrow> nat go_result" where
  "callMain r =
     (case r of
        Inl e \<Rightarrow> Inl e
      | Inr (SPromise i) \<Rightarrow> Inr i
      | Inr v \<Rightarrow> Inl (Errorf ''main() must return a promise, got %s'' [sl_type v]))"

section \<open>Waiting for the workload\<close>

record harness_run =
  hr_p :: promise
  hr_shutdown :: bool
  hr_hard :: bool
  hr_effects :: "p_effect list"

datatype h_event = HDone | HShutdown | HHard | HPromise p_event

definition hardTimeout :: go_error where
  "hardTimeout = Errorf ''workload did not stop within %s of shutdown signal'' [''1m0s'']"

definition h_step :: "h_event \<Rightarrow> harness_run \<Rightarrow> (go_error option) option \<times> harness_run" where
  "h_step ev h =
     (case ev of
        HDone \<Rightarrow> (if p_settled (hr_p h) then Some (p_err (hr_p h)) else None, h)
      | HShutdown \<Rightarrow>
          (if hr_shutdown h
           then let (p, fx) = (if p_signallable (hr_p h) then doSignal SNone (hr_p h) else doCancel (hr_p h))
                in (None, h\<lparr>hr_p := p, hr_shutdown := False, hr_hard := True, hr_effects := hr_effects h @ fx\<rparr>)
           else (None, h))
      | HHard \<Rightarrow> (if hr_hard h then Some (Some hardTimeout) else None, h)
      | HPromise e \<Rightarrow> (None, h\<lparr>hr_p := p_step e (hr_p h)\<rparr>))"

fun h_loop :: "h_event list \<Rightarrow> harness_run \<Rightarrow> (go_error option) option \<times> harness_run" where
  "h_loop [] h = (None, h)"
| "h_loop (ev # evs) h =
     (case h_step ev h of (Some r, h) \<Rightarrow> (Some r, h) | (None, h) \<Rightarrow> h_loop evs h)"

definition h_start :: "promise \<Rightarrow> harness_run" where
  "h_start p = \<lparr>hr_p = p, hr_shutdown = True, hr_hard = False, hr_effects = []\<rparr>"

text \<open>
  What \<^verbatim>\<open>doIt\<close> does beside waiting, deferred calls included: it opens and closes the provider, starts
  the control socket's goroutine, cancels the context that goroutine runs under, and waits for it,
  dropping what it returned. A cancelled context stops a server that still runs.
\<close>

datatype run_action = ActOpen | ActServe | ActCancel | ActWait "go_error option" "sock_action list" | ActClose

definition wait_socket :: "(rm_result \<times> go_error option \<times> serve_end) option \<Rightarrow> run_action list" where
  "wait_socket socket =
     (case socket of
        None \<Rightarrow> []
      | Some (stale, listen, ending) \<Rightarrow> (case serveControlSocket stale listen ending of (e, acts) \<Rightarrow> [ActWait e acts]))"

text \<open>
  \<open>socket\<close> is \<open>None\<close> without -control-socket, and how the server fares otherwise; \<open>evs\<close> is what the
  select sees. The result is \<open>None\<close> while the harness still waits.
\<close>

definition doIt ::
  "string \<Rightarrow> (rm_result \<times> go_error option \<times> serve_end) option \<Rightarrow> ('p \<times> 'd) go_result \<Rightarrow> script_load \<Rightarrow> sl_value go_result
    \<Rightarrow> (nat \<Rightarrow> promise) \<Rightarrow> h_event list \<Rightarrow> (go_error option) option \<times> run_action list" where
  "doIt path socket opened load main_result promises evs =
     (if path = [] then (Some (Some (Errorf ''-script is required'' [])), [])
      else case opened of
             Inl e \<Rightarrow> (Some (Some e), [])
           | Inr _ \<Rightarrow>
               (case loadScript path load of
                  Inl e \<Rightarrow> (Some (Some e), [ActOpen, ActCancel, ActClose])
                | Inr _ \<Rightarrow>
                    let started = ActOpen # (if socket = None then [] else [ActServe]);
                        stopped = started @ [ActCancel] @ wait_socket socket @ [ActCancel, ActClose]
                    in (case callMain main_result of
                          Inl e \<Rightarrow> (Some (Some e), stopped)
                        | Inr i \<Rightarrow>
                            (case fst (h_loop evs (h_start (promises i))) of
                               None \<Rightarrow> (None, started)
                             | Some r \<Rightarrow> (Some r, stopped)))))"

section \<open>The process\<close>

text \<open>
  What \<^verbatim>\<open>main\<close> exits with: the flags after the environment, the answers of the health probe and
  of \<^verbatim>\<open>doIt\<close> if they are reached, and the code.
\<close>

definition flag_set :: "flag_entry list \<Rightarrow> string \<Rightarrow> bool" where
  "flag_set fs n = list_ex (\<lambda>f. fl_name f = n \<and> fl_value f = VBool True) fs"

definition muster_main ::
  "(string \<Rightarrow> string option) \<Rightarrow> flag_entry list \<Rightarrow> go_error option \<Rightarrow> go_error option \<Rightarrow> nat" where
  "muster_main lookup fs probe run =
     (case applyEnvDefaults lookup fs of
        (_, Some _) \<Rightarrow> 2
      | (fs', None) \<Rightarrow>
          if flag_set fs' ''provider-help'' then 0
          else if checkRenamedFlags (\<lambda>n. list_ex (\<lambda>f. fl_name f = n \<and> fl_passed f) fs') \<noteq> None then 2
          else if flag_set fs' ''health-probe'' then (if probe = None then 0 else 1)
          else if run = None then 0 else 1)"

section \<open>Lemmas\<close>

lemma require_capability:
  "require what (capability r) = (case r of Inl e \<Rightarrow> Inl (Wrapf ''%s %w'' [what] e) | Inr v \<Rightarrow> Inr v)"
  by (simp add: require_def opt_get_def capability_def unavailable_def resolved_def split: sum.splits)

text \<open>One stop request at most, made only on shutdown, and the deadline runs exactly from then on.\<close>

definition h_inv :: "harness_run \<Rightarrow> bool" where
  "h_inv h \<longleftrightarrow> (hr_hard h \<longleftrightarrow> \<not> hr_shutdown h) \<and> (hr_shutdown h \<longrightarrow> hr_effects h = []) \<and> length (hr_effects h) \<le> 1"

lemma stop_effects:
  "snd (doSignal v p) \<in> {[], [CallCancelFn], [CallSignalFn v]}" "snd (doCancel p) \<in> {[], [CallCancelFn]}"
  by (auto simp: doSignal_def doCancel_def Let_def)

lemma h_inv_step: "h_inv h \<Longrightarrow> h_step ev h = (r, h') \<Longrightarrow> h_inv h'"
  using stop_effects(1) [of SNone "hr_p h"] stop_effects(2) [of "hr_p h"]
  by (cases ev) (auto simp: h_inv_def h_step_def Let_def split: if_splits prod.splits)

lemma h_inv_loop: "h_inv h \<Longrightarrow> h_loop evs h = (r, h') \<Longrightarrow> h_inv h'"
proof (induction evs arbitrary: h)
  case (Cons ev evs)
  obtain x h1 where step: "h_step ev h = (x, h1)" by (cases "h_step ev h")
  with h_inv_step [OF Cons.prems(1) step] Cons.IH [of h1] Cons.prems(2) show ?case
    by (auto split: option.splits)
qed simp

lemma h_start_inv: "h_inv (h_start p)"
  by (simp add: h_inv_def h_start_def)

lemma h_loop_append:
  "h_loop (xs @ ys) h = (case h_loop xs h of (Some r, h) \<Rightarrow> (Some r, h) | (None, h) \<Rightarrow> h_loop ys h)"
  by (induction xs arbitrary: h) (auto split: prod.splits option.splits)

text \<open>Once a deadline runs it keeps running.\<close>

lemma h_hard_loop: "hr_hard h \<Longrightarrow> h_loop evs h = (r, h') \<Longrightarrow> hr_hard h'"
proof (induction evs arbitrary: h)
  case (Cons ev evs)
  obtain x h1 where step: "h_step ev h = (x, h1)" by (cases "h_step ev h")
  have "hr_hard h1" using Cons.prems(1) step
    by (cases ev) (auto simp: h_step_def Let_def split: if_splits prod.splits)
  with step Cons.IH [of h1] Cons.prems(2) show ?case by (auto split: option.splits)
qed simp

lemma h_shutdown_arms: "h_inv h \<Longrightarrow> h_step HShutdown h = (r, h') \<Longrightarrow> r = None \<and> hr_hard h'"
  by (auto simp: h_inv_def h_step_def Let_def split: if_splits prod.splits)

lemma h_loop_result:
  assumes "h_loop evs h = (Some r, h')" and "hr_hard h \<longrightarrow> sd"
  shows "(p_settled (hr_p h') \<and> r = p_err (hr_p h')) \<or> (r = Some hardTimeout \<and> (sd \<or> HShutdown \<in> set evs))"
  using assms
proof (induction evs arbitrary: h sd)
  case (Cons ev evs)
  obtain x h1 where step: "h_step ev h = (x, h1)" by (cases "h_step ev h")
  show ?case
  proof (cases x)
    case None
    have "hr_hard h1 \<longrightarrow> sd \<or> ev = HShutdown" using Cons.prems(2) step
      by (cases ev) (auto simp: h_step_def Let_def split: if_splits prod.splits)
    from Cons.IH [OF _ this] Cons.prems(1) step None show ?thesis by auto
  next
    case (Some y)
    with Cons.prems step show ?thesis
      by (cases ev) (auto simp: h_step_def Let_def split: if_splits prod.splits)
  qed
qed simp

lemma h_loop_quiet: "HShutdown \<notin> set evs \<Longrightarrow> h_loop evs h = (r, h') \<Longrightarrow> hr_effects h' = hr_effects h"
proof (induction evs arbitrary: h)
  case (Cons ev evs)
  obtain x h1 where step: "h_step ev h = (x, h1)" by (cases "h_step ev h")
  have "hr_effects h1 = hr_effects h" using Cons.prems(1) step
    by (cases ev) (auto simp: h_step_def split: if_splits)
  with step Cons.IH [of h1] Cons.prems show ?case by (auto split: option.splits)
qed simp

lemma h_loop_deadline:
  assumes "h_inv h"
  shows "fst (h_loop (pre @ HShutdown # mid @ HHard # post) h) \<noteq> None"
proof -
  obtain r1 h1 where l1: "h_loop pre h = (r1, h1)" by (cases "h_loop pre h")
  obtain r2 h2 where s: "h_step HShutdown h1 = (r2, h2)" by (cases "h_step HShutdown h1")
  have s2: "r2 = None" "hr_hard h2" using h_shutdown_arms [OF h_inv_loop [OF assms l1] s] by auto
  obtain r3 h3 where l3: "h_loop mid h2 = (r3, h3)" by (cases "h_loop mid h2")
  have "hr_hard h3" by (rule h_hard_loop [OF s2(2) l3])
  with l1 s s2 l3 show ?thesis
    by (cases r1; cases r3) (auto simp: h_loop_append h_step_def [of HHard])
qed

text \<open>
  What a run leaves: a provider that was opened is closed, once and last; a control socket that
  was started was told to stop and waited for before that, and its file was removed last unless it could not be opened.
\<close>

definition sock_clean :: "go_error option \<Rightarrow> sock_action list \<Rightarrow> bool" where
  "sock_clean e acts \<longleftrightarrow> last acts = SockUnlink \<or> (e \<noteq> None \<and> SockUnlink \<notin> set acts)"

definition torn_down :: "run_action list \<Rightarrow> bool" where
  "torn_down acts \<longleftrightarrow>
     acts = [] \<or>
     (\<exists>mid. acts = ActOpen # mid @ [ActCancel, ActClose] \<and> ActOpen \<notin> set mid \<and> ActClose \<notin> set mid
        \<and> (ActServe \<in> set mid \<longrightarrow> (\<exists>e sa. mid = [ActServe, ActCancel, ActWait e sa] \<and> sock_clean e sa)))"

lemma serve_clean: "serveControlSocket stale listen ending = (e, acts) \<Longrightarrow> sock_clean e acts"
  by (auto simp: serveControlSocket_def sock_clean_def split: rm_result.splits option.splits serve_end.splits)

lemma wait_socket_cases:
  "(socket = None \<and> wait_socket socket = []) \<or> (\<exists>e sa. socket \<noteq> None \<and> wait_socket socket = [ActWait e sa] \<and> sock_clean e sa)"
proof (cases socket)
  case (Some x)
  obtain stale listen ending where x: "x = (stale, listen, ending)" by (cases x)
  obtain e sa where "serveControlSocket stale listen ending = (e, sa)" by fastforce
  with serve_clean [OF this] Some x show ?thesis by (simp add: wait_socket_def)
qed (simp add: wait_socket_def)

lemma stopped_torn_down:
  "torn_down (ActOpen # (if socket = None then [] else [ActServe]) @ [ActCancel] @ wait_socket socket @ [ActCancel, ActClose])"
  using wait_socket_cases [of socket]
proof
  assume "socket = None \<and> wait_socket socket = []"
  then have "socket = None" "wait_socket None = []" by auto
  then show ?thesis unfolding torn_down_def by (intro disjI2 exI [of _ "[ActCancel]"]) simp
next
  assume "\<exists>e sa. socket \<noteq> None \<and> wait_socket socket = [ActWait e sa] \<and> sock_clean e sa"
  then obtain e sa where "socket \<noteq> None" "wait_socket socket = [ActWait e sa]" "sock_clean e sa" by blast
  then show ?thesis unfolding torn_down_def by (intro disjI2 exI [of _ "[ActServe, ActCancel, ActWait e sa]"]) simp
qed

lemma doIt_torn_down:
  assumes "doIt path socket opened load main_result promises evs = (Some r, acts)"
  shows "torn_down acts"
proof -
  have "torn_down [ActOpen, ActCancel, ActClose]" unfolding torn_down_def by (intro disjI2 exI [of _ "[]"]) simp
  then show ?thesis
    using assms stopped_torn_down [of socket]
    by (auto simp: doIt_def Let_def torn_down_def [of "[]"] split: if_splits sum.splits option.splits)
qed

text \<open>How the control socket fares, even that it could not be opened, changes nothing about the result.\<close>

lemma doIt_ignores_socket:
  "fst (doIt path (Some x) opened load main_result promises evs) = fst (doIt path socket opened load main_result promises evs)"
  by (auto simp: doIt_def Let_def split: sum.splits option.splits)

lemma doIt_waits:
  assumes "path \<noteq> []" and "loadScript path load = Inr f"
  shows "fst (doIt path socket (Inr x) load (Inr (SPromise i)) promises evs) = fst (h_loop evs (h_start (promises i)))"
  using assms by (auto simp: doIt_def callMain_def Let_def split: option.splits)

section \<open>Properties\<close>

text \<open>
  What stops the harness from starting. It starts exactly when a provider is selected and
  opens and, if -kv-create was given, its store can be provisioned: a missing identity, kv
  store, discovery, fleet or registrar never prevents it. A builtin that then needs a missing
  capability gets an error that names it and wraps the provider's own reason.
\<close>

theorem open_provider_outcome:
  "((\<exists>deps. openProvider env r provision now ms = Inr (p, deps)) \<longleftrightarrow>
     (\<exists>fname fopen. Select env r (m_provider ms) = Inr (fname, fopen) \<and> fopen (m_cfg ms) = Inr p)
     \<and> (m_kvCreate ms \<longrightarrow> (\<exists>store. p_kv p = Inr store \<and> provision store = Some None)))
   \<and> (openProvider env r provision now ms = Inr (p, deps) \<longrightarrow>
        (\<forall>e. p_kv p = Inl e \<longrightarrow> require what (dp_kv deps) = Inl (Wrapf ''%s %w'' [what] e))
        \<and> (\<forall>e. p_discovery p = Inl e \<longrightarrow> require what (dp_disc deps) = Inl (Wrapf ''%s %w'' [what] e))
        \<and> (\<forall>e. p_fleet p = Inl e \<longrightarrow> require what (dp_fleet deps) = Inl (Wrapf ''%s %w'' [what] e))
        \<and> (\<forall>e. p_registrar p = Inl e \<longrightarrow> require what (dp_reg deps) = Inl (Wrapf ''%s %w'' [what] e)))"
  by (auto simp: openProvider_def provisionKV_def require_capability Let_def
      split: sum.splits option.splits if_splits prod.splits)

text \<open>
  C17: shutdown is bounded and asked for once. Whatever the promise does meanwhile, the harness
  delivers at most one stop request, never before a shutdown, and if the deadline that starts
  with the shutdown passes it has returned; and when it returns, it is with the error the
  promise settled with, none on success, or with the timeout after a shutdown.
\<close>

theorem harness_shutdown:
  assumes "h_loop evs (h_start p) = (r, h)"
  shows "length (hr_effects h) \<le> 1 \<and> (hr_effects h \<noteq> [] \<longrightarrow> HShutdown \<in> set evs)
    \<and> (\<forall>pre mid post. evs = pre @ HShutdown # mid @ HHard # post \<longrightarrow> r \<noteq> None)
    \<and> (\<forall>e. r = Some e \<longrightarrow> (p_settled (hr_p h) \<and> e = p_err (hr_p h)) \<or> (e = Some hardTimeout \<and> HShutdown \<in> set evs))"
proof (intro conjI impI allI)
  show "length (hr_effects h) \<le> 1" using h_inv_loop [OF h_start_inv assms] by (simp add: h_inv_def)
  show "HShutdown \<in> set evs" if "hr_effects h \<noteq> []"
    using h_loop_quiet [OF _ assms] that by (auto simp: h_start_def)
  show "r \<noteq> None" if "evs = pre @ HShutdown # mid @ HHard # post" for pre mid post
    using h_loop_deadline [OF h_start_inv, of pre mid post p] assms that by simp
  show "(p_settled (hr_p h) \<and> e = p_err (hr_p h)) \<or> (e = Some hardTimeout \<and> HShutdown \<in> set evs)" if "r = Some e" for e
    using h_loop_result [of evs "h_start p" e h False] assms that by (simp add: h_start_def)
qed

lemma harness_shutdown_witness:
  "fst (h_loop [HShutdown, HPromise (EvTask (Inl CtxCanceled)), HDone, HHard] (h_start (spawn_promise False))) \<noteq> None"
  using harness_shutdown [OF prod.collapse [symmetric],
      of "[HShutdown, HPromise (EvTask (Inl CtxCanceled)), HDone, HHard]" "spawn_promise False"]
  by (metis append.left_neutral append_Cons)

lemma open_provider_outcome_witness:
  "\<exists>deps. openProvider (\<lambda>_. []) \<lparr>factories = [(''mem'', (''mem'', mem_open (Inr ''h'')))], absent = []\<rparr> (\<lambda>_. None) 0
     \<lparr>m_provider = ''mem'', m_cfg = \<lparr>c_namespace = [], c_kv_store = [], c_kv_prefix = [], c_options = []\<rparr>, m_kvCreate = False,
      m_command = [], m_allowRun = False\<rparr> = Inr ((Unimplemented ''mem'')\<lparr>p_kv := Inl ErrNotConfigured\<rparr>, deps)"
  by (rule open_provider_outcome [THEN conjunct1, THEN iffD2])
    (simp add: Select_def select_named_def mem_open_def ValidateOptions_def)

end
