(* ===== verification/Builtins.thy ===== *)
theory Builtins
  imports Harness Identity Discovery
begin

text \<open>
  The script's builtins of starlark_builtins.go that reach a capability: the kv_* family,
  instances(), all_replicas_running(), register() and deregister(), and the small ones around
  them (env(), randint(), un(), the probe factories, the arguments of http_request()). The
  Starlark library has already bound the arguments to parameters: an optional argument that was
  not passed is \<open>SNone\<close>, which the code treats alike. Network probes and the random source are
  arguments; a Go panic is \<open>None\<close>.
\<close>

section \<open>Key/value store\<close>

type_synonym 's kv_client = "time \<Rightarrow> kv_op \<Rightarrow> 's \<Rightarrow> kv_res \<times> 's"

fun res_value :: "kv_res \<Rightarrow> sl_value go_result" where
  "res_value (RBool b) = Inr (SBool b)"
| "res_value (RVal None) = Inr SNone"
| "res_value (RVal (Some v)) = Inr (SString v)"
| "res_value (RErr e) = Inl e"

definition requireKV :: "'s kv_client optional \<Rightarrow> 's kv_client go_result" where
  "requireKV kv = require ''kv store'' kv"

text \<open>The part every kv_* builtin shares: the store, then its last argument, then the call.\<close>

definition with_kv :: "'s kv_client optional \<Rightarrow> kv_op go_result \<Rightarrow> time \<Rightarrow> 's \<Rightarrow> sl_value go_result \<times> 's" where
  "with_kv kv op t s =
     (case requireKV kv of
        Inl e \<Rightarrow> (Inl e, s)
      | Inr client \<Rightarrow>
          (case op of
             Inl e \<Rightarrow> (Inl e, s)
           | Inr op \<Rightarrow> (case client t op s of (r, s) \<Rightarrow> (res_value r, s))))"

definition with_ttl :: "(int \<Rightarrow> int) \<Rightarrow> sl_value \<Rightarrow> (duration \<Rightarrow> kv_op) \<Rightarrow> kv_op go_result" where
  "with_ttl inexact ttlVal op = (case unpack_duration inexact ttlVal of Inl e \<Rightarrow> Inl e | Inr ttl \<Rightarrow> Inr (op ttl))"

definition kv_put_if_absent ::
  "(int \<Rightarrow> int) \<Rightarrow> 's kv_client optional \<Rightarrow> string \<Rightarrow> string \<Rightarrow> sl_value \<Rightarrow> time \<Rightarrow> 's \<Rightarrow> sl_value go_result \<times> 's" where
  "kv_put_if_absent inexact kv key val ttlVal = with_kv kv (with_ttl inexact ttlVal (PutIfAbsent key val))"

definition kv_compare_and_swap ::
  "(int \<Rightarrow> int) \<Rightarrow> 's kv_client optional \<Rightarrow> string \<Rightarrow> string \<Rightarrow> string \<Rightarrow> sl_value \<Rightarrow> time \<Rightarrow> 's \<Rightarrow> sl_value go_result \<times> 's" where
  "kv_compare_and_swap inexact kv key old new ttlVal = with_kv kv (with_ttl inexact ttlVal (CompareAndSwap key old new))"

definition kv_get :: "'s kv_client optional \<Rightarrow> string \<Rightarrow> time \<Rightarrow> 's \<Rightarrow> sl_value go_result \<times> 's" where
  "kv_get kv key = with_kv kv (Inr (Get key))"

definition kv_delete :: "'s kv_client optional \<Rightarrow> string \<Rightarrow> sl_value \<Rightarrow> time \<Rightarrow> 's \<Rightarrow> sl_value go_result \<times> 's" where
  "kv_delete kv key ifValue =
     with_kv kv
       (if ifValue = SNone then Inr (Delete key None)
        else case as_string ifValue of
               None \<Rightarrow> Inl (Errorf ''kv_delete: if_value must be a string'' [])
             | Some v \<Rightarrow> Inr (Delete key (Some v)))"

definition kv_renew ::
  "(int \<Rightarrow> int) \<Rightarrow> 's kv_client optional \<Rightarrow> string \<Rightarrow> sl_value \<Rightarrow> time \<Rightarrow> 's \<Rightarrow> sl_value go_result \<times> 's" where
  "kv_renew inexact kv key ttlVal = with_kv kv (with_ttl inexact ttlVal (Renew key))"

text \<open>A kv_* call of a script, and the operation its arguments read as.\<close>

datatype kv_call =
    CallPut string string sl_value
  | CallCas string string string sl_value
  | CallGet string
  | CallDelete string sl_value
  | CallRenew string sl_value

fun kv_builtin ::
  "(int \<Rightarrow> int) \<Rightarrow> 's kv_client optional \<Rightarrow> kv_call \<Rightarrow> time \<Rightarrow> 's \<Rightarrow> sl_value go_result \<times> 's" where
  "kv_builtin inexact kv (CallPut k v ttl) = kv_put_if_absent inexact kv k v ttl"
| "kv_builtin inexact kv (CallCas k old new ttl) = kv_compare_and_swap inexact kv k old new ttl"
| "kv_builtin inexact kv (CallGet k) = kv_get kv k"
| "kv_builtin inexact kv (CallDelete k v) = kv_delete kv k v"
| "kv_builtin inexact kv (CallRenew k ttl) = kv_renew inexact kv k ttl"

fun call_op :: "(int \<Rightarrow> int) \<Rightarrow> kv_call \<Rightarrow> kv_op option" where
  "call_op inexact (CallPut k v ttl) = (case unpack_duration inexact ttl of Inr d \<Rightarrow> Some (PutIfAbsent k v d) | Inl _ \<Rightarrow> None)"
| "call_op inexact (CallCas k old new ttl) =
     (case unpack_duration inexact ttl of Inr d \<Rightarrow> Some (CompareAndSwap k old new d) | Inl _ \<Rightarrow> None)"
| "call_op inexact (CallGet k) = Some (Get k)"
| "call_op inexact (CallDelete k SNone) = Some (Delete k None)"
| "call_op inexact (CallDelete k (SString v)) = Some (Delete k (Some v))"
| "call_op inexact (CallDelete k _) = None"
| "call_op inexact (CallRenew k ttl) = (case unpack_duration inexact ttl of Inr d \<Rightarrow> Some (Renew k d) | Inl _ \<Rightarrow> None)"

section \<open>Discovery and registration\<close>

definition instances ::
  "(discover_query \<Rightarrow> (provider_instance list) go_result) optional \<Rightarrow> string \<Rightarrow> string \<Rightarrow> string \<Rightarrow> sl_value go_result" where
  "instances disc service healthStatus namespace =
     (case require ''service discovery'' disc of
        Inl e \<Rightarrow> Inl e
      | Inr discover \<Rightarrow>
          (case discover \<lparr>q_namespace = namespace, q_service = service, q_health = healthStatus\<rparr> of
             Inl e \<Rightarrow> Inl e
           | Inr es \<Rightarrow> Inr (entries_to_starlark es)))"

definition resolveTarget :: "identity option \<Rightarrow> sl_value \<Rightarrow> sl_value \<Rightarrow> (string \<times> string) go_result" where
  "resolveTarget self groupV serviceV =
     (let pick = (\<lambda>v dflt what. if v = SNone then Inr dflt
            else case as_string v of None \<Rightarrow> Inl (Errorf what []) | Some s \<Rightarrow> Inr s);
          dflt = (case self of None \<Rightarrow> ([], []) | Some i \<Rightarrow> (i_group i, i_service i))
      in case pick groupV (fst dflt) ''group must be a string'' of
           Inl e \<Rightarrow> Inl e
         | Inr grp \<Rightarrow>
             (case pick serviceV (snd dflt) ''service must be a string'' of
                Inl e \<Rightarrow> Inl e
              | Inr service \<Rightarrow>
                  (if grp = [] \<or> service = []
                   then Inl (Errorf ''group/service unknown (no instance metadata); pass group= and service='' [])
                   else Inr (grp, service))))"

definition all_replicas_running ::
  "(workload_ref \<Rightarrow> bool go_result) optional \<Rightarrow> identity option \<Rightarrow> sl_value \<Rightarrow> sl_value \<Rightarrow> sl_value go_result" where
  "all_replicas_running fleet self groupV serviceV =
     (case require ''replica status'' fleet of
        Inl e \<Rightarrow> Inl e
      | Inr running \<Rightarrow>
          (case resolveTarget self groupV serviceV of
             Inl e \<Rightarrow> Inl e
           | Inr (grp, service) \<Rightarrow>
               (case running \<lparr>wr_group = grp, wr_name = service\<rparr> of Inl e \<Rightarrow> Inl e | Inr b \<Rightarrow> Inr (SBool b))))"

type_synonym 's registrar_client =
  "(registration \<Rightarrow> 's \<Rightarrow> go_error option \<times> 's) \<times> ('s \<Rightarrow> go_error option \<times> 's)"

definition register_builtin ::
  "'s registrar_client optional \<Rightarrow> string \<Rightarrow> int \<Rightarrow> string \<Rightarrow> string \<Rightarrow> 's \<Rightarrow> sl_value go_result \<times> 's" where
  "register_builtin reg service port address namespace s =
     (case require ''registration'' reg of
        Inl e \<Rightarrow> (Inl e, s)
      | Inr (doRegister, _) \<Rightarrow>
          (case doRegister \<lparr>r_namespace = namespace, r_service = service, r_address = address, r_port = port\<rparr> s of
             (Some e, s) \<Rightarrow> (Inl e, s)
           | (None, s) \<Rightarrow> (Inr SNone, s)))"

definition deregister_builtin :: "'s registrar_client optional \<Rightarrow> 's \<Rightarrow> sl_value go_result \<times> 's" where
  "deregister_builtin reg s =
     (case require ''registration'' reg of
        Inl e \<Rightarrow> (Inl e, s)
      | Inr (_, doDeregister) \<Rightarrow>
          (case doDeregister s of (Some e, s) \<Rightarrow> (Inl e, s) | (None, s) \<Rightarrow> (Inr SNone, s)))"

section \<open>Small builtins\<close>

definition env_builtin :: "(string \<Rightarrow> string option) \<Rightarrow> string \<Rightarrow> sl_value \<Rightarrow> sl_value" where
  "env_builtin lookupEnv name dflt = (case lookupEnv name of Some v \<Rightarrow> SString v | None \<Rightarrow> dflt)"

text \<open>\<open>draw n\<close> is \<^verbatim>\<open>rand.IntN(n)\<close>, which panics unless \<open>n\<close> is positive; \<open>None\<close> is that panic.\<close>

definition randint :: "(int \<Rightarrow> int) \<Rightarrow> int \<Rightarrow> int \<Rightarrow> (sl_value go_result) option" where
  "randint draw lo hi =
     (if hi < lo then Some (Inl (Errorf ''randint: b (%d) must be >= a (%d)'' [format_int hi, format_int lo]))
      else let n = wrap64 (wrap64 (hi - lo) + 1)
           in if n \<le> 0 then None else Some (Inr (SInt (wrap64 (lo + draw n)))))"

definition un_check :: "sl_value go_result \<Rightarrow> sl_value go_result" where
  "un_check res = (case res of Inl e \<Rightarrow> Inl e | Inr v \<Rightarrow> Inr (SBool (\<not> sl_truth v)))"

definition defaultProbeTimeout :: duration where
  "defaultProbeTimeout = 2 * second"

definition probeArgTimeout :: "(int \<Rightarrow> int) \<Rightarrow> sl_value \<Rightarrow> duration go_result" where
  "probeArgTimeout inexact v =
     (case unpack_duration inexact v of
        Inl e \<Rightarrow> Inl e
      | Inr d \<Rightarrow> Inr (if d \<le> 0 then defaultProbeTimeout else d))"

text \<open>
  http_ok(), tcp_ok() and grpc_ok(): a check that probes \<open>target\<close> with the timeout and is true
  when the probe reports no error. The gRPC one passes the service name along.
\<close>

definition probe_check ::
  "(int \<Rightarrow> int) \<Rightarrow> (string \<Rightarrow> duration \<Rightarrow> go_error option) \<Rightarrow> string \<Rightarrow> sl_value \<Rightarrow> (unit \<Rightarrow> sl_value) go_result" where
  "probe_check inexact probe target timeoutVal =
     (case probeArgTimeout inexact timeoutVal of
        Inl e \<Rightarrow> Inl e
      | Inr timeout \<Rightarrow> Inr (\<lambda>_. SBool (probe target timeout = None)))"

record http_req =
  rq_method :: string
  rq_url :: string
  rq_body :: "string option"
  rq_headers :: "(string \<times> string) list"
  rq_timeout :: duration

definition str_or_empty :: "sl_value \<Rightarrow> string" where
  "str_or_empty v = (case as_string v of None \<Rightarrow> [] | Some s \<Rightarrow> s)"

text \<open>
  http_request(): \<open>new_request\<close> is the error of building a request, if any, \<open>send\<close> the exchange, with
  the status and the body or why it could not be read; headers are set in order.
\<close>

definition http_request ::
  "(int \<Rightarrow> int) \<Rightarrow> (string \<Rightarrow> string \<Rightarrow> go_error option) \<Rightarrow> (http_req \<Rightarrow> (int \<times> string go_result) go_result)
    \<Rightarrow> string \<Rightarrow> string \<Rightarrow> sl_value \<Rightarrow> sl_value \<Rightarrow> sl_value \<Rightarrow> sl_value go_result" where
  "http_request inexact new_request send method url bodyVal headersVal timeoutVal =
     (case unpack_duration inexact timeoutVal of
        Inl e \<Rightarrow> Inl e
      | Inr timeout \<Rightarrow>
          (case (if bodyVal = SNone then Inr None
                 else case as_string bodyVal of
                        None \<Rightarrow> Inl (Errorf ''http_request: body must be a string'' [])
                      | Some s \<Rightarrow> Inr (Some s)) of
             Inl e \<Rightarrow> Inl e
           | Inr body \<Rightarrow>
               (case new_request method url of
                  Some e \<Rightarrow> Inl e
                | None \<Rightarrow>
                    (case (case headersVal of
                             SNone \<Rightarrow> Inr []
                           | SDict kvs \<Rightarrow> Inr (map (\<lambda>(k, v). (str_or_empty k, str_or_empty v)) kvs)
                           | _ \<Rightarrow> Inl (Errorf ''http_request: headers must be a dict'' [])) of
                       Inl e \<Rightarrow> Inl e
                     | Inr headers \<Rightarrow>
                         (case send \<lparr>rq_method = method, rq_url = url, rq_body = body, rq_headers = headers,
                                    rq_timeout = (if timeout \<le> 0 then 30 * second else timeout)\<rparr> of
                            Inl e \<Rightarrow> Inl (Wrapf ''http_request %s %s: %w'' [method, url] e)
                          | Inr (status, Inl e) \<Rightarrow> Inl e
                          | Inr (status, Inr respBody) \<Rightarrow>
                              Inr (SStruct [(''body'', SString (take (2 ^ 20) respBody)), (''status'', SInt status)]))))))"

section \<open>Lemmas\<close>

lemma kv_builtin_with_kv:
  "\<exists>op. kv_builtin inexact kv c = with_kv kv op \<and> call_op inexact c = (case op of Inl _ \<Rightarrow> None | Inr o' \<Rightarrow> Some o')"
proof (cases c)
  case (CallDelete k v)
  then show ?thesis by (cases v) (auto simp: kv_delete_def)
qed (auto simp: kv_put_if_absent_def kv_compare_and_swap_def kv_get_def kv_renew_def with_ttl_def split: sum.splits)

lemma randint_in_range:
  assumes "- (2 ^ 63) \<le> lo" and "lo \<le> hi" and "hi < 2 ^ 63" and "hi - lo < 2 ^ 63 - 1"
    and "\<And>n. 0 < n \<Longrightarrow> 0 \<le> draw n \<and> draw n < n"
  shows "\<exists>x. randint draw lo hi = Some (Inr (SInt x)) \<and> lo \<le> x \<and> x \<le> hi"
proof -
  have n: "wrap64 (wrap64 (hi - lo) + 1) = hi - lo + 1" using assms(2,4) by (simp add: wrap64_id)
  have d: "0 \<le> draw (hi - lo + 1) \<and> draw (hi - lo + 1) < hi - lo + 1" using assms(5) [of "hi - lo + 1"] assms(2) by simp
  then have "wrap64 (lo + draw (hi - lo + 1)) = lo + draw (hi - lo + 1)"
    using assms(1,3) by (intro wrap64_id) linarith+
  with n d assms(2) show ?thesis by (simp add: randint_def)
qed

section \<open>Properties\<close>

text \<open>
  C13: the kv builtins are the contract. Over any store that keeps the KVStore contract and answers,
  a kv_* call of a script whose ttl or if_value reads as an operation returns that operation's answer
  as the contract gives it (a boolean, the value or None, or the error the contract gives a renewal
  without a ttl) and changes the leases as the contract says; a call whose argument does not read
  raises and changes nothing. When the provider has no store, for whatever reason, every kv_* call
  raises an error that names the store and wraps the reason, and changes nothing.
\<close>

theorem kv_builtins_conform:
  assumes "kv_reliable exec view ru invar" and "invar s"
    and "kv_builtin inexact kv c t s = (r, s')"
  shows "case opt_get kv of
      Inr client \<Rightarrow> client = exec own \<longrightarrow>
        (case call_op inexact c of
           Some op \<Rightarrow> r = res_value (fst (kv_spec ru own t op (view s))) \<and> view s' = snd (kv_spec ru own t op (view s))
         | None \<Rightarrow> (\<exists>e. r = Inl e) \<and> s' = s)
    | Inl e \<Rightarrow> r = Inl (Wrapf ''%s %w'' [''kv store''] e) \<and> s' = s"
proof -
  obtain op where op: "kv_builtin inexact kv c = with_kv kv op"
    "call_op inexact c = (case op of Inl _ \<Rightarrow> None | Inr o' \<Rightarrow> Some o')"
    using kv_builtin_with_kv by blast
  have ok: "exec own t o' s = (x, s1) \<Longrightarrow> x = fst (kv_spec ru own t o' (view s)) \<and> view s1 = snd (kv_spec ru own t o' (view s))"
    for o' x s1 using kv_reliable.exec_exact [OF assms(1,2), of own t o'] by simp
  show ?thesis
    using assms(3) op by (auto simp: with_kv_def requireKV_def require_def dest!: ok split: sum.splits prod.splits)
qed

lemma kv_builtins_conform_witness:
  "fst (kv_builtin (\<lambda>i. i) (resolved (mem_exec ''a'')) (CallPut ''seed'' ''10.0.0.1'' (SInt 30)) 5 (mem_new ''a'')) = Inr (SBool True)"
proof -
  have "mem_view (mem_new ''a'') ''seed'' = None" by (simp add: mem_view_def mem_new_def)
  then show ?thesis
    using kv_builtins_conform [OF mem.kv_reliable_axioms TrueI prod.collapse [symmetric],
        of "\<lambda>i. i" "resolved (mem_exec ''a'')" "CallPut ''seed'' ''10.0.0.1'' (SInt 30)" 5 "mem_new ''a''" "''a''"]
    by (simp add: opt_get_def resolved_def)
qed

text \<open>
  C34: randint() stays in its range, inclusive at both ends, as long as the range holds fewer
  than 2^63 - 1 numbers beyond its first; the full range of non-negative integers makes the
  random source panic, because its size wraps to a negative number.
\<close>

theorem randint_range:
  assumes "\<And>n. 0 < n \<Longrightarrow> 0 \<le> draw n \<and> draw n < n"
  shows "(- (2 ^ 63) \<le> lo \<and> lo \<le> hi \<and> hi < 2 ^ 63 \<and> hi - lo < 2 ^ 63 - 1 \<longrightarrow>
      (\<exists>x. randint draw lo hi = Some (Inr (SInt x)) \<and> lo \<le> x \<and> x \<le> hi))
    \<and> randint draw 0 (2 ^ 63 - 1) = None"
  using randint_in_range [OF _ _ _ _ assms] by (auto simp: randint_def wrap64_def)

lemma randint_range_witness: "\<exists>x. randint (\<lambda>n. 0) 1 6 = Some (Inr (SInt x)) \<and> 1 \<le> x \<and> x \<le> 6"
  using randint_range [of "\<lambda>n. 0" 1 6] by simp

end
