(* ===== verification/Lease_Protocol.thy ===== *)
theory Lease_Protocol
  imports Mem_KV Dynamo_KV Firestore_KV
begin

text \<open>
  Leases as locks. Replicas share one key of a store: they claim it, renew it, swap it and
  release it, calls may fail, replicas may restart and forget. A replica takes itself for the
  holder from the moment a claim, renewal or swap answers true until the deadline that call
  asked for, and gives the lock up when a call that could have changed the entry fails. The
  system is a step relation over the store's own operations; its invariant says that whoever
  takes itself for the holder is the owner in the store, so there is never more than one.

  Operations are atomic here, which is what a conditional write of DynamoDB, a transaction of
  Firestore and the mutex of the in-process store give. All replicas read one clock.
\<close>

section \<open>The system\<close>

record 'st lease_sys =
  ls_store :: 'st
  ls_now :: time
  ls_held :: "string \<Rightarrow> lease option"

text \<open>What a replica believes after a call of its own on \<open>k\<close>.\<close>

fun believe :: "lease_rule \<Rightarrow> string \<Rightarrow> time \<Rightarrow> kv_op \<Rightarrow> kv_res \<Rightarrow> lease option \<Rightarrow> lease option" where
  "believe ru own t (PutIfAbsent k v ttl) r h = (if r = RBool True then Some (new_lease ru own t v ttl) else h)"
| "believe ru own t (CompareAndSwap k old new ttl) r h =
     (if r = RBool True then Some (new_lease ru own t new ttl) else if r = RBool False then h else None)"
| "believe ru own t (Get k) r h = h"
| "believe ru own t (Delete k ifv) r h = (if r = RBool False then h else None)"
| "believe ru own t (Renew k ttl) r h =
     (if r = RBool False then h
      else if r = RBool True
      then (case h of None \<Rightarrow> None | Some l \<Rightarrow> if live_at ru t l then Some (l\<lparr>l_exp := expiry_at ru t ttl\<rparr>) else None)
      else None)"

definition holds_lease :: "lease_rule \<Rightarrow> string \<Rightarrow> 'st lease_sys \<Rightarrow> bool" where
  "holds_lease ru own s = (case ls_held s own of None \<Rightarrow> False | Some l \<Rightarrow> live_at ru (ls_now s) l)"

text \<open>The one rule replicas follow: nobody swaps away or deletes a value another one is holding.\<close>

definition courteous :: "lease_rule \<Rightarrow> string \<Rightarrow> string \<Rightarrow> kv_op \<Rightarrow> 'st lease_sys \<Rightarrow> bool" where
  "courteous ru k own op s \<longleftrightarrow>
     (\<forall>other l. other \<noteq> own \<and> ls_held s other = Some l \<and> live_at ru (ls_now s) l \<longrightarrow> \<not> entitled k l own op)"

inductive lease_reach ::
  "(string \<Rightarrow> time \<Rightarrow> kv_op \<Rightarrow> 'st \<Rightarrow> kv_res \<times> 'st) \<Rightarrow> lease_rule \<Rightarrow> string \<Rightarrow> 'st \<Rightarrow> time \<Rightarrow> 'st lease_sys \<Rightarrow> bool"
  for ex ru k st0 t0 where
  start: "lease_reach ex ru k st0 t0 \<lparr>ls_store = st0, ls_now = t0, ls_held = (\<lambda>_. None)\<rparr>"
| tick: "lease_reach ex ru k st0 t0 s \<Longrightarrow> ls_now s \<le> t \<Longrightarrow> lease_reach ex ru k st0 t0 (s\<lparr>ls_now := t\<rparr>)"
| restart: "lease_reach ex ru k st0 t0 s \<Longrightarrow> lease_reach ex ru k st0 t0 (s\<lparr>ls_held := (ls_held s)(own := None)\<rparr>)"
| elsewhere: "lease_reach ex ru k st0 t0 s \<Longrightarrow> op_key op \<noteq> k \<Longrightarrow> ex own (ls_now s) op (ls_store s) = (r, st') \<Longrightarrow>
    lease_reach ex ru k st0 t0 (s\<lparr>ls_store := st'\<rparr>)"
| call: "lease_reach ex ru k st0 t0 s \<Longrightarrow> op_key op = k \<Longrightarrow> courteous ru k own op s \<Longrightarrow>
    ex own (ls_now s) op (ls_store s) = (r, st') \<Longrightarrow>
    lease_reach ex ru k st0 t0
      (s\<lparr>ls_store := st', ls_held := (ls_held s)(own := believe ru own (ls_now s) op r (ls_held s own))\<rparr>)"

section \<open>The invariant\<close>

text \<open>Every belief that is still live is the entry in the store.\<close>

definition lease_inv :: "('st \<Rightarrow> kv_map) \<Rightarrow> lease_rule \<Rightarrow> string \<Rightarrow> 'st lease_sys \<Rightarrow> bool" where
  "lease_inv view ru k s \<longleftrightarrow>
     (\<forall>own l. ls_held s own = Some l \<and> live_at ru (ls_now s) l \<longrightarrow> view (ls_store s) k = Some l \<and> l_owner l = own)"

text \<open>A contract whose leases, once over, stay over.\<close>

locale kv_clocked = kv_contract +
  assumes live_mono: "live_at ru t' l \<Longrightarrow> t \<le> t' \<Longrightarrow> live_at ru t l"
begin

lemma exec_frame:
  assumes "invar st" and "op_key op \<noteq> k"
  shows "view (snd (exec own t op st)) k = view st k"
  using exec_refines [OF assms(1), of own t op] kv_spec_frame [OF assms(2), of ru own t "view st"] by auto

text \<open>What the caller believes afterwards, if it is live, is what the store then holds.\<close>

lemma believe_sound:
  assumes "invar st" and "op_key op = k" and "exec own t op st = (r, st')"
    and old: "\<And>l. h = Some l \<Longrightarrow> live_at ru t l \<Longrightarrow> view st k = Some l \<and> l_owner l = own"
    and new: "believe ru own t op r h = Some l" "live_at ru t l"
  shows "view st' k = Some l \<and> l_owner l = own"
proof -
  note ref = exec_refines [OF assms(1), of own t op]
  show ?thesis
  proof (cases op)
    case (PutIfAbsent k' v ttl)
    with ref assms(2,3) old new lapsed_not_live show ?thesis
      by (auto simp: new_lease_def split: if_splits option.splits)
  next
    case (CompareAndSwap k' a b ttl)
    with ref assms(2,3) old new show ?thesis
      by (auto simp: new_lease_def split: if_splits option.splits)
  next
    case (Get k')
    with ref assms(2,3) old new show ?thesis by auto
  next
    case (Delete k' ifv)
    with ref assms(2,3) old new show ?thesis by (auto split: if_splits option.splits)
  next
    case (Renew k' ttl)
    with ref assms(2,3) old new show ?thesis by (auto split: if_splits option.splits)
  qed
qed

lemma lease_inv_call:
  assumes "lease_inv view ru k s" and "invar (ls_store s)" and "op_key op = k" and "courteous ru k own op s"
    and "exec own (ls_now s) op (ls_store s) = (r, st')"
  shows "lease_inv view ru k
    (s\<lparr>ls_store := st', ls_held := (ls_held s)(own := believe ru own (ls_now s) op r (ls_held s own))\<rparr>)"
  unfolding lease_inv_def
proof (intro allI impI)
  fix other l
  let ?s = "s\<lparr>ls_store := st', ls_held := (ls_held s)(own := believe ru own (ls_now s) op r (ls_held s own))\<rparr>"
  assume h: "ls_held ?s other = Some l \<and> live_at ru (ls_now ?s) l"
  show "view (ls_store ?s) k = Some l \<and> l_owner l = other"
  proof (cases "other = own")
    case True
    with believe_sound [OF assms(2,3,5), of "ls_held s own" l] assms(1) h show ?thesis
      by (simp add: lease_inv_def)
  next
    case False
    with h assms(1) have v: "view (ls_store s) k = Some l" "l_owner l = other" by (auto simp: lease_inv_def)
    moreover have "\<not> lapsed_at ru (ls_now s) l" "\<not> entitled k l own op"
      using h False assms(4) lapsed_not_live by (auto simp: courteous_def)
    ultimately show ?thesis using exec_unlapsed_protected [OF assms(2), of k l "ls_now s" own op] assms(5) by simp
  qed
qed

lemma reach_inv:
  assumes "lease_reach exec ru k st0 t0 s" and "invar st0"
  shows "invar (ls_store s) \<and> lease_inv view ru k s"
  using assms
proof (induction rule: lease_reach.induct)
  case start
  then show ?case by (simp add: lease_inv_def)
next
  case (tick s t)
  then show ?case using live_mono by (fastforce simp: lease_inv_def)
next
  case (restart s own)
  then show ?case by (auto simp: lease_inv_def)
next
  case (elsewhere s op own r st')
  with exec_invar [of "ls_store s" own "ls_now s" op] exec_frame [of "ls_store s" op k own "ls_now s"] show ?case
    by (auto simp: lease_inv_def)
next
  case (call s op own r st')
  with exec_invar [of "ls_store s" own "ls_now s" op] lease_inv_call [of k s op own r st'] show ?case by simp
qed

lemma holder_entry:
  assumes "lease_reach exec ru k st0 t0 s" and "invar st0" and "holds_lease ru a s"
  shows "\<exists>l. view (ls_store s) k = Some l \<and> l_owner l = a \<and> \<not> lapsed_at ru (ls_now s) l"
  using reach_inv [OF assms(1,2)] assms(3) lapsed_not_live
  by (auto simp: lease_inv_def holds_lease_def split: option.splits)

text \<open>One holder at most, and while there is one nobody else's claim succeeds.\<close>

lemma exclusive_holder:
  assumes "lease_reach exec ru k st0 t0 s" and "invar st0" and "holds_lease ru a s"
  shows "(holds_lease ru b s \<longrightarrow> b = a)
    \<and> fst (exec own (ls_now s) (PutIfAbsent k v ttl) (ls_store s)) \<noteq> RBool True"
  using holder_entry [OF assms] holder_entry [OF assms(1,2), of b]
    exec_put_unlapsed [of "ls_store s" k] reach_inv [OF assms(1,2)]
  by fastforce

end

section \<open>The stores with atomic operations\<close>

lemma mem_live_mono: "live_at mem_rule t' l \<Longrightarrow> t \<le> t' \<Longrightarrow> live_at mem_rule t l"
  by (auto simp: expired_def split: option.splits)

lemma ddb_live_mono: "live_at ddb_rule t' l \<Longrightarrow> t \<le> t' \<Longrightarrow> live_at ddb_rule t l"
  by (auto simp: now_unix_def split: option.splits intro: le_less_trans [OF zdiv_mono1])

lemma fs_live_mono: "live_at fs_rule t' l \<Longrightarrow> t \<le> t' \<Longrightarrow> live_at fs_rule t l"
  by (auto simp: expired_def split: option.splits)

interpretation mem_lock: kv_clocked mem_exec mem_view mem_rule "\<lambda>_. True"
  by unfold_locales (rule mem_live_mono)

context dynamodb_store
begin

lemma store_clocked: "kv_clocked (ddb_exec serve d) (ddb_view rows d) ddb_rule (ddb_wf rows d)"
  by (intro kv_clocked.intro store_contract kv_clocked_axioms.intro) (rule ddb_live_mono)

end

context firestore_store
begin

lemma store_clocked: "kv_clocked (fs_exec txn rd del f) (\<lambda>s. fs_view f (docs s)) fs_rule (\<lambda>_. True)"
  by (intro kv_clocked.intro store_contract kv_clocked_axioms.intro) (rule fs_live_mono)

end

section \<open>Properties\<close>

text \<open>
  C3: mutual exclusion. Replicas that share a lease in DynamoDB and read one clock, whatever they
  claim, renew, swap or release and in whatever order, with calls that fail and replicas that
  restart, never have two holders at the same instant, as long as none swaps away or deletes a
  value another one is holding; and while one holds it nobody's claim succeeds. Holding lasts
  from an answer true until the deadline the table records for that call, which is kept in whole
  seconds: it lies less than two seconds before the end of the lease that was asked for, and never
  after it. A replica that counts on the full length of its lease may find it taken in between.
\<close>

theorem dynamo_mutual_exclusion:
  assumes "dynamodb_store serve rows holds" and "ddb_wf rows d db"
    and "lease_reach (ddb_exec serve d) ddb_rule k db t0 s" and "holds_lease ddb_rule a s"
  shows "(holds_lease ddb_rule b s \<longrightarrow> b = a)
    \<and> fst (ddb_exec serve d own (ls_now s) (PutIfAbsent k v ttl) (ls_store s)) \<noteq> RBool True
    \<and> (0 < asked \<longrightarrow> (\<exists>e. expiry_at ddb_rule t asked = Some e
         \<and> t + asked - 2 * second < e * second \<and> e * second \<le> t + asked))"
proof -
  note once = kv_clocked.exclusive_holder [OF dynamodb_store.store_clocked [OF assms(1)] assms(3,2,4)]
  show ?thesis by (intro conjI conjunct1 [OF once] conjunct2 [OF once] ddb_deadline)
qed

text \<open>
  The fraction that is lost: a lease of 1.9 seconds taken 0.9 seconds into a second would run to
  2.8, and another replica's claim succeeds at 2.0.
\<close>

definition short_claim :: ddb_tables where
  "short_claim =
     snd (ddb_exec ddb_ref_serve ddb_demo ''a'' (second * 9 div 10) (PutIfAbsent ''seed'' ''10.0.0.1'' (second * 19 div 10)) (\<lambda>_ _. None))"

lemma fraction_lost:
  "ddb_view (\<lambda>db. db) ddb_demo short_claim ''seed'' = Some \<lparr>l_val = ''10.0.0.1'', l_owner = ''a'', l_exp = Some 1\<rparr>"
  "fst (ddb_exec ddb_ref_serve ddb_demo ''b'' (2 * second) (PutIfAbsent ''seed'' ''10.0.0.2'' second) short_claim) = RBool True"
  by (simp_all add: short_claim_def ddb_exec_def ddb_put_if_absent_def ddb_item_def ddb_row_def ddb_set_def
      ddb_view_def ddb_lease_def ddb_key_def ddb_demo_def now_unix_def Let_def)

text \<open>The same over Firestore and in process.\<close>

lemma firestore_mutual_exclusion:
  assumes "firestore_store txn rd del docs"
    and "lease_reach (fs_exec txn rd del f) fs_rule k st t0 s" and "holds_lease fs_rule a s"
  shows "(holds_lease fs_rule b s \<longrightarrow> b = a)
    \<and> fst (fs_exec txn rd del f own (ls_now s) (PutIfAbsent k v ttl) (ls_store s)) \<noteq> RBool True"
  by (rule kv_clocked.exclusive_holder [OF firestore_store.store_clocked [OF assms(1)] assms(2) TrueI assms(3)])

lemma mem_mutual_exclusion:
  assumes "lease_reach mem_exec mem_rule k m t0 s" and "holds_lease mem_rule a s"
  shows "(holds_lease mem_rule b s \<longrightarrow> b = a)
    \<and> fst (mem_exec own (ls_now s) (PutIfAbsent k v ttl) (ls_store s)) \<noteq> RBool True"
  by (rule mem_lock.exclusive_holder [OF assms(1) TrueI assms(2)])

text \<open>A replica claims the demo key after its first lease lapsed and renews it.\<close>

definition demo_claim :: "ddb_tables lease_sys" where
  "demo_claim =
     \<lparr>ls_store = snd (ddb_exec ddb_ref_serve ddb_demo ''b'' (40 * second) (PutIfAbsent ''seed'' ''10.0.0.2'' (30 * second)) ddb_demo_db),
      ls_now = 40 * second, ls_held = [''b'' \<mapsto> new_lease ddb_rule ''b'' (40 * second) ''10.0.0.2'' (30 * second)]\<rparr>"

lemma demo_claim_reach:
  "lease_reach (ddb_exec ddb_ref_serve ddb_demo) ddb_rule ''seed'' ddb_demo_db (40 * second) demo_claim"
proof -
  have "fst (ddb_exec ddb_ref_serve ddb_demo ''b'' (40 * second) (PutIfAbsent ''seed'' ''10.0.0.2'' (30 * second)) ddb_demo_db) = RBool True"
    by (simp add: kv_reliable.exec_exact [OF ddbref.store_reliable [of ddb_demo], OF ddb_demo_facts(1)] ddb_demo_facts(2) now_unix_def)
  then have call: "ddb_exec ddb_ref_serve ddb_demo ''b'' (40 * second) (PutIfAbsent ''seed'' ''10.0.0.2'' (30 * second)) ddb_demo_db
      = (RBool True, ls_store demo_claim)" by (simp add: demo_claim_def prod_eq_iff)
  from lease_reach.call [OF lease_reach.start, where ex = "ddb_exec ddb_ref_serve ddb_demo" and ru = ddb_rule and k = "''seed''"
      and ?st0.0 = ddb_demo_db and ?t0.0 = "40 * second" and own = "''b''"
      and op = "PutIfAbsent ''seed'' ''10.0.0.2'' (30 * second)" and r = "RBool True" and st' = "ls_store demo_claim"] call
  show ?thesis by (simp add: courteous_def demo_claim_def fun_upd_def)
qed

lemma dynamo_mutual_exclusion_witness:
  "holds_lease ddb_rule ''b'' demo_claim \<and> \<not> holds_lease ddb_rule ''a'' demo_claim
   \<and> fst (ddb_exec ddb_ref_serve ddb_demo ''c'' (40 * second) (PutIfAbsent ''seed'' ''10.0.0.3'' 0) (ls_store demo_claim)) \<noteq> RBool True"
proof -
  have h: "holds_lease ddb_rule ''b'' demo_claim"
    by (simp add: holds_lease_def demo_claim_def new_lease_def now_unix_def)
  have "ls_now demo_claim = 40 * second" by (simp add: demo_claim_def)
  with dynamo_mutual_exclusion [OF ddbref.dynamodb_store_axioms ddb_demo_facts(1) demo_claim_reach h, of "''a''" "''c''" "''10.0.0.3''" 0] h
  show ?thesis by auto
qed

end
