(* ===== verification/Tasks.thy ===== *)
theory Tasks
  imports Async Spawn
begin

text \<open>
  The promises of a running script together: a heap of promises, in which a script's promise
  value is an index, the builtins that create promises (go(), poll(), promise() and spawn()) and
  those that wait for them (join(), select(), any_true() with \<^verbatim>\<open>markAwaited\<close> and \<^verbatim>\<open>cancelRest\<close>) of
  async.go, over that heap. The runtime is a step relation: builtins of any goroutine, tasks and
  supervisors that finish, in any order. A function of the script is an opaque value; what it
  returns is an argument of the step that ends its task.
\<close>

section \<open>Creating promises\<close>

type_synonym promise_heap = "promise list"

definition alloc :: "promise \<Rightarrow> promise_heap \<Rightarrow> sl_value \<times> promise_heap" where
  "alloc p hp = (SPromise (length hp), hp @ [p])"

fun boolKwarg_from :: "string \<Rightarrow> string \<Rightarrow> bool \<Rightarrow> (string \<times> sl_value) list \<Rightarrow> bool go_result" where
  "boolKwarg_from fn want val [] = Inr val"
| "boolKwarg_from fn want val ((k, v) # kwargs) =
     (if k \<noteq> want then Inl (Errorf ''%s: unexpected keyword argument %q'' [fn, k])
      else boolKwarg_from fn want (sl_truth v) kwargs)"

definition boolKwarg :: "string \<Rightarrow> (string \<times> sl_value) list \<Rightarrow> string \<Rightarrow> bool go_result" where
  "boolKwarg fn kwargs want = boolKwarg_from fn want False kwargs"

definition go_builtin ::
  "sl_value list \<Rightarrow> (string \<times> sl_value) list \<Rightarrow> promise_heap \<Rightarrow> (sl_value \<times> promise_heap) go_result" where
  "go_builtin args kwargs hp =
     (case args of
        [] \<Rightarrow> Inl (Errorf ''go: requires a function'' [])
      | fn # _ \<Rightarrow>
          if \<not> callable fn then Inl (Errorf ''go: first argument must be a function, got %s'' [sl_type fn])
          else case boolKwarg ''go'' kwargs ''signallable'' of
                 Inl e \<Rightarrow> Inl e
               | Inr signallable \<Rightarrow> Inr (alloc (spawn_promise signallable) hp))"

text \<open>poll(): the promise, and the timeout and interval its task polls with.\<close>

definition poll_builtin ::
  "(int \<Rightarrow> int) \<Rightarrow> sl_value \<Rightarrow> sl_value \<Rightarrow> sl_value \<Rightarrow> bool \<Rightarrow> promise_heap
    \<Rightarrow> (sl_value \<times> promise_heap \<times> duration \<times> duration) go_result" where
  "poll_builtin inexact check timeoutV intervalV signallable hp =
     (if \<not> callable check then Inl (Errorf ''poll: check must be a function, got %s'' [sl_type check])
      else case unpack_duration inexact timeoutV of
             Inl e \<Rightarrow> Inl e
           | Inr timeout \<Rightarrow>
               (if timeout \<le> 0 then Inl (Errorf ''poll: timeout must be positive'' [])
                else case unpack_poll_interval inexact intervalV of
                       Inl e \<Rightarrow> Inl e
                     | Inr interval \<Rightarrow>
                         (case alloc (spawn_promise signallable) hp of
                            (p, hp) \<Rightarrow> Inr (p, hp, timeout, interval))))"

text \<open>What the task of poll() returns: the loop's answer as a Starlark bool.\<close>

definition poll_task :: "time \<Rightarrow> duration \<Rightarrow> poll_round list \<Rightarrow> (sl_value go_result) option" where
  "poll_task deadline interval rs =
     map_option (\<lambda>r. case r of Inl e \<Rightarrow> Inl e | Inr ok \<Rightarrow> Inr (SBool ok)) (waitLoop deadline interval rs)"

definition promise_builtin :: "bool \<Rightarrow> bool \<Rightarrow> promise_heap \<Rightarrow> sl_value \<times> promise_heap" where
  "promise_builtin cancellable signallable hp =
     alloc (newPromise\<lparr>p_cancellable := cancellable, p_signallable := signallable\<rparr>) hp"

section \<open>Waiting for promises\<close>

definition on_promise :: "(promise \<Rightarrow> promise) \<Rightarrow> nat \<Rightarrow> promise_heap \<Rightarrow> promise_heap" where
  "on_promise f i hp = (if i < length hp then hp[i := f (hp ! i)] else hp)"

definition markAwaited :: "nat list \<Rightarrow> promise_heap \<Rightarrow> promise_heap" where
  "markAwaited is hp = fold (on_promise (\<lambda>p. p\<lparr>p_awaited := True\<rparr>)) is hp"

text \<open>The heap it leaves, and the promises whose cancel function it calls, in order.\<close>

definition cancel_one :: "nat \<Rightarrow> promise_heap \<times> nat list \<Rightarrow> promise_heap \<times> nat list" where
  "cancel_one i s =
     (case s of (hp, calls) \<Rightarrow>
        if i < length hp \<and> p_cancellable (hp ! i)
        then (case doCancel (hp ! i) of
                (p, fx) \<Rightarrow> (hp[i := p], calls @ (if CallCancelFn \<in> set fx then [i] else [])))
        else (hp, calls))"

definition cancelRest :: "nat list \<Rightarrow> promise_heap \<Rightarrow> promise_heap \<times> nat list" where
  "cancelRest is hp = fold cancel_one is (hp, [])"

section \<open>The runtime\<close>

text \<open>
  \<open>Finish\<close> ends the task behind a promise of go() or poll(), \<open>Exit\<close> the supervisor behind one of
  spawn(); a promise of promise() has neither. \<open>FinishLate\<close> ends a task that failed and saw no cancel before
  it rejected its promise, whether or not one has come since. \<open>Shutdown\<close> is the harness stopping what main() returned.
\<close>

definition stop_main :: "promise \<Rightarrow> promise" where
  "stop_main p = fst (if p_signallable p then doSignal SNone p else doCancel p)"

inductive rt_step :: "promise_heap \<Rightarrow> promise_heap \<Rightarrow> bool" where
  Go: "go_builtin args kwargs hp = Inr (v, hp') \<Longrightarrow> rt_step hp hp'"
| Poll: "poll_builtin inexact check timeoutV intervalV signallable hp = Inr (v, hp', timeout, interval) \<Longrightarrow> rt_step hp hp'"
| Defer: "promise_builtin cancellable signallable hp = (v, hp') \<Longrightarrow> rt_step hp hp'"
| Spawn: "spawn inexact order a st = Inr (sv, w, p, st') \<Longrightarrow> alloc p hp = (v, hp') \<Longrightarrow> rt_step hp hp'"
| Attr: "i < length hp \<Longrightarrow> promise_attr c (hp ! i) = Some (v, p, fx) \<Longrightarrow> rt_step hp (hp[i := p])"
| Join: "i < length hp \<Longrightarrow> await ctx pf (hp ! i) = (r, p) \<Longrightarrow> rt_step hp (hp[i := p])"
| Mark: "rt_step hp (markAwaited is hp)"
| CancelRest: "rt_step hp (fst (cancelRest is hp))"
| Finish: "i < length hp \<Longrightarrow> p_cancelFn (hp ! i) \<Longrightarrow> task_done r (hp ! i) = (p, report) \<Longrightarrow> rt_step hp (hp[i := p])"
| FinishLate: "i < length hp \<Longrightarrow> p_cancelFn (hp ! i) \<Longrightarrow> rt_step hp (hp[i := reject e (hp ! i)])"
| Exit: "i < length hp \<Longrightarrow> p_signalFn (hp ! i) \<Longrightarrow> rt_step hp (hp[i := sv_settle x (hp ! i)])"
| Shutdown: "i < length hp \<Longrightarrow> rt_step hp (hp[i := stop_main (hp ! i)])"

inductive rt_steps :: "promise_heap \<Rightarrow> promise_heap \<Rightarrow> bool" where
  rt_refl: "rt_steps hp hp"
| rt_trans: "rt_steps hp hp' \<Longrightarrow> rt_step hp' hp'' \<Longrightarrow> rt_steps hp hp''"

section \<open>any\_true() among other goroutines\<close>

text \<open>
  The loop of any_true() over the promises it still waits for. While it waits the other goroutines
  move (\<^const>\<open>rt_steps\<close>); its select then takes a promise that has settled, or the context's end. The
  \<open>await\<close> after it may still see the context end. The result is the answer, the heap, and the cancel
  functions called.
\<close>

inductive race :: "go_error \<Rightarrow> nat list \<Rightarrow> nat list \<Rightarrow> promise_heap \<Rightarrow> bool go_result \<Rightarrow> promise_heap \<Rightarrow> nat list \<Rightarrow> bool"
  for ctx_err ps where
  Falsy: "race ctx_err ps [] hp (Inr False) hp []"
| Ended: "rem \<noteq> [] \<Longrightarrow> rt_steps hp hp1 \<Longrightarrow> race ctx_err ps rem hp (Inl ctx_err) hp1 []"
| Raises: "j < length rem \<Longrightarrow> rt_steps hp hp1 \<Longrightarrow> p_settled (hp1 ! (rem ! j)) \<Longrightarrow> c = None \<or> c = Some ctx_err \<Longrightarrow>
    await c pf (hp1 ! (rem ! j)) = (Some (Inl e), p) \<Longrightarrow> cancelRest ps (hp1[rem ! j := p]) = (hp2, calls) \<Longrightarrow>
    race ctx_err ps rem hp (Inl e) hp2 calls"
| Wins: "j < length rem \<Longrightarrow> rt_steps hp hp1 \<Longrightarrow> p_settled (hp1 ! (rem ! j)) \<Longrightarrow> c = None \<or> c = Some ctx_err \<Longrightarrow>
    await c pf (hp1 ! (rem ! j)) = (Some (Inr v), p) \<Longrightarrow> sl_truth v \<Longrightarrow>
    cancelRest ps (hp1[rem ! j := p]) = (hp2, calls) \<Longrightarrow> race ctx_err ps rem hp (Inr True) hp2 calls"
| Again: "j < length rem \<Longrightarrow> rt_steps hp hp1 \<Longrightarrow> p_settled (hp1 ! (rem ! j)) \<Longrightarrow> c = None \<or> c = Some ctx_err \<Longrightarrow>
    await c pf (hp1 ! (rem ! j)) = (Some (Inr v), p) \<Longrightarrow> \<not> sl_truth v \<Longrightarrow>
    race ctx_err ps (take j rem @ drop (Suc j) rem) (hp1[rem ! j := p]) r hp2 calls \<Longrightarrow>
    race ctx_err ps rem hp r hp2 calls"

definition any_true_call ::
  "go_error \<Rightarrow> (string \<times> sl_value) list \<Rightarrow> sl_value list \<Rightarrow> promise_heap
    \<Rightarrow> bool go_result \<Rightarrow> promise_heap \<Rightarrow> nat list \<Rightarrow> bool" where
  "any_true_call ctx_err kwargs args hp r hp' calls \<longleftrightarrow>
     (if kwargs \<noteq> [] then r = Inl (Errorf ''any_true: unexpected keyword argument'' []) \<and> hp' = hp \<and> calls = []
      else case promiseArgs ''any_true'' args of
             Inl e \<Rightarrow> r = Inl e \<and> hp' = hp \<and> calls = []
           | Inr ps \<Rightarrow> race ctx_err ps ps (markAwaited ps hp) r hp' calls)"

section \<open>How a promise evolves\<close>

text \<open>
  A later state of the same promise: the same kind, what was set stays set, and once it has
  settled it keeps its value and error.
\<close>

definition evolves :: "promise \<Rightarrow> promise \<Rightarrow> bool" where
  "evolves p q \<longleftrightarrow>
     p_shape q = p_shape p \<and> (p_awaited p \<longrightarrow> p_awaited q) \<and> (p_canceling p \<longrightarrow> p_canceling q)
     \<and> (p_settled p \<longrightarrow> p_settled q \<and> p_value q = p_value p \<and> p_err q = p_err p)"

lemma evolves_refl [simp]: "evolves p p"
  by (simp add: evolves_def)

lemma evolves_trans: "evolves p q \<Longrightarrow> evolves q r \<Longrightarrow> evolves p r"
  by (auto simp: evolves_def)

text \<open>What a promise of the heap looks like: the three kinds, and an outcome only once settled.\<close>

definition wf_promise :: "promise \<Rightarrow> bool" where
  "wf_promise p \<longleftrightarrow>
     (p_cancelFn p \<longrightarrow> p_cancellable p \<and> \<not> p_signalFn p)
     \<and> (p_signalFn p \<longrightarrow> p_signallable p \<and> \<not> p_cancellable p)
     \<and> (\<not> p_settled p \<longrightarrow> p_value p = SNone \<and> p_err p = None)
     \<and> (p_err p \<noteq> None \<longrightarrow> p_value p = SNone)"

definition heap_le :: "promise_heap \<Rightarrow> promise_heap \<Rightarrow> bool" where
  "heap_le hp hp' \<longleftrightarrow> length hp \<le> length hp' \<and> (\<forall>i < length hp. evolves (hp ! i) (hp' ! i))"

lemma heap_le_refl [simp]: "heap_le hp hp"
  by (simp add: heap_le_def)

lemma heap_le_trans: "heap_le a b \<Longrightarrow> heap_le b c \<Longrightarrow> heap_le a c"
  unfolding heap_le_def by (meson evolves_trans less_le_trans order_trans)

lemma heap_le_update: "i < length hp \<Longrightarrow> evolves (hp ! i) p \<Longrightarrow> heap_le hp (hp[i := p])"
  by (auto simp: heap_le_def nth_list_update)

lemma heap_le_alloc: "alloc p hp = (v, hp') \<Longrightarrow> heap_le hp hp'"
  by (auto simp: alloc_def heap_le_def nth_append)

lemma wf_update: "list_all wf_promise hp \<Longrightarrow> wf_promise p \<Longrightarrow> list_all wf_promise (hp[i := p])"
  using set_update_subset_insert [of hp i p] by (auto simp: list_all_iff)

lemma wf_alloc: "alloc p hp = (v, hp') \<Longrightarrow> list_all wf_promise hp \<Longrightarrow> wf_promise p \<Longrightarrow> list_all wf_promise hp'"
  by (auto simp: alloc_def)

text \<open>A step on one promise that keeps both keeps them for the heap.\<close>

lemma good_update:
  assumes "i < length hp" and "evolves (hp ! i) p \<and> (wf_promise (hp ! i) \<longrightarrow> wf_promise p)"
  shows "heap_le hp (hp[i := p]) \<and> (list_all wf_promise hp \<longrightarrow> list_all wf_promise (hp[i := p]))"
  using assms heap_le_update [of i hp p] wf_update [of hp p i] by (auto simp: list_all_length)


definition good_change :: "(promise \<Rightarrow> promise) \<Rightarrow> bool" where
  "good_change f \<longleftrightarrow> (\<forall>p. evolves p (f p) \<and> (wf_promise p \<longrightarrow> wf_promise (f p)))"

lemma good_on_promise:
  assumes "good_change f"
  shows "heap_le hp (on_promise f i hp) \<and> (list_all wf_promise hp \<longrightarrow> list_all wf_promise (on_promise f i hp))"
  using assms good_update [of i hp "f (hp ! i)"] by (simp add: good_change_def on_promise_def)

lemma good_fold:
  assumes "good_change f"
  shows "heap_le hp (fold (on_promise f) is hp) \<and> (list_all wf_promise hp \<longrightarrow> list_all wf_promise (fold (on_promise f) is hp))"
proof (induction "is" arbitrary: hp)
  case (Cons i "is")
  with good_on_promise [OF assms, of hp i] show ?case by (auto intro: heap_le_trans)
qed simp

lemma good_mark: "good_change (\<lambda>p. p\<lparr>p_awaited := True\<rparr>)"
  by (auto simp: good_change_def evolves_def wf_promise_def p_shape_def)

lemma good_cancel: "good_change (\<lambda>p. if p_cancellable p then fst (doCancel p) else p)"
  by (auto simp: good_change_def evolves_def wf_promise_def p_shape_def doCancel_def settle_def Let_def)

lemma good_attr:
  assumes "promise_attr c p = Some (v, q, fx)"
  shows "evolves p q \<and> (wf_promise p \<longrightarrow> wf_promise q)"
  using assms
  by (cases c) (auto simp: promise_defs evolves_def wf_promise_def p_shape_def Let_def split: if_splits)

lemma good_await: "await ctx pf p = (r, q) \<Longrightarrow> evolves p q \<and> (wf_promise p \<longrightarrow> wf_promise q)"
  by (auto simp: await_def evolves_def wf_promise_def p_shape_def Let_def split: option.splits)

lemma good_task: "task_done r p = (q, report) \<Longrightarrow> evolves p q \<and> (wf_promise p \<longrightarrow> wf_promise q)"
  by (auto simp: task_done_def resolve_def reject_def settle_def evolves_def wf_promise_def p_shape_def
      split: sum.splits if_splits)

lemma good_reject: "evolves p (reject e p) \<and> (wf_promise p \<longrightarrow> wf_promise (reject e p))"
  by (auto simp: reject_def settle_def evolves_def wf_promise_def p_shape_def)

lemma good_sv_settle: "evolves p (sv_settle x p) \<and> (wf_promise p \<longrightarrow> wf_promise (sv_settle x p))"
  by (auto simp: sv_settle_def resolve_def reject_def settle_def evolves_def wf_promise_def p_shape_def split: sum.splits)

lemma good_stop: "evolves p (stop_main p) \<and> (wf_promise p \<longrightarrow> wf_promise (stop_main p))"
  by (auto simp: stop_main_def promise_defs evolves_def wf_promise_def p_shape_def Let_def)

lemma wf_new:
  "wf_promise (spawn_promise s)" "wf_promise workload_promise"
  "wf_promise (newPromise\<lparr>p_cancellable := c, p_signallable := s\<rparr>)"
  by (simp_all add: wf_promise_def spawn_promise_def workload_promise_def newPromise_def)

lemma spawn_promise_kind: "spawn inexact order a st = Inr (sv, w, p, st') \<Longrightarrow> p = workload_promise"
  by (auto simp: spawn_def Let_def split: sum.splits prod.splits)

text \<open>What \<open>cancelRest\<close> does to the heap, and whom it calls.\<close>

lemma cancel_fold:
  "fst (fold cancel_one is (hp, cs)) = fold (on_promise (\<lambda>p. if p_cancellable p then fst (doCancel p) else p)) is hp
   \<and> snd (fold cancel_one is (hp, cs)) = cs @ filter (\<lambda>i. i < length hp \<and> p_cancellable (hp ! i) \<and> p_cancelFn (hp ! i)) is"
proof (induction "is" arbitrary: hp cs)
  case (Cons i "is")
  show ?case
  proof (cases "i < length hp \<and> p_cancellable (hp ! i)")
    case True
    obtain p fx where d: "doCancel (hp ! i) = (p, fx)" by fastforce
    then have sh: "p_cancellable p = p_cancellable (hp ! i)" "p_cancelFn p = p_cancelFn (hp ! i)"
      and fx: "CallCancelFn \<in> set fx \<longleftrightarrow> p_cancelFn (hp ! i)"
      by (auto simp: doCancel_def settle_def Let_def split: if_splits)
    have "j < length (hp[i := p]) \<and> p_cancellable (hp[i := p] ! j) \<and> p_cancelFn (hp[i := p] ! j)
        \<longleftrightarrow> j < length hp \<and> p_cancellable (hp ! j) \<and> p_cancelFn (hp ! j)" for j
      using sh True by (auto simp: nth_list_update)
    with True d fx Cons.IH [of "hp[i := p]"] show ?thesis by (simp add: cancel_one_def on_promise_def)
  next
    case False
    with Cons.IH [of hp] show ?thesis
      by (cases "i < length hp") (auto simp: cancel_one_def on_promise_def)
  qed
qed simp

lemma cancelRest_heap:
  "fst (cancelRest is hp) = fold (on_promise (\<lambda>p. if p_cancellable p then fst (doCancel p) else p)) is hp"
  using cancel_fold [of "is" hp "[]"] by (simp add: cancelRest_def)

lemma cancelRest_calls:
  "snd (cancelRest is hp) = filter (\<lambda>i. i < length hp \<and> p_cancellable (hp ! i) \<and> p_cancelFn (hp ! i)) is"
  using cancel_fold [of "is" hp "[]"] by (simp add: cancelRest_def)

lemma rt_step_good:
  assumes "rt_step hp hp'"
  shows "heap_le hp hp' \<and> (list_all wf_promise hp \<longrightarrow> list_all wf_promise hp')"
  using assms
proof (cases rule: rt_step.cases)
  case (Go args kwargs v)
  then have "\<exists>s. alloc (spawn_promise s) hp = (v, hp')"
    by (auto simp: go_builtin_def split: list.splits if_splits sum.splits)
  then show ?thesis using heap_le_alloc wf_alloc wf_new(1) by blast
next
  case (Poll inexact check timeoutV intervalV signallable v timeout interval)
  then have "alloc (spawn_promise signallable) hp = (v, hp')"
    by (auto simp: poll_builtin_def split: if_splits sum.splits prod.splits)
  then show ?thesis using heap_le_alloc wf_alloc wf_new(1) by blast
next
  case (Defer cancellable signallable v)
  then show ?thesis unfolding promise_builtin_def using heap_le_alloc wf_alloc wf_new(3) by blast
next
  case (Spawn inexact order a st sv w p st' v)
  with spawn_promise_kind [OF Spawn(1)] show ?thesis using heap_le_alloc wf_alloc wf_new(2) by blast
next
  case (Attr i c v p fx)
  show ?thesis unfolding Attr(1) by (rule good_update [OF Attr(2) good_attr [OF Attr(3)]])
next
  case (Join i ctx pf r p)
  show ?thesis unfolding Join(1) by (rule good_update [OF Join(2) good_await [OF Join(3)]])
next
  case (Mark "is")
  then show ?thesis using good_fold [OF good_mark] by (simp add: markAwaited_def)
next
  case (CancelRest "is")
  then show ?thesis using good_fold [OF good_cancel] by (simp add: cancelRest_heap)
next
  case (Finish i r p report)
  show ?thesis unfolding Finish(1) by (rule good_update [OF Finish(2) good_task [OF Finish(4)]])
next
  case (FinishLate i e)
  show ?thesis unfolding FinishLate(1) by (rule good_update [OF FinishLate(2) good_reject])
next
  case (Exit i x)
  show ?thesis unfolding Exit(1) by (rule good_update [OF Exit(2) good_sv_settle])
next
  case (Shutdown i)
  show ?thesis unfolding Shutdown(1) by (rule good_update [OF Shutdown(2) good_stop])
qed

lemma rt_steps_good:
  assumes "rt_steps hp hp'"
  shows "heap_le hp hp' \<and> (list_all wf_promise hp \<longrightarrow> list_all wf_promise hp')"
  using assms
proof (induction rule: rt_steps.induct)
  case (rt_trans hp hp' hp'')
  with rt_step_good [OF rt_trans(2)] show ?case by (auto intro: heap_le_trans)
qed simp

text \<open>What waiting for a promise answers, if it has settled.\<close>

definition outcome_at :: "promise_heap \<Rightarrow> nat \<Rightarrow> (sl_value go_result) option" where
  "outcome_at hp i = (if i < length hp then fst (await None False (hp ! i)) else None)"

lemma outcome_stable: "heap_le hp hp' \<Longrightarrow> outcome_at hp i = Some r \<Longrightarrow> outcome_at hp' i = Some r"
  by (auto simp: outcome_at_def heap_le_def evolves_def await_def Let_def split: if_splits option.splits)

lemma nth_on_promise: "j < length hp \<Longrightarrow> on_promise f i hp ! j = (if i = j then f (hp ! j) else hp ! j)"
  by (simp add: on_promise_def)

lemma length_on_promise [simp]: "length (on_promise f i hp) = length hp"
  by (simp add: on_promise_def)

text \<open>A mark that no later change takes back is on every promise named, whatever the fold does to the others.\<close>

lemma fold_on_promise_all:
  assumes "\<And>p. Q (f p)" and "\<And>p. Q p \<Longrightarrow> Q (f p)" and "i \<in> set is" and "i < length hp"
  shows "Q (fold (on_promise f) is hp ! i)"
  using assms(3,4)
proof (induction "is" arbitrary: hp rule: rev_induct)
  case (snoc j "is")
  have len: "length (fold (on_promise f) is hp) = length hp" by (induction "is" arbitrary: hp) auto
  show ?case
  proof (cases "i = j")
    case True
    with snoc.prems len assms(1) show ?thesis by (simp add: nth_on_promise)
  next
    case False
    with snoc len show ?thesis by (simp add: nth_on_promise)
  qed
qed simp

lemma markAwaited_all: "i \<in> set is \<Longrightarrow> i < length hp \<Longrightarrow> p_awaited (markAwaited is hp ! i)"
  unfolding markAwaited_def by (rule fold_on_promise_all [where Q = p_awaited]) auto

lemma cancelRest_all:
  "i \<in> set is \<Longrightarrow> i < length hp \<Longrightarrow>
   p_cancellable (fst (cancelRest is hp) ! i) \<longrightarrow> p_canceling (fst (cancelRest is hp) ! i)"
  unfolding cancelRest_heap
  by (rule fold_on_promise_all [where Q = "\<lambda>p. p_cancellable p \<longrightarrow> p_canceling p"])
    (auto simp: doCancel_def settle_def Let_def)

lemma cancelRest_le: "heap_le hp (fst (cancelRest is hp))"
  using good_fold [OF good_cancel] by (simp add: cancelRest_heap)

section \<open>What a race does\<close>

lemma waits_le:
  assumes "rt_steps hp hp1" and "await c pf (hp1 ! i) = (r, p)"
  shows "heap_le hp (hp1[i := p])"
proof (cases "i < length hp1")
  case True
  from rt_steps_good [OF assms(1)] heap_le_update [OF True] good_await [OF assms(2)] show ?thesis
    by (blast intro: heap_le_trans)
qed (use rt_steps_good [OF assms(1)] in \<open>simp add: list_update_beyond\<close>)

lemma race_le: "race ctx_err ps rem hp r hp2 calls \<Longrightarrow> heap_le hp hp2"
proof (induction rule: race.induct)
  case (Ended rem hp hp1)
  then show ?case using rt_steps_good by blast
next
  case (Raises j rem hp hp1 c pf e p hp2 calls)
  from waits_le [OF Raises(2,5)] cancelRest_le [of "hp1[rem ! j := p]" ps] Raises(6) show ?case
    by (auto intro: heap_le_trans)
next
  case (Wins j rem hp hp1 c pf v p hp2 calls)
  from waits_le [OF Wins(2,5)] cancelRest_le [of "hp1[rem ! j := p]" ps] Wins(7) show ?case
    by (auto intro: heap_le_trans)
next
  case (Again j rem hp hp1 c pf v p r hp2 calls)
  from waits_le [OF Again(2,5)] Again.IH show ?case by (rule heap_le_trans)
qed simp

text \<open>A race that is won, or lost to a rejection, has cancelled every argument that can be.\<close>

definition all_cancelled :: "nat list \<Rightarrow> promise_heap \<Rightarrow> promise_heap \<Rightarrow> nat list \<Rightarrow> bool" where
  "all_cancelled ps hp hp' calls \<longleftrightarrow>
     (\<forall>i \<in> set ps. (p_cancellable (hp ! i) \<longrightarrow> p_canceling (hp' ! i))
        \<and> (i \<in> set calls \<longleftrightarrow> p_cancellable (hp ! i) \<and> p_cancelFn (hp ! i)))"

lemma all_cancelled_le:
  assumes "all_cancelled ps hp' hp2 calls" and "heap_le hp hp'" and "\<forall>i \<in> set ps. i < length hp"
  shows "all_cancelled ps hp hp2 calls"
  using assms by (simp add: all_cancelled_def heap_le_def evolves_def p_shape_def)

lemma cancelRest_cancels:
  assumes "cancelRest ps hp = (hp2, calls)" and "\<forall>i \<in> set ps. i < length hp"
  shows "all_cancelled ps hp hp2 calls"
proof -
  have "p_cancellable (hp2 ! i) = p_cancellable (hp ! i)" if "i < length hp" for i
    using cancelRest_le [of hp ps] that assms(1) by (simp add: heap_le_def evolves_def p_shape_def)
  with cancelRest_all [of _ ps hp] cancelRest_calls [of ps hp] assms show ?thesis by (simp add: all_cancelled_def)
qed

lemma race_cancels:
  assumes "race ctx_err ps rem hp r hp2 calls" and "\<forall>i \<in> set ps. i < length hp" and "r \<noteq> Inr False" and "r \<noteq> Inl ctx_err"
  shows "all_cancelled ps hp hp2 calls"
  using assms
proof (induction rule: race.induct)
  case (Raises j rem hp hp1 c pf e p hp2 calls)
  have le: "heap_le hp (hp1[rem ! j := p])" by (rule waits_le [OF Raises(2,5)])
  with Raises.prems(1) have "\<forall>i \<in> set ps. i < length (hp1[rem ! j := p])" by (auto simp: heap_le_def)
  from all_cancelled_le [OF cancelRest_cancels [OF Raises(6) this] le Raises.prems(1)] show ?case .
next
  case (Wins j rem hp hp1 c pf v p hp2 calls)
  have le: "heap_le hp (hp1[rem ! j := p])" by (rule waits_le [OF Wins(2,5)])
  with Wins.prems(1) have "\<forall>i \<in> set ps. i < length (hp1[rem ! j := p])" by (auto simp: heap_le_def)
  from all_cancelled_le [OF cancelRest_cancels [OF Wins(7) this] le Wins.prems(1)] show ?case .
next
  case (Again j rem hp hp1 c pf v p r hp2 calls)
  have le: "heap_le hp (hp1[rem ! j := p])" by (rule waits_le [OF Again(2,5)])
  with Again.prems(1) have "\<forall>i \<in> set ps. i < length (hp1[rem ! j := p])" by (auto simp: heap_le_def)
  from all_cancelled_le [OF Again.IH [OF this Again.prems(2,3)] le Again.prems(1)] show ?case .
qed simp_all

text \<open>A race that answers false has seen every promise settle falsy, and called nobody.\<close>

lemma race_falsy:
  assumes "race ctx_err ps rem hp r hp2 calls" and "\<forall>i \<in> set rem. i < length hp" and "r = Inr False"
  shows "calls = [] \<and> (\<forall>i \<in> set rem. \<exists>v. outcome_at hp2 i = Some (Inr v) \<and> \<not> sl_truth v)"
  using assms
proof (induction rule: race.induct)
  case (Again j rem hp hp1 c pf v p r hp2 calls)
  let ?hp = "hp1[rem ! j := p]" and ?rest = "take j rem @ drop (Suc j) rem"
  have rem: "set rem = insert (rem ! j) (set ?rest)" by (rule set_remove_at [OF Again(1)])
  have le: "heap_le hp ?hp" by (rule waits_le [OF Again(2,5)])
  have "\<forall>i \<in> set rem. i < length ?hp" using le Again.prems(1) by (auto simp: heap_le_def)
  with rem have len: "\<forall>i \<in> set ?rest. i < length ?hp" "rem ! j < length ?hp" by auto
  have "outcome_at ?hp (rem ! j) = Some (Inr v)"
    using Again(3,5) len(2) by (auto simp: outcome_at_def await_def Let_def split: option.splits if_splits)
  then have "outcome_at hp2 (rem ! j) = Some (Inr v)" by (rule outcome_stable [OF race_le [OF Again(7)]])
  with Again.IH [OF len(1) Again.prems(2)] Again(6) rem show ?case by auto
qed simp_all

lemma race_calls: "race ctx_err ps rem hp r hp2 calls \<Longrightarrow> set calls \<subseteq> set ps"
  by (induction rule: race.induct) (auto dest!: arg_cong [where f = snd] simp: cancelRest_calls)

section \<open>Properties\<close>

text \<open>
  C19: the runtime keeps its promises. Starting from none, whatever the script's goroutines,
  tasks, supervisors and the shutdown do in whatever order, every promise is of one of three
  kinds (a task that can be cancelled, a workload that can be signalled, a bare deferred) and
  carries a value or an error, not both, only once it has settled; and everyone who waits for a
  promise, then or later, gets the same answer.
\<close>

theorem runtime_sound:
  assumes "rt_steps [] hp" and "rt_steps hp hp'"
  shows "list_all wf_promise hp \<and> length hp \<le> length hp'
    \<and> (\<forall>i r. outcome_at hp i = Some r \<longrightarrow> outcome_at hp' i = Some r)"
  using rt_steps_good [OF assms(1)] rt_steps_good [OF assms(2)] outcome_stable by (auto simp: heap_le_def)

definition demo_heap :: promise_heap where
  "demo_heap = [settle (SInt 1) None (spawn_promise True)]"

lemma demo_heap_steps: "rt_steps [] demo_heap" "rt_steps demo_heap (fst (cancelRest [0] (markAwaited [0] demo_heap)))"
proof -
  have "go_builtin [SFunction 0] [(''signallable'', SBool True)] [] = Inr (SPromise 0, [spawn_promise True])"
    by (simp add: go_builtin_def boolKwarg_def alloc_def)
  then have "rt_steps [] [spawn_promise True]" by (blast intro: rt_steps.intros rt_step.Go)
  moreover have "rt_step [spawn_promise True] ([spawn_promise True][0 := settle (SInt 1) None (spawn_promise True)])"
    by (rule rt_step.Finish [of 0 _ "Inr (SInt 1)" _ False]) (simp_all add: spawn_promise_def newPromise_def task_done_def resolve_def)
  ultimately show "rt_steps [] demo_heap" unfolding demo_heap_def by (auto intro: rt_trans)
  show "rt_steps demo_heap (fst (cancelRest [0] (markAwaited [0] demo_heap)))"
    by (blast intro: rt_steps.intros rt_step.intros)
qed

lemma runtime_sound_witness: "outcome_at (fst (cancelRest [0] (markAwaited [0] demo_heap))) 0 = Some (Inr (SInt 1))"
proof -
  have "outcome_at demo_heap 0 = Some (Inr (SInt 1))"
    by (simp add: outcome_at_def demo_heap_def await_def settle_def spawn_promise_def newPromise_def Let_def)
  with runtime_sound [OF demo_heap_steps] show ?thesis by blast
qed

text \<open>
  C21: a race leaves nothing behind. When any_true() returns, whatever the other goroutines did
  while it waited and do afterwards, no argument's failure is ever reported as one nobody listened
  to. If it answered true, or raised an error of an argument (and not the context's own), every
  argument that can be cancelled has been marked as cancelled, and the cancel functions called are
  those of the arguments that have one.
  If it answered false, every argument had settled with a falsy value and nothing was cancelled. (When
  the context ends during the wait, the error is the context's, and the arguments may be left alone.)
\<close>

theorem race_leaves_nothing:
  assumes "any_true_call ctx_err [] args hp r hp1 calls" and "promiseArgs ''any_true'' args = Inr ps"
    and "\<forall>i \<in> set ps. i < length hp" and "rt_steps hp1 hp'" and "i \<in> set ps"
  shows "\<not> reportIfUnobserved ctx_done (hp' ! i) \<and> set calls \<subseteq> set ps
    \<and> (r \<noteq> Inr False \<and> r \<noteq> Inl ctx_err \<longrightarrow>
         (p_cancellable (hp ! i) \<longrightarrow> p_canceling (hp' ! i))
         \<and> (i \<in> set calls \<longleftrightarrow> p_cancellable (hp ! i) \<and> p_cancelFn (hp ! i)))
    \<and> (r = Inr False \<longrightarrow> calls = [] \<and> (\<exists>v. outcome_at hp' i = Some (Inr v) \<and> \<not> sl_truth v))"
proof -
  let ?m = "markAwaited ps hp"
  have race: "race ctx_err ps ps ?m r hp1 calls" using assms(1,2) by (simp add: any_true_call_def)
  have le0: "heap_le hp ?m" using good_fold [OF good_mark] by (simp add: markAwaited_def)
  then have len: "\<forall>i \<in> set ps. i < length ?m" using assms(3) by (auto simp: heap_le_def)
  note le1 = race_le [OF race]
  have le2: "heap_le hp1 hp'" using rt_steps_good [OF assms(4)] by blast
  have ev: "evolves (?m ! i) (hp1 ! i)" "evolves (hp1 ! i) (hp' ! i)"
    using le1 le2 len assms(5) by (auto simp: heap_le_def)
  have "p_awaited (?m ! i)" using assms(3,5) markAwaited_all by blast
  with ev have aw: "\<not> reportIfUnobserved ctx_done (hp' ! i)" by (simp add: evolves_def reportIfUnobserved_def)
  have "all_cancelled ps hp hp1 calls" if "r \<noteq> Inr False" "r \<noteq> Inl ctx_err"
    by (rule all_cancelled_le [OF race_cancels [OF race len that] le0 assms(3)])
  with ev(2) assms(5) have "r \<noteq> Inr False \<and> r \<noteq> Inl ctx_err \<longrightarrow>
      (p_cancellable (hp ! i) \<longrightarrow> p_canceling (hp' ! i)) \<and> (i \<in> set calls \<longleftrightarrow> p_cancellable (hp ! i) \<and> p_cancelFn (hp ! i))"
    by (auto simp: all_cancelled_def evolves_def)
  moreover have "r = Inr False \<longrightarrow> calls = [] \<and> (\<exists>v. outcome_at hp' i = Some (Inr v) \<and> \<not> sl_truth v)"
    using race_falsy [OF race len] outcome_stable [OF le2] assms(5) by blast
  ultimately show ?thesis using aw race_calls [OF race] by blast
qed

text \<open>A race between a task that has answered and one that is still at work: the second is cancelled.\<close>

lemma race_leaves_nothing_witness:
  "p_canceling (fst (cancelRest [0, 1] (markAwaited [0, 1] [resolve (SBool True) (spawn_promise False), spawn_promise False])) ! 1)
   \<and> (1::nat) \<in> set (snd (cancelRest [0, 1] (markAwaited [0, 1] [resolve (SBool True) (spawn_promise False), spawn_promise False])))"
proof -
  let ?hp = "[resolve (SBool True) (spawn_promise False), spawn_promise False]"
  let ?m = "markAwaited [0, 1] ?hp"
  have args: "promiseArgs ''any_true'' [SPromise 0, SPromise 1] = Inr [0, 1]" by (simp add: promiseArgs_def)
  have won: "await None False (?m ! 0) = (Some (Inr (SBool True)), ?m ! 0)" and same: "?m[0 := ?m ! 0] = ?m"
    by (simp_all add: markAwaited_def on_promise_def await_def resolve_def settle_def spawn_promise_def newPromise_def Let_def)
  then have st: "p_settled (?m ! ([0, 1] ! 0))" by (simp add: markAwaited_def on_promise_def resolve_def settle_def spawn_promise_def newPromise_def)
  have "race CtxCanceled [0, 1] [0, 1] ?m (Inr True) (fst (cancelRest [0, 1] ?m)) (snd (cancelRest [0, 1] ?m))"
    by (rule race.Wins [OF _ rt_refl st, where c = None and pf = False and v = "SBool True" and p = "?m ! 0"]) (use won same in simp_all)
  then have "any_true_call CtxCanceled [] [SPromise 0, SPromise 1] ?hp (Inr True) (fst (cancelRest [0, 1] ?m)) (snd (cancelRest [0, 1] ?m))"
    using args by (simp add: any_true_call_def)
  from race_leaves_nothing [OF this args _ rt_refl, of 1] show ?thesis
    by (simp add: spawn_promise_def newPromise_def)
qed

end
