(* ===== verification/Engine.thy ===== *)
theory Engine
  imports Tasks
begin

text \<open>
  The goroutines behind a script's tasks, turn by turn (starlark_engine.go): the tree of contexts,
  the thread a callable runs on and the watchdog that interrupts it (\<^verbatim>\<open>invokeValue\<close>), the goroutine
  of \<^verbatim>\<open>spawnTask\<close> that settles the promise, and the timer of \<^verbatim>\<open>reportIfUnobserved\<close>. The Starlark
  interpreter is a parameter: one step of a call, given whether its thread was cancelled and
  whether the context a blocking builtin watches is done. A turn is one atomic action of one
  goroutine; a schedule says who moves when.
\<close>

section \<open>Contexts\<close>

datatype go_ctx = Background | Ctx nat

text \<open>The contexts made so far: the parent of each, and whether its cancel function was called.\<close>

type_synonym ctxs = "(go_ctx \<times> bool) list"

fun ctx_done_at :: "ctxs \<Rightarrow> nat \<Rightarrow> bool" where
  "ctx_done_at cs n =
     (if n < length cs
      then if snd (cs ! n) then True
           else case fst (cs ! n) of
                  Background \<Rightarrow> False
                | Ctx m \<Rightarrow> if m < n then ctx_done_at cs m else False
      else False)"

declare ctx_done_at.simps [simp del]

definition ctx_done :: "ctxs \<Rightarrow> go_ctx \<Rightarrow> bool" where
  "ctx_done cs c = (case c of Background \<Rightarrow> False | Ctx n \<Rightarrow> ctx_done_at cs n)"

definition with_cancel :: "go_ctx \<Rightarrow> ctxs \<Rightarrow> go_ctx \<times> ctxs" where
  "with_cancel parent cs = (Ctx (length cs), cs @ [(parent, False)])"

definition cancel_ctx :: "go_ctx \<Rightarrow> ctxs \<Rightarrow> ctxs" where
  "cancel_ctx c cs =
     (case c of Background \<Rightarrow> cs | Ctx n \<Rightarrow> if n < length cs then cs[n := (fst (cs ! n), True)] else cs)"

section \<open>Threads and the call\<close>

text \<open>A thread local is a context, or a value of another type.\<close>

datatype th_local = LCtx go_ctx | LOther

record sl_thread =
  th_name :: string
  th_locals :: "(string \<times> th_local) list"
  th_cancelled :: "string option"

definition ctxOf :: "sl_thread \<Rightarrow> go_ctx" where
  "ctxOf t = (case map_of (th_locals t) ''ctx'' of Some (LCtx c) \<Rightarrow> c | _ \<Rightarrow> Background)"

definition cancel_thread :: "string \<Rightarrow> sl_thread \<Rightarrow> sl_thread" where
  "cancel_thread why t = t\<lparr>th_cancelled := (case th_cancelled t of None \<Rightarrow> Some why | r \<Rightarrow> r)\<rparr>"

text \<open>The thread \<^verbatim>\<open>invokeValue\<close> makes: the callable's own name if it has one.\<close>

definition invoke_thread :: "string option \<Rightarrow> go_ctx \<Rightarrow> sl_thread" where
  "invoke_thread fname ctx =
     \<lparr>th_name = (case fname of None \<Rightarrow> ''task'' | Some n \<Rightarrow> n), th_locals = [(''ctx'', LCtx ctx)], th_cancelled = None\<rparr>"

text \<open>
  The interpreter: one step of a call of state \<open>'s\<close>, told why its thread was cancelled, if it was,
  and whether the thread's context is done. It prints, and goes on or returns.
\<close>

type_synonym 's interpreter = "string option \<Rightarrow> bool \<Rightarrow> 's \<Rightarrow> string list \<times> ('s + sl_value go_result)"

datatype log_record = LogPrint string string | LogLost nat go_error time

definition printFunc :: "string \<Rightarrow> log_record" where
  "printFunc msg = LogPrint ''starlark'' msg"

section \<open>A task\<close>

text \<open>
  Where the task's goroutine is: in \<^verbatim>\<open>run\<close>, back from it, past the test of \<^verbatim>\<open>isCanceling\<close> with an
  error to reject with, or at its end.
\<close>

datatype 's phase = Calling 's | Returned "sl_value go_result" | Rejecting go_error | Ended

record 's task =
  tk_promise :: promise
  tk_parent :: go_ctx
  tk_ctx :: go_ctx
  tk_thread :: sl_thread
  tk_watching :: bool
  tk_phase :: "'s phase"
  tk_report :: "(time \<times> go_error) option"

record 's engine_state =
  en_ctxs :: ctxs
  en_tasks :: "'s task list"
  en_now :: time
  en_grace :: duration
  en_log :: "log_record list"

definition defaultUnobservedGrace :: duration where
  "defaultUnobservedGrace = 5 * second"

definition unobserved_grace :: "duration \<Rightarrow> duration" where
  "unobserved_grace grace = (if grace \<le> 0 then defaultUnobservedGrace else grace)"

text \<open>\<^verbatim>\<open>spawnTask\<close>: a task context below the caller's, the promise with its cancel function, and the goroutine.\<close>

definition spawnTask :: "go_ctx \<Rightarrow> string option \<Rightarrow> 's \<Rightarrow> bool \<Rightarrow> 's engine_state \<Rightarrow> 's engine_state" where
  "spawnTask ctx fname s0 signallable st =
     (case with_cancel ctx (en_ctxs st) of
        (taskCtx, cs) \<Rightarrow>
          st\<lparr>en_ctxs := cs,
             en_tasks := en_tasks st @
               [\<lparr>tk_promise = spawn_promise signallable, tk_parent = ctx, tk_ctx = taskCtx,
                 tk_thread = invoke_thread fname taskCtx, tk_watching = True, tk_phase = Calling s0,
                 tk_report = None\<rparr>]\<rparr>)"

text \<open>The watchdog's select: \<open>prefer_ctx\<close> decides when both channels are ready.\<close>

definition in_call :: "'s task \<Rightarrow> bool" where
  "in_call t = (case tk_phase t of Calling _ \<Rightarrow> True | _ \<Rightarrow> False)"

definition watchdog :: "ctxs \<Rightarrow> bool \<Rightarrow> 's task \<Rightarrow> 's task" where
  "watchdog cs prefer_ctx t =
     (if \<not> tk_watching t then t
      else if ctx_done cs (tk_ctx t) \<and> (in_call t \<or> prefer_ctx)
      then t\<lparr>tk_thread := cancel_thread ''context canceled'' (tk_thread t), tk_watching := False\<rparr>
      else if \<not> in_call t then t\<lparr>tk_watching := False\<rparr>
      else t)"

text \<open>
  One turn of the task's goroutine: the task, what it printed, and whether it ends and so cancels its context.
  Settling the promise, starting the timer and the deferred cancel are one turn, and so are a promise's
  method and the cancel function it calls: in between, nothing but the contexts below is still to change.
\<close>

definition task_turn :: "'s interpreter \<Rightarrow> ctxs \<Rightarrow> time \<Rightarrow> duration \<Rightarrow> 's task \<Rightarrow> 's task \<times> string list \<times> bool" where
  "task_turn istep cs now grace t =
     (case tk_phase t of
        Calling s \<Rightarrow>
          (case istep (th_cancelled (tk_thread t)) (ctx_done cs (ctxOf (tk_thread t))) s of
             (out, Inl s') \<Rightarrow> (t\<lparr>tk_phase := Calling s'\<rparr>, out, False)
           | (out, Inr r) \<Rightarrow> (t\<lparr>tk_phase := Returned r\<rparr>, out, False))
      | Returned (Inr v) \<Rightarrow> (t\<lparr>tk_promise := resolve v (tk_promise t), tk_phase := Ended\<rparr>, [], True)
      | Returned (Inl e) \<Rightarrow>
          (if p_canceling (tk_promise t)
           then (t\<lparr>tk_promise := settle SNone None (tk_promise t), tk_phase := Ended\<rparr>, [], True)
           else (t\<lparr>tk_phase := Rejecting e\<rparr>, [], False))
      | Rejecting e \<Rightarrow>
          (t\<lparr>tk_promise := reject e (tk_promise t), tk_phase := Ended,
             tk_report := Some (now + unobserved_grace grace, e)\<rparr>, [], True)
      | Ended \<Rightarrow> (t, [], False))"

text \<open>The timer of \<^verbatim>\<open>reportIfUnobserved\<close> fires: whether it reports is the model's \<^const>\<open>reportIfUnobserved\<close>.\<close>

definition report_turn :: "nat \<Rightarrow> ctxs \<Rightarrow> time \<Rightarrow> 's task \<Rightarrow> 's task \<times> log_record list" where
  "report_turn i cs now t =
     (case tk_report t of
        None \<Rightarrow> (t, [])
      | Some (due, e) \<Rightarrow>
          (if now < due then (t, [])
           else (t\<lparr>tk_report := None\<rparr>,
                 if reportIfUnobserved (ctx_done cs (tk_parent t)) (tk_promise t) then [LogLost i e now] else [])))"

section \<open>A promise as a Starlark value\<close>

text \<open>
  The promise at index \<open>i\<close> of the heap was the \<open>i + 1\<close>st to be made, and its number is the process-wide
  counter's. Comparison is that of the pointers, which are the indices.
\<close>

definition promise_id :: "nat \<Rightarrow> 64 word" where
  "promise_id i = of_nat (Suc i)"

definition promise_String :: "string \<Rightarrow> nat \<Rightarrow> string" where
  "promise_String name i = ''<promise '' @ name @ ''#'' @ format_nat (unat (promise_id i)) @ ''>''"

definition promise_Hash :: "nat \<Rightarrow> 32 word" where
  "promise_Hash i = ucast (promise_id i)"

datatype cmp_op = EQL | NEQ | OtherOp

definition CompareSameType :: "cmp_op \<Rightarrow> nat \<Rightarrow> nat \<Rightarrow> bool go_result" where
  "CompareSameType op i j =
     (case op of
        EQL \<Rightarrow> Inr (i = j)
      | NEQ \<Rightarrow> Inr (i \<noteq> j)
      | OtherOp \<Rightarrow> Inl (Errorf ''promise supports only == and != comparisons'' []))"

text \<open>What equality and hashing owe to a Starlark dict: equal keys hash alike, and the numbers tell promises apart.\<close>

lemma promise_hash_law: "CompareSameType EQL i j = Inr True \<Longrightarrow> promise_Hash i = promise_Hash j"
  by (simp add: CompareSameType_def)

lemma promise_id_distinct:
  assumes "Suc i < 2 ^ 64" and "Suc j < 2 ^ 64"
  shows "promise_id i = promise_id j \<longleftrightarrow> CompareSameType EQL i j = Inr True"
proof -
  have num: "unat (of_nat k :: 64 word) = k" if "k < 2 ^ 64" for k
    by (rule of_nat_inverse [OF refl]) (use that in simp)
  have "i = j" if "promise_id i = promise_id j"
  proof -
    have "Suc i = Suc j"
      by (rule trans [OF num [OF assms(1), symmetric] trans [OF arg_cong [where f = unat, OF that [unfolded promise_id_def]] num [OF assms(2)]]])
    then show ?thesis by (rule Suc_inject)
  qed
  then show ?thesis by (auto simp: CompareSameType_def)
qed

section \<open>Turns and schedules\<close>

text \<open>
  \<open>TGo\<close>: a task, or main() on the context given, calls go(). \<open>TScript\<close>: some goroutine calls a method of a promise.
  \<open>TCancel\<close>: the harness cancels a context. A turn of a task that does not exist does nothing.
\<close>

datatype 's turn =
    TGo "nat option" go_ctx "string option" 's bool
  | TScript nat script_call
  | TAwait nat
  | TTask nat
  | TWatchdog nat bool
  | TReport nat
  | TCancel go_ctx
  | TTick duration

definition on_task :: "nat \<Rightarrow> ('s task \<Rightarrow> 's task) \<Rightarrow> 's engine_state \<Rightarrow> 's engine_state" where
  "on_task i f st = st\<lparr>en_tasks := (en_tasks st)[i := f (en_tasks st ! i)]\<rparr>"

definition task_exists :: "'s engine_state \<Rightarrow> nat \<Rightarrow> bool" where
  "task_exists st i \<longleftrightarrow> i < length (en_tasks st)"

definition script_turn :: "nat \<Rightarrow> script_call \<Rightarrow> 's engine_state \<Rightarrow> 's engine_state" where
  "script_turn i c st =
     (case promise_attr c (tk_promise (en_tasks st ! i)) of
        None \<Rightarrow> st
      | Some (_, p, fx) \<Rightarrow>
          (let st' = on_task i (\<lambda>t. t\<lparr>tk_promise := p\<rparr>) st
           in if CallCancelFn \<in> set fx
              then st'\<lparr>en_ctxs := cancel_ctx (tk_ctx (en_tasks st ! i)) (en_ctxs st)\<rparr> else st'))"

definition goroutine_turn :: "'s interpreter \<Rightarrow> nat \<Rightarrow> 's engine_state \<Rightarrow> 's engine_state" where
  "goroutine_turn istep i st =
     (case task_turn istep (en_ctxs st) (en_now st) (en_grace st) (en_tasks st ! i) of
        (t, out, ends) \<Rightarrow>
          (on_task i (\<lambda>_. t) st)
            \<lparr>en_ctxs := (if ends then cancel_ctx (tk_ctx t) (en_ctxs st) else en_ctxs st),
             en_log := en_log st @ map printFunc out\<rparr>)"

fun turn_step :: "'s interpreter \<Rightarrow> 's turn \<Rightarrow> 's engine_state \<Rightarrow> 's engine_state" where
  "turn_step istep (TGo None ctx fname s sig) st = spawnTask ctx fname s sig st"
| "turn_step istep (TGo (Some i) ctx fname s sig) st =
     (if task_exists st i then spawnTask (ctxOf (tk_thread (en_tasks st ! i))) fname s sig st else st)"
| "turn_step istep (TScript i c) st = (if task_exists st i then script_turn i c st else st)"
| "turn_step istep (TAwait i) st =
     (if task_exists st i then on_task i (\<lambda>t. t\<lparr>tk_promise := snd (await None False (tk_promise t))\<rparr>) st else st)"
| "turn_step istep (TTask i) st = (if task_exists st i then goroutine_turn istep i st else st)"
| "turn_step istep (TWatchdog i pf) st = (if task_exists st i then on_task i (watchdog (en_ctxs st) pf) st else st)"
| "turn_step istep (TReport i) st =
     (if task_exists st i
      then case report_turn i (en_ctxs st) (en_now st) (en_tasks st ! i) of
             (t, l) \<Rightarrow> (on_task i (\<lambda>_. t) st)\<lparr>en_log := en_log st @ l\<rparr>
      else st)"
| "turn_step istep (TCancel c) st = st\<lparr>en_ctxs := cancel_ctx c (en_ctxs st)\<rparr>"
| "turn_step istep (TTick d) st = st\<lparr>en_now := en_now st + max 0 d\<rparr>"

primrec schedule_run :: "'s interpreter \<Rightarrow> (nat \<Rightarrow> 's turn) \<Rightarrow> 's engine_state \<Rightarrow> nat \<Rightarrow> 's engine_state" where
  "schedule_run istep sched st 0 = st"
| "schedule_run istep sched st (Suc n) = turn_step istep (sched n) (schedule_run istep sched st n)"

definition engine_start :: "duration \<Rightarrow> ctxs \<Rightarrow> 's engine_state" where
  "engine_start grace cs = \<lparr>en_ctxs = cs, en_tasks = [], en_now = 0, en_grace = grace, en_log = []\<rparr>"


section \<open>Contexts only get done\<close>

definition ctxs_le :: "ctxs \<Rightarrow> ctxs \<Rightarrow> bool" where
  "ctxs_le cs cs' \<longleftrightarrow>
     length cs \<le> length cs' \<and> (\<forall>n < length cs. fst (cs' ! n) = fst (cs ! n) \<and> (snd (cs ! n) \<longrightarrow> snd (cs' ! n)))"

lemma ctxs_le_refl [simp]: "ctxs_le cs cs"
  by (simp add: ctxs_le_def)

lemma ctxs_le_trans: "ctxs_le a b \<Longrightarrow> ctxs_le b c \<Longrightarrow> ctxs_le a c"
  unfolding ctxs_le_def by (auto intro: order_trans)

lemma ctxs_le_cancel [simp]: "ctxs_le cs (cancel_ctx c cs)"
  by (auto simp: ctxs_le_def cancel_ctx_def nth_list_update split: go_ctx.splits)

lemma ctxs_le_snoc [simp]: "ctxs_le cs (cs @ [x])"
  by (simp add: ctxs_le_def nth_append)

lemma ctx_done_at_mono: "ctxs_le cs cs' \<Longrightarrow> ctx_done_at cs n \<Longrightarrow> ctx_done_at cs' n"
proof (induction n rule: less_induct)
  case (less n)
  from less.prems(2) have n: "n < length cs"
    by (subst (asm) ctx_done_at.simps) (simp split: if_splits)
  with less.prems(1) have n': "n < length cs'" "fst (cs' ! n) = fst (cs ! n)" "snd (cs ! n) \<longrightarrow> snd (cs' ! n)"
    by (auto simp: ctxs_le_def)
  from less.prems(2) n have "snd (cs ! n) \<or> (\<exists>m < n. fst (cs ! n) = Ctx m \<and> ctx_done_at cs m)"
    by (subst (asm) ctx_done_at.simps) (auto split: if_splits go_ctx.splits)
  with less.IH less.prems(1) n' show ?case
    by (subst ctx_done_at.simps) auto
qed

lemma ctx_done_mono: "ctxs_le cs cs' \<Longrightarrow> ctx_done cs c \<Longrightarrow> ctx_done cs' c"
  by (auto simp: ctx_done_def ctx_done_at_mono split: go_ctx.splits)

lemma cancel_ctx_done: "n < length cs \<Longrightarrow> ctx_done (cancel_ctx (Ctx n) cs) (Ctx n)"
  by (simp add: ctx_done_def cancel_ctx_def ctx_done_at.simps)

text \<open>A context made below another, directly or through others.\<close>

inductive descends :: "ctxs \<Rightarrow> go_ctx \<Rightarrow> go_ctx \<Rightarrow> bool" where
  Same: "descends cs c c"
| Below: "n < length cs \<Longrightarrow> fst (cs ! n) = Ctx m \<Longrightarrow> m < n \<Longrightarrow> descends cs (Ctx m) d \<Longrightarrow> descends cs (Ctx n) d"

lemma descends_done: "descends cs c d \<Longrightarrow> ctx_done cs d \<Longrightarrow> ctx_done cs c"
proof (induction rule: descends.induct)
  case (Below n cs m d)
  then show ?case by (simp add: ctx_done_def) (subst ctx_done_at.simps, simp)
qed simp

section \<open>What a turn does to one task\<close>

definition task_after :: "'s interpreter \<Rightarrow> 's turn \<Rightarrow> 's engine_state \<Rightarrow> nat \<Rightarrow> 's task \<Rightarrow> 's task" where
  "task_after istep tn st i t =
     (case tn of
        TScript j c \<Rightarrow>
          (if j = i
           then case promise_attr c (tk_promise t) of None \<Rightarrow> t | Some (_, p, _) \<Rightarrow> t\<lparr>tk_promise := p\<rparr>
           else t)
      | TAwait j \<Rightarrow> (if j = i then t\<lparr>tk_promise := snd (await None False (tk_promise t))\<rparr> else t)
      | TTask j \<Rightarrow> (if j = i then fst (task_turn istep (en_ctxs st) (en_now st) (en_grace st) t) else t)
      | TWatchdog j pf \<Rightarrow> (if j = i then watchdog (en_ctxs st) pf t else t)
      | TReport j \<Rightarrow> (if j = i then fst (report_turn i (en_ctxs st) (en_now st) t) else t)
      | _ \<Rightarrow> t)"

lemma on_task_simps [simp]:
  "en_ctxs (on_task i f st) = en_ctxs st" "en_now (on_task i f st) = en_now st"
  "en_grace (on_task i f st) = en_grace st" "en_log (on_task i f st) = en_log st"
  "length (en_tasks (on_task i f st)) = length (en_tasks st)"
  by (simp_all add: on_task_def)

lemma nth_on_task: "i < length (en_tasks st) \<Longrightarrow> en_tasks (on_task j f st) ! i = (if j = i then f (en_tasks st ! i) else en_tasks st ! i)"
  by (simp add: on_task_def nth_list_update)

lemma spawnTask_view [simp]:
  "i < length (en_tasks st) \<Longrightarrow> en_tasks (spawnTask ctx fname s sig st) ! i = en_tasks st ! i"
  "length (en_tasks (spawnTask ctx fname s sig st)) = Suc (length (en_tasks st))"
  "ctxs_le (en_ctxs st) (en_ctxs (spawnTask ctx fname s sig st))"
  by (simp_all add: spawnTask_def with_cancel_def nth_append)

lemma turn_view:
  assumes "task_exists st i"
  shows "task_exists (turn_step istep tn st) i \<and> en_tasks (turn_step istep tn st) ! i = task_after istep tn st i (en_tasks st ! i)"
proof (cases tn)
  case (TGo j ctx fname s sig)
  with assms show ?thesis
    by (cases j) (auto simp: task_exists_def task_after_def)
qed (use assms in \<open>auto simp: task_exists_def task_after_def script_turn_def goroutine_turn_def nth_on_task Let_def
      split: option.splits prod.splits\<close>)

lemma turn_ctxs: "ctxs_le (en_ctxs st) (en_ctxs (turn_step istep tn st))"
proof (cases tn)
  case (TGo j ctx fname s sig)
  then show ?thesis by (cases j) auto
qed (auto simp: script_turn_def goroutine_turn_def Let_def split: option.splits prod.splits)

lemma turn_grows: "length (en_tasks st) \<le> length (en_tasks (turn_step istep tn st))"
proof (cases tn)
  case (TGo j ctx fname s sig)
  then show ?thesis by (cases j) auto
qed (auto simp: script_turn_def goroutine_turn_def Let_def split: option.splits prod.splits)

section \<open>The invariant of a task\<close>

definition task_ok :: "ctxs \<Rightarrow> 's task \<Rightarrow> bool" where
  "task_ok cs t \<longleftrightarrow>
     (\<exists>n < length cs. tk_ctx t = Ctx n \<and> fst (cs ! n) = tk_parent t)
     \<and> ctxOf (tk_thread t) = tk_ctx t
     \<and> p_cancelFn (tk_promise t) \<and> wf_promise (tk_promise t)
     \<and> th_cancelled (tk_thread t) \<in> {None, Some ''context canceled''}
     \<and> (in_call t \<longrightarrow> tk_watching t \<or> th_cancelled (tk_thread t) \<noteq> None)
     \<and> (tk_phase t = Ended \<longrightarrow> p_settled (tk_promise t))"

lemma task_ok_ctxs: "task_ok cs t \<Longrightarrow> ctxs_le cs cs' \<Longrightarrow> task_ok cs' t"
  by (fastforce simp: task_ok_def ctxs_le_def)

text \<open>A change of the promise along its evolution keeps the invariant.\<close>

lemma task_ok_promise:
  assumes "task_ok cs t" and "evolves (tk_promise t) p \<and> (wf_promise (tk_promise t) \<longrightarrow> wf_promise p)"
  shows "task_ok cs (t\<lparr>tk_promise := p\<rparr>)"
  using assms by (auto simp: task_ok_def evolves_def p_shape_def in_call_def)

lemma evolves_settle: "evolves p (settle v e p) \<and> (wf_promise p \<longrightarrow> e = None \<or> v = SNone \<longrightarrow> wf_promise (settle v e p))"
  by (auto simp: evolves_def settle_def p_shape_def wf_promise_def)

lemma p_settled_settle [simp]: "p_settled (settle v e p)"
  by (simp add: settle_def)

lemma task_turn_ok:
  assumes "task_ok cs t"
  shows "task_ok cs (fst (task_turn istep cs now grace t)) \<and> evolves (tk_promise t) (tk_promise (fst (task_turn istep cs now grace t)))"
proof (cases "tk_phase t")
  case (Calling s)
  with assms show ?thesis
    by (auto simp: task_turn_def task_ok_def in_call_def split: prod.splits sum.splits)
next
  case (Returned r)
  then show ?thesis
    using assms evolves_settle [of "tk_promise t"]
    by (cases r) (auto simp: task_turn_def resolve_def task_ok_def in_call_def evolves_def p_shape_def)
next
  case (Rejecting e)
  then show ?thesis
    using assms evolves_settle [of "tk_promise t" SNone "Some e"]
    by (auto simp: task_turn_def reject_def task_ok_def in_call_def evolves_def p_shape_def)
qed (use assms in \<open>simp add: task_turn_def\<close>)

lemma task_after_ok:
  assumes "task_ok (en_ctxs st) t"
  shows "task_ok (en_ctxs st) (task_after istep tn st i t) \<and> evolves (tk_promise t) (tk_promise (task_after istep tn st i t))"
proof (cases tn)
  case (TScript j c)
  then show ?thesis
    using assms good_attr [of c "tk_promise t"] task_ok_promise [OF assms]
    by (auto simp: task_after_def split: option.splits)
next
  case (TAwait j)
  have "evolves (tk_promise t) (snd (await None False (tk_promise t)))
      \<and> (wf_promise (tk_promise t) \<longrightarrow> wf_promise (snd (await None False (tk_promise t))))"
    by (rule good_await [OF surjective_pairing])
  with TAwait assms task_ok_promise [OF assms] show ?thesis by (auto simp: task_after_def)
next
  case (TTask j)
  with assms task_turn_ok [OF assms] show ?thesis by (auto simp: task_after_def)
next
  case (TWatchdog j pf)
  then show ?thesis
    using assms by (auto simp: task_after_def watchdog_def task_ok_def in_call_def cancel_thread_def ctxOf_def split: option.splits)
next
  case (TReport j)
  then show ?thesis
    using assms by (auto simp: task_after_def report_turn_def task_ok_def in_call_def split: option.splits prod.splits)
qed (use assms in \<open>auto simp: task_after_def\<close>)

definition engine_ok :: "'s engine_state \<Rightarrow> bool" where
  "engine_ok st \<longleftrightarrow> (\<forall>t \<in> set (en_tasks st). task_ok (en_ctxs st) t)"

lemma spawnTask_ok: "engine_ok st \<Longrightarrow> engine_ok (spawnTask ctx fname s sig st)"
  by (fastforce simp: engine_ok_def spawnTask_def with_cancel_def task_ok_def nth_append ctxOf_def invoke_thread_def in_call_def
      wf_promise_def spawn_promise_def newPromise_def)

lemma turn_same_tasks:
  assumes "\<not> (\<exists>j ctx fname s sig. tn = TGo j ctx fname s sig)"
  shows "length (en_tasks (turn_step istep tn st)) = length (en_tasks st)"
  using assms by (cases tn) (auto simp: script_turn_def goroutine_turn_def Let_def split: option.splits prod.splits)

lemma turn_ok: "engine_ok st \<Longrightarrow> engine_ok (turn_step istep tn st)"
proof (cases "\<exists>j ctx fname s sig. tn = TGo j ctx fname s sig")
  case True
  assume ok: "engine_ok st"
  from True obtain j ctx fname s sig where tn: "tn = TGo j ctx fname s sig" by blast
  show ?thesis unfolding tn by (cases j) (simp_all add: ok spawnTask_ok)
next
  case False
  assume ok: "engine_ok st"
  have "task_ok (en_ctxs (turn_step istep tn st)) (en_tasks (turn_step istep tn st) ! i)"
    if "i < length (en_tasks st)" for i
  proof -
    have "task_ok (en_ctxs st) (en_tasks st ! i)" using ok that by (simp add: engine_ok_def)
    from task_after_ok [OF this] have "task_ok (en_ctxs st) (task_after istep tn st i (en_tasks st ! i))" by blast
    with turn_view [of st i istep tn] that show ?thesis
      by (auto simp: task_exists_def intro: task_ok_ctxs [OF _ turn_ctxs])
  qed
  with turn_same_tasks [OF False] show ?thesis by (auto simp: engine_ok_def in_set_conv_nth)
qed

lemma schedule_ok: "engine_ok (schedule_run istep sched (engine_start grace cs) n)"
  by (induction n) (simp_all add: turn_ok, simp add: engine_ok_def engine_start_def)

lemma schedule_mono:
  assumes "n \<le> m"
  shows "ctxs_le (en_ctxs (schedule_run istep sched st n)) (en_ctxs (schedule_run istep sched st m))
    \<and> length (en_tasks (schedule_run istep sched st n)) \<le> length (en_tasks (schedule_run istep sched st m))"
  using assms
proof (induction m rule: dec_induct)
  case (step m)
  then show ?case using ctxs_le_trans [OF _ turn_ctxs] turn_grows le_trans by (simp, blast)
qed simp

declare turn_step.simps [simp del]

section \<open>The engine refines the runtime\<close>

definition promises_of :: "'s engine_state \<Rightarrow> promise_heap" where
  "promises_of st = map tk_promise (en_tasks st)"

lemma promises_on_task:
  "i < length (en_tasks st) \<Longrightarrow> promises_of (on_task i f st) = (promises_of st)[i := tk_promise (f (en_tasks st ! i))]"
  by (simp add: promises_of_def on_task_def map_update)

lemma promises_kept:
  "i < length (en_tasks st) \<Longrightarrow> tk_promise (f (en_tasks st ! i)) = tk_promise (en_tasks st ! i) \<Longrightarrow>
   promises_of (on_task i f st) = promises_of st"
  unfolding promises_on_task by (simp add: promises_of_def list_update_same_conv)

lemma promises_fields [simp]:
  "promises_of (st\<lparr>en_ctxs := a\<rparr>) = promises_of st" "promises_of (st\<lparr>en_log := b\<rparr>) = promises_of st"
  "promises_of (st\<lparr>en_now := t\<rparr>) = promises_of st"
  by (simp_all add: promises_of_def)

lemma nth_promises: "i < length (en_tasks st) \<Longrightarrow> promises_of st ! i = tk_promise (en_tasks st ! i)"
  by (simp add: promises_of_def)

lemma length_promises [simp]: "length (promises_of st) = length (en_tasks st)"
  by (simp add: promises_of_def)

lemma rt_one: "rt_step a b \<Longrightarrow> rt_steps a b"
  by (rule rt_trans [OF rt_refl])

lemma spawnTask_runtime: "rt_steps (promises_of st) (promises_of (spawnTask ctx fname s sig st))"
proof -
  have "go_builtin [SFunction 0] [(''signallable'', SBool sig)] (promises_of st)
      = Inr (SPromise (length (promises_of st)), promises_of st @ [spawn_promise sig])"
    by (simp add: go_builtin_def boolKwarg_def alloc_def)
  then have "rt_step (promises_of st) (promises_of st @ [spawn_promise sig])" by (rule rt_step.Go)
  moreover have "promises_of (spawnTask ctx fname s sig st) = promises_of st @ [spawn_promise sig]"
    by (simp add: promises_of_def spawnTask_def with_cancel_def)
  ultimately show ?thesis by (simp add: rt_one)
qed

lemma goroutine_runtime:
  assumes "task_ok (en_ctxs st) (en_tasks st ! i)" and i: "i < length (en_tasks st)"
  shows "rt_steps (promises_of st) (promises_of (goroutine_turn istep i st))"
proof -
  let ?t = "en_tasks st ! i"
  obtain t out ends where tt: "task_turn istep (en_ctxs st) (en_now st) (en_grace st) ?t = (t, out, ends)" by (metis prod_cases3)
  have new: "promises_of (goroutine_turn istep i st) = (promises_of st)[i := tk_promise t]"
    using tt i by (simp add: goroutine_turn_def promises_on_task)
  have fn: "p_cancelFn (promises_of st ! i)" using assms by (simp add: task_ok_def nth_promises)
  have "tk_promise t = promises_of st ! i \<or> (\<exists>r. tk_promise t = fst (task_done r (promises_of st ! i)))
      \<or> (\<exists>e. tk_promise t = reject e (promises_of st ! i))"
  proof (cases "tk_phase ?t")
    case (Returned r)
    have "tk_promise t = promises_of st ! i \<or> tk_promise t = fst (task_done r (promises_of st ! i))"
      using tt i Returned by (cases r) (auto simp: task_turn_def nth_promises task_done_def split: if_splits)
    then show ?thesis by blast
  qed (use tt i in \<open>auto simp: task_turn_def nth_promises split: sum.splits prod.splits\<close>)
  then consider "tk_promise t = promises_of st ! i"
    | r where "tk_promise t = fst (task_done r (promises_of st ! i))"
    | e where "tk_promise t = reject e (promises_of st ! i)" by blast
  then show ?thesis
  proof cases
    case 1
    with new show ?thesis by (simp add: rt_refl)
  next
    case (2 r)
    have "rt_step (promises_of st) ((promises_of st)[i := tk_promise t])"
      by (rule rt_step.Finish [of i _ r _ "snd (task_done r (promises_of st ! i))"]) (use 2 i fn in simp_all)
    with new show ?thesis by (simp add: rt_one)
  next
    case (3 e)
    with new rt_step.FinishLate [OF _ fn] i show ?thesis by (simp add: rt_one)
  qed
qed

lemma turn_runtime:
  assumes "engine_ok st"
  shows "rt_steps (promises_of st) (promises_of (turn_step istep tn st))"
proof (cases tn)
  case (TGo j ctx fname s sig)
  then show ?thesis by (cases j) (simp_all add: turn_step.simps rt_refl spawnTask_runtime)
next
  case (TScript i c)
  show ?thesis
  proof (cases "task_exists st i \<and> promise_attr c (tk_promise (en_tasks st ! i)) \<noteq> None")
    case True
    then obtain v p fx where a: "promise_attr c (promises_of st ! i) = Some (v, p, fx)" and i: "i < length (promises_of st)"
      by (auto simp: task_exists_def nth_promises)
    have "promises_of (turn_step istep tn st) = (promises_of st)[i := p]"
      using a i TScript by (simp add: turn_step.simps task_exists_def script_turn_def nth_promises promises_on_task Let_def)
    with rt_step.Attr [OF i a] show ?thesis by (simp add: rt_one)
  next
    case False
    with TScript show ?thesis by (auto simp: turn_step.simps script_turn_def rt_refl split: option.split)
  qed
next
  case (TAwait i)
  show ?thesis
  proof (cases "task_exists st i")
    case True
    then have i: "i < length (promises_of st)" by (simp add: task_exists_def)
    have "promises_of (turn_step istep tn st) = (promises_of st)[i := snd (await None False (promises_of st ! i))]"
      using TAwait True by (simp add: turn_step.simps task_exists_def nth_promises promises_on_task)
    with rt_step.Join [OF i prod.collapse [symmetric]] show ?thesis by (simp add: rt_one)
  qed (simp add: TAwait turn_step.simps rt_refl)
next
  case (TTask i)
  with assms show ?thesis
    by (auto simp: turn_step.simps task_exists_def engine_ok_def rt_refl intro: goroutine_runtime)
next
  case (TWatchdog i pf)
  then show ?thesis
    by (auto simp: turn_step.simps task_exists_def promises_kept watchdog_def rt_refl)
next
  case (TReport i)
  have "tk_promise (fst (report_turn i cs now t)) = tk_promise t" for cs now and t :: "'a task"
    by (simp add: report_turn_def split: option.splits prod.splits)
  with TReport show ?thesis
    by (cases "report_turn i (en_ctxs st) (en_now st) (en_tasks st ! i)")
      (auto simp: turn_step.simps task_exists_def promises_kept rt_refl, metis fst_conv promises_kept rt_refl)
qed (simp_all add: turn_step.simps rt_refl)

lemma rt_steps_trans: "rt_steps b c \<Longrightarrow> rt_steps a b \<Longrightarrow> rt_steps a c"
  by (induction rule: rt_steps.induct) (auto intro: rt_trans)

end
