(* ===== verification/Engine_Runs.thy ===== *)
theory Engine_Runs
  imports Engine
begin

text \<open>
  What the schedules of \<open>Engine\<close> come to: a cancelled task ends in every fair schedule and takes the tasks below it with
  it, a lost failure is reported once, and the promises go through the steps of the runtime of \<open>Tasks\<close>.
\<close>

section \<open>Fair schedules\<close>

text \<open>The task's goroutine and its watchdog move again and again.\<close>

definition fair :: "(nat \<Rightarrow> 's turn) \<Rightarrow> nat \<Rightarrow> bool" where
  "fair sched i \<longleftrightarrow> (\<forall>n. (\<exists>m \<ge> n. sched m = TTask i) \<and> (\<exists>m \<ge> n. \<exists>pf. sched m = TWatchdog i pf))"

text \<open>
  What the interpreter documents: a call whose thread was cancelled and whose context is done
  (which ends a blocking builtin) returns after finitely many steps.
\<close>

fun unwinds_in :: "'s interpreter \<Rightarrow> nat \<Rightarrow> 's \<Rightarrow> bool" where
  "unwinds_in istep 0 s = False"
| "unwinds_in istep (Suc n) s =
     (case snd (istep (Some ''context canceled'') True s) of Inr _ \<Rightarrow> True | Inl s' \<Rightarrow> unwinds_in istep n s')"

definition prompt :: "'s interpreter \<Rightarrow> bool" where
  "prompt istep \<longleftrightarrow> (\<forall>s. \<exists>n. unwinds_in istep n s)"

text \<open>What holds until a turn that will come, and is then replaced, is replaced.\<close>

lemma eventually_by_turn:
  assumes "P (f n)" and keep: "\<And>k. n \<le> k \<Longrightarrow> P (f k) \<Longrightarrow> P (f (Suc k)) \<or> Q (f (Suc k))"
    and "\<exists>m \<ge> n. T (m :: nat)" and fin: "\<And>k. n \<le> k \<Longrightarrow> T k \<Longrightarrow> P (f k) \<Longrightarrow> Q (f (Suc k))"
  shows "\<exists>m > n. Q (f m)"
proof -
  from assms(3) obtain m where m: "n \<le> m" "T m" by blast
  have "P (f k) \<or> (\<exists>l > n. Q (f l))" if "n \<le> k" for k
    using that by (induction k rule: dec_induct) (use assms(1) keep le_imp_less_Suc in blast)+
  with m fin show ?thesis by (meson le_imp_less_Suc)
qed

lemma task_after_fixed:
  "tk_ctx (task_after istep tn st i t) = tk_ctx t \<and> tk_parent (task_after istep tn st i t) = tk_parent t
   \<and> ctxOf (tk_thread (task_after istep tn st i t)) = ctxOf (tk_thread t)"
  by (cases tn) (auto simp: task_after_def task_turn_def report_turn_def watchdog_def cancel_thread_def ctxOf_def
      split: option.splits phase.splits sum.splits prod.splits)

lemma phase_other: "tn \<noteq> TTask i \<Longrightarrow> tk_phase (task_after istep tn st i t) = tk_phase t"
  by (cases tn) (auto simp: task_after_def report_turn_def watchdog_def split: option.splits prod.splits)

lemma cancelled_stays:
  "th_cancelled (tk_thread t) = Some r \<Longrightarrow> th_cancelled (tk_thread (task_after istep tn st i t)) = Some r"
  by (cases tn) (auto simp: task_after_def task_turn_def report_turn_def watchdog_def cancel_thread_def
      split: option.splits phase.splits sum.splits prod.splits)

section \<open>A task whose context is done ends\<close>

definition doomed :: "'s engine_state \<Rightarrow> nat \<Rightarrow> bool" where
  "doomed st i \<longleftrightarrow> engine_ok st \<and> task_exists st i \<and> ctx_done (en_ctxs st) (tk_ctx (en_tasks st ! i))"

lemma doomed_turn: "doomed st i \<Longrightarrow> doomed (turn_step istep tn st) i"
  using turn_view [of st i istep tn] turn_ok [of st istep tn] ctx_done_mono [OF turn_ctxs]
    task_after_fixed [of istep tn st i "en_tasks st ! i"]
  by (auto simp: doomed_def)

lemma doomed_task: "doomed st i \<Longrightarrow> task_ok (en_ctxs st) (en_tasks st ! i)"
  by (simp add: doomed_def engine_ok_def task_exists_def)

lemma doomed_view: "doomed st i \<Longrightarrow> en_tasks (turn_step istep tn st) ! i = task_after istep tn st i (en_tasks st ! i)"
  using turn_view unfolding doomed_def by blast

definition unwinding :: "'s interpreter \<Rightarrow> nat \<Rightarrow> nat \<Rightarrow> 's engine_state \<Rightarrow> bool" where
  "unwinding istep i k st \<longleftrightarrow>
     doomed st i \<and> th_cancelled (tk_thread (en_tasks st ! i)) = Some ''context canceled''
     \<and> (\<exists>s. tk_phase (en_tasks st ! i) = Calling s \<and> unwinds_in istep k s)"

definition out_of_call :: "nat \<Rightarrow> 's engine_state \<Rightarrow> bool" where
  "out_of_call i st \<longleftrightarrow> doomed st i \<and> \<not> in_call (en_tasks st ! i)"

lemma unwinding_other:
  "unwinding istep i k st \<Longrightarrow> tn \<noteq> TTask i \<Longrightarrow> unwinding istep i k (turn_step istep tn st)"
  using doomed_view [of st i istep tn] doomed_turn [of st i istep tn]
    cancelled_stays [of "en_tasks st ! i" "''context canceled''" istep tn st i]
    phase_other [of tn i istep st "en_tasks st ! i"]
  by (auto simp: unwinding_def)

lemma unwinding_task:
  assumes "unwinding istep i (Suc k) st"
  shows "unwinding istep i k (turn_step istep (TTask i) st) \<or> out_of_call i (turn_step istep (TTask i) st)"
proof -
  from assms obtain s where s: "doomed st i" "tk_phase (en_tasks st ! i) = Calling s" "unwinds_in istep (Suc k) s"
      "th_cancelled (tk_thread (en_tasks st ! i)) = Some ''context canceled''" by (auto simp: unwinding_def)
  with doomed_task [OF s(1)] have c: "ctx_done (en_ctxs st) (ctxOf (tk_thread (en_tasks st ! i)))"
    by (simp add: doomed_def task_ok_def)
  show ?thesis
    using s c doomed_view [OF s(1), of istep "TTask i"] doomed_turn [OF s(1), of istep "TTask i"]
    by (auto simp: unwinding_def out_of_call_def task_after_def task_turn_def in_call_def split: prod.splits sum.splits)
qed

lemma unwinding_ends:
  assumes "fair sched i"
  shows "unwinding istep i k (schedule_run istep sched st0 n) \<Longrightarrow> \<exists>m \<ge> n. out_of_call i (schedule_run istep sched st0 m)"
proof (induction k arbitrary: n)
  case 0
  then show ?case by (simp add: unwinding_def)
next
  case (Suc k)
  have "\<exists>m > n. unwinding istep i k (schedule_run istep sched st0 m) \<or> out_of_call i (schedule_run istep sched st0 m)"
    using Suc.prems
  proof (rule eventually_by_turn [where T = "\<lambda>m. sched m = TTask i"])
    show "\<exists>m \<ge> n. sched m = TTask i" using assms by (simp add: fair_def)
  next
    fix m
    assume "unwinding istep i (Suc k) (schedule_run istep sched st0 m)"
    then show "unwinding istep i (Suc k) (schedule_run istep sched st0 (Suc m))
        \<or> unwinding istep i k (schedule_run istep sched st0 (Suc m)) \<or> out_of_call i (schedule_run istep sched st0 (Suc m))"
      using unwinding_task [of istep i k "schedule_run istep sched st0 m"]
        unwinding_other [of istep i "Suc k" "schedule_run istep sched st0 m" "sched m"]
      by (cases "sched m = TTask i") auto
  qed (use unwinding_task in auto)
  with Suc.IH show ?case by (meson less_imp_le order_trans)
qed

text \<open>The watchdog interrupts a call that does not return by itself.\<close>

definition calling :: "nat \<Rightarrow> 's engine_state \<Rightarrow> bool" where
  "calling i st \<longleftrightarrow> doomed st i \<and> in_call (en_tasks st ! i)"

lemma calling_turn:
  assumes "calling i st" and "prompt istep"
  shows "calling i (turn_step istep tn st) \<or> out_of_call i (turn_step istep tn st)"
  using doomed_turn [of st i istep tn] assms(1) by (auto simp: calling_def out_of_call_def)

lemma calling_watchdog:
  assumes "calling i st" and "prompt istep"
  shows "\<exists>k. unwinding istep i k (turn_step istep (TWatchdog i pf) st)"
proof -
  from assms(1) obtain s where s: "doomed st i" "tk_phase (en_tasks st ! i) = Calling s"
    by (auto simp: calling_def in_call_def split: phase.splits)
  from assms(2) obtain k where k: "unwinds_in istep k s" by (auto simp: prompt_def)
  have "th_cancelled (tk_thread (watchdog (en_ctxs st) pf (en_tasks st ! i))) = Some ''context canceled''"
    using doomed_task [OF s(1)] s by (auto simp: watchdog_def task_ok_def in_call_def doomed_def cancel_thread_def)
  moreover have "tk_phase (watchdog (en_ctxs st) pf (en_tasks st ! i)) = Calling s"
    using s(2) by (simp add: watchdog_def)
  ultimately show ?thesis
    using k doomed_turn [OF s(1), of istep "TWatchdog i pf"] doomed_view [OF s(1), of istep "TWatchdog i pf"]
    by (auto simp: unwinding_def task_after_def)
qed

lemma calling_ends:
  assumes "fair sched i" and "prompt istep" and "calling i (schedule_run istep sched st0 n)"
  shows "\<exists>m \<ge> n. out_of_call i (schedule_run istep sched st0 m)"
proof -
  have "\<exists>m > n. out_of_call i (schedule_run istep sched st0 m) \<or> (\<exists>k. unwinding istep i k (schedule_run istep sched st0 m))"
    using assms(3)
  proof (rule eventually_by_turn [where T = "\<lambda>m. \<exists>pf. sched m = TWatchdog i pf"])
    show "\<exists>m \<ge> n. \<exists>pf. sched m = TWatchdog i pf" using assms(1) by (simp add: fair_def)
  qed (use calling_turn [OF _ assms(2)] calling_watchdog [OF _ assms(2)] in auto)
  with unwinding_ends [OF assms(1)] show ?thesis by (meson less_imp_le order_trans)
qed

text \<open>Out of the call, two turns of the goroutine settle the promise.\<close>

definition ended :: "nat \<Rightarrow> 's engine_state \<Rightarrow> bool" where
  "ended i st \<longleftrightarrow> doomed st i \<and> tk_phase (en_tasks st ! i) = Ended"

definition past_call :: "nat \<Rightarrow> 's engine_state \<Rightarrow> bool" where
  "past_call i st \<longleftrightarrow> doomed st i \<and> (tk_phase (en_tasks st ! i) = Ended \<or> (\<exists>e. tk_phase (en_tasks st ! i) = Rejecting e))"

lemma settling_other:
  assumes "doomed st i" and "tn \<noteq> TTask i"
  shows "doomed (turn_step istep tn st) i \<and> tk_phase (en_tasks (turn_step istep tn st) ! i) = tk_phase (en_tasks st ! i)"
  using assms doomed_turn doomed_view phase_other by metis

lemma settling_task:
  assumes "out_of_call i st"
  shows "past_call i (turn_step istep (TTask i) st) \<and> (past_call i st \<longrightarrow> ended i (turn_step istep (TTask i) st))"
proof -
  have d: "doomed st i" using assms by (simp add: out_of_call_def)
  show ?thesis
    using assms doomed_turn [OF d, of istep "TTask i"] doomed_view [OF d, of istep "TTask i"]
    by (auto simp: out_of_call_def past_call_def ended_def task_after_def task_turn_def in_call_def
        split: phase.splits sum.splits)
qed

lemma out_of_call_turn: "out_of_call i st \<Longrightarrow> out_of_call i (turn_step istep tn st)"
  using settling_other [of st i tn istep] settling_task [of i st istep]
  by (cases "tn = TTask i") (auto simp: out_of_call_def past_call_def in_call_def)

lemma past_call_turn: "past_call i st \<Longrightarrow> past_call i (turn_step istep tn st)"
  using settling_other [of st i tn istep] settling_task [of i st istep]
  by (cases "tn = TTask i") (auto simp: out_of_call_def past_call_def in_call_def)

lemma settling_ends:
  assumes "fair sched i" and "out_of_call i (schedule_run istep sched st0 n)"
  shows "\<exists>m \<ge> n. ended i (schedule_run istep sched st0 m)"
proof -
  have nxt: "\<exists>m \<ge> n. sched m = TTask i" for n using assms(1) by (simp add: fair_def)
  have "\<exists>m > n. past_call i (schedule_run istep sched st0 m)"
    using assms(2)
    by (rule eventually_by_turn [where T = "\<lambda>m. sched m = TTask i"])
      (auto simp: nxt out_of_call_turn settling_task)
  then obtain m where m: "m > n" "past_call i (schedule_run istep sched st0 m)" by blast
  have "\<exists>l > m. ended i (schedule_run istep sched st0 l)"
    using m(2)
  proof (rule eventually_by_turn [where T = "\<lambda>m. sched m = TTask i"])
    show "\<exists>k \<ge> m. sched k = TTask i" by (rule nxt)
  next
    fix k
    assume "sched k = TTask i" and "past_call i (schedule_run istep sched st0 k)"
    then show "ended i (schedule_run istep sched st0 (Suc k))"
      using settling_task [of i "schedule_run istep sched st0 k" istep]
      by (auto simp: past_call_def out_of_call_def in_call_def)
  qed (use past_call_turn in auto)
  with m(1) show ?thesis by (meson less_imp_le order_trans)
qed

lemma doomed_ends:
  assumes "fair sched i" and "prompt istep" and "doomed (schedule_run istep sched st0 n) i"
  shows "\<exists>m \<ge> n. ended i (schedule_run istep sched st0 m)"
proof (cases "in_call (en_tasks (schedule_run istep sched st0 n) ! i)")
  case True
  with assms(3) have "calling i (schedule_run istep sched st0 n)" by (simp add: calling_def)
  from calling_ends [OF assms(1,2) this] settling_ends [OF assms(1)] show ?thesis by (meson order_trans)
next
  case False
  with assms(3) have "out_of_call i (schedule_run istep sched st0 n)" by (simp add: out_of_call_def)
  from settling_ends [OF assms(1) this] show ?thesis .
qed

lemma ended_settled: "ended i st \<Longrightarrow> p_settled (tk_promise (en_tasks st ! i))"
  using doomed_task by (auto simp: ended_def task_ok_def)


section \<open>A cancelled task settles without an error\<close>

definition cancel_ok :: "'s task \<Rightarrow> bool" where
  "cancel_ok t \<longleftrightarrow> cancel_inv (tk_promise t) \<and> (\<forall>e. tk_phase t \<noteq> Rejecting e)"

lemma cancel_ok_after:
  assumes "cancel_ok t" and "\<forall>msg. tn \<noteq> TScript i (CallReject msg)"
  shows "cancel_ok (task_after istep tn st i t)"
proof (cases tn)
  case (TTask j)
  with assms(1) show ?thesis
    by (auto simp: cancel_ok_def cancel_inv_def task_after_def task_turn_def resolve_def settle_def
        split: phase.splits sum.splits prod.splits)
next
  case (TScript j c)
  with assms show ?thesis
    by (cases c) (auto simp: cancel_ok_def cancel_inv_def task_after_def promise_defs Let_def)
qed (use assms in \<open>auto simp: cancel_ok_def cancel_inv_def task_after_def report_turn_def watchdog_def await_def Let_def
      split: option.splits prod.splits\<close>)

lemma cancel_ok_run:
  assumes "task_exists (schedule_run istep sched st0 n) i" and "cancel_ok (en_tasks (schedule_run istep sched st0 n) ! i)"
    and "\<forall>m \<ge> n. \<forall>msg. sched m \<noteq> TScript i (CallReject msg)" and "n \<le> m"
  shows "task_exists (schedule_run istep sched st0 m) i \<and> cancel_ok (en_tasks (schedule_run istep sched st0 m) ! i)"
  using assms(4)
proof (induction m rule: dec_induct)
  case (step m)
  with assms(3) turn_view [of "schedule_run istep sched st0 m" i istep "sched m"] show ?case
    by (simp add: cancel_ok_after)
qed (use assms in simp)

lemma script_cancel:
  assumes "engine_ok st" and "task_exists st i" and "in_call (en_tasks st ! i)" and "\<not> p_settled (tk_promise (en_tasks st ! i))"
  shows "doomed (turn_step istep (TScript i CallCancel) st) i \<and> cancel_ok (en_tasks (turn_step istep (TScript i CallCancel) st) ! i)"
proof -
  have ok: "task_ok (en_ctxs st) (en_tasks st ! i)" using assms(1,2) by (simp add: engine_ok_def task_exists_def)
  then obtain n where n: "n < length (en_ctxs st)" "tk_ctx (en_tasks st ! i) = Ctx n" by (auto simp: task_ok_def)
  have p: "p_cancellable (tk_promise (en_tasks st ! i))" "p_cancelFn (tk_promise (en_tasks st ! i))"
    using ok by (auto simp: task_ok_def wf_promise_def)
  have "en_ctxs (turn_step istep (TScript i CallCancel) st) = cancel_ctx (Ctx n) (en_ctxs st)"
    using assms(2) p n by (simp add: turn_step.simps script_turn_def promise_attr_def doCancel_def Let_def)
  with n cancel_ctx_done [OF n(1)] turn_view [OF assms(2), of istep "TScript i CallCancel"] turn_ok [OF assms(1)] assms(3,4) p
  show ?thesis
    by (auto simp: doomed_def cancel_ok_def cancel_inv_def task_after_def promise_attr_def doCancel_def Let_def in_call_def)
qed

lemma run_doomed_below:
  assumes "doomed (schedule_run istep sched (engine_start grace cs) n) i" and "n \<le> k"
    and "task_exists (schedule_run istep sched (engine_start grace cs) k) j"
    and "descends (en_ctxs (schedule_run istep sched (engine_start grace cs) k))
      (tk_ctx (en_tasks (schedule_run istep sched (engine_start grace cs) k) ! j))
      (tk_ctx (en_tasks (schedule_run istep sched (engine_start grace cs) k) ! i))"
  shows "doomed (schedule_run istep sched (engine_start grace cs) k) j"
proof -
  have "doomed (schedule_run istep sched (engine_start grace cs) k) i"
    using assms(2) by (induction k rule: dec_induct) (use assms(1) in \<open>auto intro: doomed_turn\<close>)
  with descends_done [OF assms(4)] assms(3) schedule_ok show ?thesis by (simp add: doomed_def)
qed

text \<open>Ending the harness's context ends every task of the script, however deep it was started.\<close>

lemma shutdown_ends_task:
  assumes "prompt istep" and "fair sched j" and "sched n = TCancel c"
    and "c = Ctx l" and "l < length (en_ctxs (schedule_run istep sched (engine_start grace cs) n))"
    and "task_exists (schedule_run istep sched (engine_start grace cs) (Suc n)) j"
    and "descends (en_ctxs (schedule_run istep sched (engine_start grace cs) (Suc n)))
      (tk_ctx (en_tasks (schedule_run istep sched (engine_start grace cs) (Suc n)) ! j)) c"
  shows "\<exists>m > n. ended j (schedule_run istep sched (engine_start grace cs) m)"
proof -
  let ?run = "schedule_run istep sched (engine_start grace cs)"
  have "ctx_done (en_ctxs (?run (Suc n))) c"
    using assms(3-5) cancel_ctx_done by (simp add: turn_step.simps)
  with descends_done [OF assms(7)] have "ctx_done (en_ctxs (?run (Suc n))) (tk_ctx (en_tasks (?run (Suc n)) ! j))" by blast
  with assms(6) schedule_ok [of istep sched grace cs "Suc n"] have "doomed (?run (Suc n)) j"
    unfolding doomed_def by blast
  from doomed_ends [OF assms(2,1) this] show ?thesis by (meson Suc_le_lessD)
qed

section \<open>What is reported\<close>

definition lost_of :: "nat \<Rightarrow> log_record list \<Rightarrow> log_record list" where
  "lost_of i entries = filter (\<lambda>l. case l of LogLost j _ _ \<Rightarrow> j = i | _ \<Rightarrow> False) entries"

lemma lost_of_append [simp]: "lost_of i (xs @ ys) = lost_of i xs @ lost_of i ys"
  by (simp add: lost_of_def)

lemma lost_of_prints [simp]: "lost_of i (map printFunc out) = []"
  by (induction out) (simp_all add: lost_of_def printFunc_def)

text \<open>What a turn adds to the reports about a task, and to its pending report.\<close>

lemma turn_lost:
  assumes "task_exists st i"
  shows "lost_of i (en_log (turn_step istep tn st)) =
    lost_of i (en_log st) @ (if tn = TReport i then snd (report_turn i (en_ctxs st) (en_now st) (en_tasks st ! i)) else [])"
proof (cases tn)
  case (TGo j ctx fname s sig)
  then show ?thesis by (cases j) (auto simp: turn_step.simps spawnTask_def with_cancel_def)
next
  case (TReport j)
  have "lost_of i (snd (report_turn j cs now t)) = (if j = i then snd (report_turn i cs now t) else [])" for cs now and t :: "'a task"
    by (auto simp: report_turn_def lost_of_def split: option.splits prod.splits)
  from this [of "en_ctxs st" "en_now st" "en_tasks st ! j"] TReport assms show ?thesis
    by (cases "report_turn j (en_ctxs st) (en_now st) (en_tasks st ! j)")
      (auto simp: turn_step.simps task_exists_def report_turn_def lost_of_def)
qed (auto simp: turn_step.simps script_turn_def goroutine_turn_def Let_def split: option.splits prod.splits)

lemma turn_lost_new:
  assumes "\<not> task_exists st i"
  shows "lost_of i (en_log (turn_step istep tn st)) = lost_of i (en_log st)"
proof (cases tn)
  case (TGo j ctx fname s sig)
  then show ?thesis by (cases j) (auto simp: turn_step.simps spawnTask_def with_cancel_def)
next
  case (TReport j)
  with assms show ?thesis
    by (auto simp: turn_step.simps report_turn_def lost_of_def split: option.splits prod.splits)
qed (auto simp: turn_step.simps script_turn_def goroutine_turn_def Let_def split: option.splits prod.splits)

text \<open>Until a task ends nothing about it is pending or reported.\<close>

definition quiet_task :: "nat \<Rightarrow> 's engine_state \<Rightarrow> bool" where
  "quiet_task i st \<longleftrightarrow>
     (task_exists st i \<longrightarrow> tk_phase (en_tasks st ! i) \<noteq> Ended \<longrightarrow> tk_report (en_tasks st ! i) = None \<and> lost_of i (en_log st) = [])
     \<and> (\<not> task_exists st i \<longrightarrow> lost_of i (en_log st) = [])"

lemma report_after:
  "tk_report (task_after istep tn st i t) =
     (if tn = TReport i then tk_report (fst (report_turn i (en_ctxs st) (en_now st) t))
      else if tn = TTask i then tk_report (fst (task_turn istep (en_ctxs st) (en_now st) (en_grace st) t))
      else tk_report t)"
  by (cases tn) (auto simp: task_after_def watchdog_def split: option.splits prod.splits)

text \<open>A task that a turn starts.\<close>

lemma fresh_task:
  assumes "\<not> task_exists st i" and "task_exists (turn_step istep tn st) i"
  shows "tk_report (en_tasks (turn_step istep tn st) ! i) = None \<and> tk_phase (en_tasks (turn_step istep tn st) ! i) \<noteq> Ended"
proof (cases "\<exists>j ctx fname s sig. tn = TGo j ctx fname s sig")
  case True
  then obtain j ctx fname s sig where tn: "tn = TGo j ctx fname s sig" by blast
  show ?thesis
    using assms unfolding tn
    by (cases j) (auto simp: turn_step.simps task_exists_def spawnTask_def with_cancel_def nth_append less_Suc_eq split: if_splits)
next
  case False
  with assms turn_same_tasks [OF False, of istep st] show ?thesis by (simp add: task_exists_def)
qed

lemma quiet_turn: "quiet_task i st \<Longrightarrow> quiet_task i (turn_step istep tn st)"
proof (cases "task_exists st i")
  case True
  assume q: "quiet_task i st"
  have "tk_phase (en_tasks st ! i) \<noteq> Ended" if "tk_phase (task_after istep tn st i (en_tasks st ! i)) \<noteq> Ended"
    using that phase_other [of tn i istep st "en_tasks st ! i"]
    by (cases "tn = TTask i") (auto simp: task_after_def task_turn_def)
  moreover have "tk_report (task_after istep tn st i (en_tasks st ! i)) = None"
    if "tk_phase (task_after istep tn st i (en_tasks st ! i)) \<noteq> Ended" "tk_report (en_tasks st ! i) = None"
    using that
  proof (cases "tn = TTask i")
    case True
    with that show ?thesis by (auto simp: task_after_def task_turn_def split: phase.splits sum.splits prod.splits)
  next
    case False
    with that show ?thesis by (simp add: report_after report_turn_def)
  qed
  ultimately show ?thesis
    using q True turn_view [OF True, of istep tn] turn_lost [OF True, of istep tn] by (auto simp: quiet_task_def report_turn_def)
next
  case False
  assume q: "quiet_task i st"
  with False turn_lost_new [OF False, of istep tn] have l: "lost_of i (en_log (turn_step istep tn st)) = []"
    by (simp add: quiet_task_def)
  with fresh_task [OF False, of istep tn] show ?thesis by (simp add: quiet_task_def)
qed

lemma schedule_quiet: "quiet_task i (schedule_run istep sched (engine_start grace cs) n)"
  by (induction n) (simp_all add: quiet_turn, simp add: quiet_task_def engine_start_def task_exists_def lost_of_def)

text \<open>The first timer turn after the grace period, among the turns before \<open>m\<close>.\<close>

definition report_due :: "'s interpreter \<Rightarrow> (nat \<Rightarrow> 's turn) \<Rightarrow> 's engine_state \<Rightarrow> nat \<Rightarrow> time \<Rightarrow> nat \<Rightarrow> nat \<Rightarrow> nat option" where
  "report_due istep sched st0 i due n m =
     find (\<lambda>k. sched k = TReport i \<and> due \<le> en_now (schedule_run istep sched st0 k)) [Suc n..<m]"

lemma report_due_Suc:
  "n < m \<Longrightarrow> report_due istep sched st0 i due n (Suc m) =
     (case report_due istep sched st0 i due n m of
        Some k \<Rightarrow> Some k
      | None \<Rightarrow> if sched m = TReport i \<and> due \<le> en_now (schedule_run istep sched st0 m) then Some m else None)"
proof -
  have "find P (xs @ [x]) = (case find P xs of Some k \<Rightarrow> Some k | None \<Rightarrow> if P x then Some x else None)" for P and xs :: "nat list" and x
    by (induction xs) auto
  then show "n < m \<Longrightarrow> ?thesis" by (simp add: report_due_def upt_Suc_append)
qed

definition report_at :: "nat \<Rightarrow> go_error \<Rightarrow> 's engine_state \<Rightarrow> log_record list" where
  "report_at i e st =
     (if p_awaited (tk_promise (en_tasks st ! i)) \<or> ctx_done (en_ctxs st) (tk_parent (en_tasks st ! i)) then []
      else [LogLost i e (en_now st)])"

text \<open>A rejection arms the timer; from then on the pending report or the one made is known.\<close>

lemma reject_turn:
  assumes "task_exists st i" and "tk_phase (en_tasks st ! i) = Rejecting e" and "quiet_task i st"
  shows "task_exists (turn_step istep (TTask i) st) i
    \<and> tk_report (en_tasks (turn_step istep (TTask i) st) ! i) = Some (en_now st + unobserved_grace (en_grace st), e)
    \<and> tk_phase (en_tasks (turn_step istep (TTask i) st) ! i) = Ended
    \<and> lost_of i (en_log (turn_step istep (TTask i) st)) = []"
  using assms turn_view [OF assms(1), of istep "TTask i"] turn_lost [OF assms(1), of istep "TTask i"]
  by (simp add: quiet_task_def task_after_def task_turn_def)

lemma report_run:
  fixes istep sched st0
  defines "run \<equiv> schedule_run istep sched st0"
  assumes "task_exists (run n) i" and "tk_phase (en_tasks (run n) ! i) = Rejecting e" and "sched n = TTask i"
    and "quiet_task i (run n)" and "n < m"
  shows "task_exists (run m) i \<and> tk_phase (en_tasks (run m) ! i) = Ended
    \<and> (case report_due istep sched st0 i (en_now (run n) + unobserved_grace (en_grace (run n))) n m of
         None \<Rightarrow> tk_report (en_tasks (run m) ! i) = Some (en_now (run n) + unobserved_grace (en_grace (run n)), e)
           \<and> lost_of i (en_log (run m)) = []
       | Some k \<Rightarrow> tk_report (en_tasks (run m) ! i) = None \<and> lost_of i (en_log (run m)) = report_at i e (run k))"
  using assms(6)
proof (induction m)
  case (Suc m)
  let ?due = "en_now (run n) + unobserved_grace (en_grace (run n))"
  have run: "run (Suc m) = turn_step istep (sched m) (run m)" by (simp add: run_def)
  show ?case
  proof (cases "m = n")
    case True
    then show ?thesis
      using reject_turn [OF assms(2,3,5), of istep] assms(4) run by (simp add: report_due_def)
  next
    case False
    with Suc have nm: "n < m" and ih: "task_exists (run m) i" "tk_phase (en_tasks (run m) ! i) = Ended"
      "case report_due istep sched st0 i ?due n m of
         None \<Rightarrow> tk_report (en_tasks (run m) ! i) = Some (?due, e) \<and> lost_of i (en_log (run m)) = []
       | Some k \<Rightarrow> tk_report (en_tasks (run m) ! i) = None \<and> lost_of i (en_log (run m)) = report_at i e (run k)"
      by simp_all
    have "tk_phase (task_after istep (sched m) (run m) i (en_tasks (run m) ! i)) = Ended"
      using ih(2) phase_other [of "sched m" i istep "run m" "en_tasks (run m) ! i"]
      by (cases "sched m = TTask i") (simp_all add: task_after_def task_turn_def)
    moreover have "tk_report (fst (task_turn istep (en_ctxs (run m)) (en_now (run m)) (en_grace (run m)) (en_tasks (run m) ! i)))
        = tk_report (en_tasks (run m) ! i)"
      using ih(2) by (simp add: task_turn_def)
    ultimately show ?thesis
      using ih(3) turn_view [OF ih(1), of istep "sched m"] turn_lost [OF ih(1), of istep "sched m"]
      unfolding run report_due_Suc [OF nm] run_def [symmetric]
      by (auto simp: report_after report_turn_def report_at_def reportIfUnobserved_def split: option.splits if_splits)
  qed
qed simp

text \<open>Nothing is pending or reported about a task that did not get as far as rejecting its promise.\<close>

lemma reported_failed:
  fixes istep sched grace cs
  defines "run \<equiv> schedule_run istep sched (engine_start grace cs)"
  shows "lost_of i (en_log (run m)) \<noteq> [] \<or> (task_exists (run m) i \<and> tk_report (en_tasks (run m) ! i) \<noteq> None)
    \<Longrightarrow> \<exists>n < m. \<exists>e. sched n = TTask i \<and> task_exists (run n) i \<and> tk_phase (en_tasks (run n) ! i) = Rejecting e"
proof (induction m)
  case 0
  then show ?case by (simp add: run_def engine_start_def task_exists_def lost_of_def)
next
  case (Suc m)
  have run: "run (Suc m) = turn_step istep (sched m) (run m)" by (simp add: run_def)
  show ?case
  proof (cases "lost_of i (en_log (run m)) \<noteq> [] \<or> (task_exists (run m) i \<and> tk_report (en_tasks (run m) ! i) \<noteq> None)")
    case True
    with Suc.IH show ?thesis by (meson less_Suc_eq)
  next
    case False
    note none = this
    show ?thesis
    proof (cases "task_exists (run m) i")
      case True
      with none have idle: "tk_report (en_tasks (run m) ! i) = None" "lost_of i (en_log (run m)) = []" by blast+
      with True turn_lost [OF True, of istep "sched m"] have "lost_of i (en_log (run (Suc m))) = []"
        by (simp add: run report_turn_def)
      with Suc.prems turn_view [OF True, of istep "sched m"] idle(1)
      have "sched m = TTask i \<and> (\<exists>e. tk_phase (en_tasks (run m) ! i) = Rejecting e)"
        by (auto simp: run report_after report_turn_def task_turn_def split: if_splits phase.splits sum.splits prod.splits)
      with True show ?thesis by (meson lessI)
    next
      case False
      have "quiet_task i (run (Suc m))" unfolding run_def by (rule schedule_quiet)
      with fresh_task [OF False, of istep "sched m"] Suc.prems show ?thesis
        unfolding run by (auto simp: quiet_task_def)
    qed
  qed
qed

lemma run_grace: "en_grace (schedule_run istep sched st0 n) = en_grace st0"
proof (induction n)
  case (Suc n)
  have "en_grace (turn_step istep tn st) = en_grace st" for tn and st :: "'a engine_state"
  proof (cases tn)
    case (TGo j ctx fname s sig)
    then show ?thesis by (cases j) (auto simp: turn_step.simps spawnTask_def with_cancel_def)
  qed (auto simp: turn_step.simps script_turn_def goroutine_turn_def Let_def split: option.splits prod.splits)
  with Suc show ?case by simp
qed simp

section \<open>The goroutine and the atomic task\<close>

text \<open>
  With no turn in between, what the goroutine does after its call is \<^const>\<open>task_done\<close>; a cancel that comes
  between the test of \<^verbatim>\<open>isCanceling\<close> and the rejection is too late to keep a join() from raising.
\<close>

lemma goroutine_task_done:
  fixes istep cs now grace
  assumes "tk_phase t = Returned r"
  defines "t2 \<equiv> fst (task_turn istep cs now grace (fst (task_turn istep cs now grace t)))"
  shows "tk_phase t2 = Ended \<and> tk_promise t2 = fst (task_done r (tk_promise t)) \<and> (tk_report t2 \<noteq> tk_report t \<longrightarrow> snd (task_done r (tk_promise t)))"
  using assms(1) unfolding t2_def by (cases r) (auto simp: task_turn_def task_done_def)

lemma late_cancel_raises:
  fixes istep cs now grace
  assumes "tk_phase t = Returned (Inl e)" and "\<not> p_canceling (tk_promise t)" and "\<not> p_settled (tk_promise t)"
    and "p_cancelFn (tk_promise t)"
  defines "t1 \<equiv> fst (task_turn istep cs now grace t)"
  shows "fst (await None False (tk_promise (fst (task_turn istep cs now grace (t1\<lparr>tk_promise := fst (doCancel (tk_promise t1))\<rparr>))))) = Some (Inl e)"
  using assms(1-4) unfolding t1_def
  by (simp add: task_turn_def doCancel_def reject_def settle_def await_def Let_def)

section \<open>What a task's promise comes to say\<close>

text \<open>The call of task \<open>i\<close> returns \<open>r\<close> at turn \<open>n\<close>.\<close>

definition returns_at :: "'s interpreter \<Rightarrow> (nat \<Rightarrow> 's turn) \<Rightarrow> 's engine_state \<Rightarrow> nat \<Rightarrow> nat \<Rightarrow> sl_value go_result \<Rightarrow> bool" where
  "returns_at istep sched st0 i n r \<longleftrightarrow>
     (let st = schedule_run istep sched st0 n; t = en_tasks st ! i
      in sched n = TTask i \<and> task_exists st i
         \<and> (\<exists>s. tk_phase t = Calling s
              \<and> snd (istep (th_cancelled (tk_thread t)) (ctx_done (en_ctxs st) (ctxOf (tk_thread t))) s) = Inr r))"

text \<open>The goroutine's next turn after \<open>n\<close>, in which it looks for a cancel, is \<open>k\<close>.\<close>

definition next_turn :: "(nat \<Rightarrow> 's turn) \<Rightarrow> nat \<Rightarrow> nat \<Rightarrow> nat \<Rightarrow> bool" where
  "next_turn sched i n k \<longleftrightarrow> n < k \<and> sched k = TTask i \<and> (\<forall>l. n < l \<and> l < k \<longrightarrow> sched l \<noteq> TTask i)"

definition cancelled_before :: "'s interpreter \<Rightarrow> (nat \<Rightarrow> 's turn) \<Rightarrow> 's engine_state \<Rightarrow> nat \<Rightarrow> nat \<Rightarrow> bool" where
  "cancelled_before istep sched st0 i n \<longleftrightarrow>
     (\<exists>c < n. sched c = TScript i CallCancel \<and> task_exists (schedule_run istep sched st0 c) i)"

definition task_result :: "bool \<Rightarrow> sl_value go_result \<Rightarrow> sl_value go_result" where
  "task_result cancelled r = (case r of Inr v \<Rightarrow> Inr v | Inl e \<Rightarrow> if cancelled then Inr SNone else Inl e)"

definition tells :: "'s interpreter \<Rightarrow> (nat \<Rightarrow> 's turn) \<Rightarrow> 's engine_state \<Rightarrow> nat \<Rightarrow> nat \<Rightarrow> 's task \<Rightarrow> bool" where
  "tells istep sched st0 i m t \<longleftrightarrow>
     (tk_phase t \<noteq> Ended \<longrightarrow> \<not> p_settled (tk_promise t)
        \<and> p_canceling (tk_promise t) = cancelled_before istep sched st0 i m)
     \<and> (case tk_phase t of
          Calling s \<Rightarrow> True
        | Returned r \<Rightarrow> \<exists>k < m. returns_at istep sched st0 i k r \<and> (\<forall>l. k < l \<and> l < m \<longrightarrow> sched l \<noteq> TTask i)
        | Rejecting e \<Rightarrow> \<exists>k j. returns_at istep sched st0 i k (Inl e) \<and> next_turn sched i k j \<and> j < m
            \<and> \<not> cancelled_before istep sched st0 i j
        | Ended \<Rightarrow> \<exists>k j r. returns_at istep sched st0 i k r \<and> next_turn sched i k j \<and> j < m
            \<and> fst (await None False (tk_promise t)) = Some (task_result (cancelled_before istep sched st0 i j) r))"

lemma cancelled_before_Suc:
  "cancelled_before istep sched st0 i (Suc m) \<longleftrightarrow> cancelled_before istep sched st0 i m
     \<or> (sched m = TScript i CallCancel \<and> task_exists (schedule_run istep sched st0 m) i)"
  by (auto simp: cancelled_before_def less_Suc_eq)

lemma await_settled: "p_settled p \<Longrightarrow> fst (await None False p) = Some (case p_err p of None \<Rightarrow> Inr (p_value p) | Some e \<Rightarrow> Inl e)"
  by (simp add: await_def Let_def split: option.splits)

text \<open>The goroutine's own turn.\<close>

lemma tells_goroutine:
  fixes istep sched st0 m i
  defines "run \<equiv> schedule_run istep sched st0"
  assumes "tells istep sched st0 i m (en_tasks (run m) ! i)" and "task_exists (run m) i" and "sched m = TTask i"
  shows "tells istep sched st0 i (Suc m)
    (fst (task_turn istep (en_ctxs (run m)) (en_now (run m)) (en_grace (run m)) (en_tasks (run m) ! i)))"
proof -
  let ?t = "en_tasks (run m) ! i"
  let ?u = "fst (task_turn istep (en_ctxs (run m)) (en_now (run m)) (en_grace (run m)) ?t)"
  have c: "cancelled_before istep sched st0 i (Suc m) = cancelled_before istep sched st0 i m"
    using assms(4) by (simp add: cancelled_before_Suc)
  show ?thesis
  proof (cases "tk_phase ?t")
    case (Calling s)
    have "returns_at istep sched st0 i m r"
      if "snd (istep (th_cancelled (tk_thread ?t)) (ctx_done (en_ctxs (run m)) (ctxOf (tk_thread ?t))) s) = Inr r" for r
      using that Calling assms(3,4) by (simp add: returns_at_def run_def Let_def)
    with Calling assms(2) c show ?thesis
      by (fastforce simp: tells_def task_turn_def split: prod.splits sum.splits)
  next
    case (Returned r)
    with assms(2) obtain k where k: "k < m" "returns_at istep sched st0 i k r" "\<forall>l. k < l \<and> l < m \<longrightarrow> sched l \<noteq> TTask i"
      and un: "\<not> p_settled (tk_promise ?t)" "p_canceling (tk_promise ?t) = cancelled_before istep sched st0 i m"
      by (auto simp: tells_def)
    have "next_turn sched i k m" using k(1,3) assms(4) by (simp add: next_turn_def)
    with k(2) Returned un c show ?thesis
      by (cases r) (fastforce simp: tells_def task_turn_def task_result_def resolve_def settle_def await_settled)+
  next
    case (Rejecting e)
    with assms(2) obtain k j where "returns_at istep sched st0 i k (Inl e)" "next_turn sched i k j" "j < m"
        "\<not> cancelled_before istep sched st0 i j" and "\<not> p_settled (tk_promise ?t)"
      by (auto simp: tells_def)
    then show ?thesis
      using Rejecting by (fastforce simp: tells_def task_turn_def task_result_def reject_def settle_def await_settled)
  next
    case Ended
    with assms(2) show ?thesis by (fastforce simp: tells_def task_turn_def)
  qed
qed

text \<open>A turn of anything else leaves the phase, and of the promise at most marks it.\<close>

lemma tells_other:
  assumes "tells istep sched st0 i m t" and "sched m \<noteq> TTask i" and "tk_phase u = tk_phase t"
    and "p_settled (tk_promise u) = p_settled (tk_promise t)"
    and "tk_phase t \<noteq> Ended \<Longrightarrow> p_canceling (tk_promise u) = cancelled_before istep sched st0 i (Suc m)"
    and "fst (await None False (tk_promise u)) = fst (await None False (tk_promise t))"
  shows "tells istep sched st0 i (Suc m) u"
  using assms cancelled_before_Suc [of istep sched st0 i m]
  by (cases "tk_phase t") (fastforce simp: tells_def less_Suc_eq)+

lemma fst_await_marks [simp]:
  "fst (await None False (p\<lparr>p_canceling := c\<rparr>)) = fst (await None False p)"
  "fst (await None False (snd (await None False p))) = fst (await None False p)"
  by (simp_all add: await_def Let_def split: option.splits)

lemma tells_turn:
  fixes istep sched st0 m i
  defines "run \<equiv> schedule_run istep sched st0"
  assumes "tells istep sched st0 i m (en_tasks (run m) ! i)" and "task_exists (run m) i" and "engine_ok (run m)"
    and "\<forall>v. sched m \<noteq> TScript i (CallSignal v)" and "\<forall>msg. sched m \<noteq> TScript i (CallReject msg)"
  shows "tells istep sched st0 i (Suc m) (task_after istep (sched m) (run m) i (en_tasks (run m) ! i))"
proof (cases "sched m = TTask i")
  case True
  with tells_goroutine [OF assms(2,3) [unfolded run_def] True] show ?thesis by (simp add: task_after_def run_def)
next
  case False
  let ?t = "en_tasks (run m) ! i"
  let ?u = "task_after istep (sched m) (run m) i ?t"
  have fn: "p_cancellable (tk_promise ?t)" "p_cancelFn (tk_promise ?t)"
    using assms(3,4) by (auto simp: engine_ok_def task_exists_def task_ok_def wf_promise_def)
  have "p_settled (tk_promise ?u) = p_settled (tk_promise ?t)
      \<and> p_canceling (tk_promise ?u) = (p_canceling (tk_promise ?t) \<or> sched m = TScript i CallCancel)
      \<and> fst (await None False (tk_promise ?u)) = fst (await None False (tk_promise ?t))"
  proof (cases "sched m")
    case (TScript j c)
    with fn assms(5,6) show ?thesis by (cases c) (auto simp: task_after_def promise_attr_def doCancel_def Let_def)
  next
    case (TAwait j)
    then show ?thesis by (auto simp: task_after_def) (simp_all add: await_def Let_def)
  qed (use False in \<open>auto simp: task_after_def watchdog_def report_turn_def split: option.splits prod.splits\<close>)
  moreover have "tk_phase ?t \<noteq> Ended \<Longrightarrow> p_canceling (tk_promise ?t) = cancelled_before istep sched st0 i m"
    using assms(2) by (simp add: tells_def)
  ultimately show ?thesis
    using tells_other [OF assms(2) False phase_other [OF False]] cancelled_before_Suc [of istep sched st0 i m] assms(3)
    by (auto simp: run_def)
qed

lemma fresh_task_calls:
  assumes "\<not> task_exists st i" and "task_exists (turn_step istep tn st) i"
  shows "\<exists>s sig. tk_phase (en_tasks (turn_step istep tn st) ! i) = Calling s
    \<and> tk_promise (en_tasks (turn_step istep tn st) ! i) = spawn_promise sig"
proof (cases "\<exists>j ctx fname s sig. tn = TGo j ctx fname s sig")
  case True
  then obtain j ctx fname s sig where tn: "tn = TGo j ctx fname s sig" by blast
  show ?thesis
    using assms unfolding tn
    by (cases j) (auto simp: turn_step.simps task_exists_def spawnTask_def with_cancel_def nth_append less_Suc_eq split: if_splits)
next
  case False
  with assms turn_same_tasks [OF False, of istep st] show ?thesis by (simp add: task_exists_def)
qed

lemma run_tells:
  fixes istep sched grace cs
  defines "start \<equiv> engine_start grace cs"
  defines "run \<equiv> schedule_run istep sched start"
  assumes "\<forall>n. \<forall>v. sched n \<noteq> TScript i (CallSignal v)" and "\<forall>n. \<forall>msg. sched n \<noteq> TScript i (CallReject msg)"
  shows "task_exists (run m) i \<Longrightarrow> tells istep sched start i m (en_tasks (run m) ! i)"
proof (induction m)
  case 0
  then show ?case by (simp add: run_def start_def engine_start_def task_exists_def)
next
  case (Suc m)
  have run: "run (Suc m) = turn_step istep (sched m) (run m)" by (simp add: run_def)
  show ?case
  proof (cases "task_exists (run m) i")
    case True
    with Suc.IH tells_turn [of istep sched start i m] assms(3,4) turn_view [OF True, of istep "sched m"]
      schedule_ok [of istep sched grace cs m]
    show ?thesis by (simp add: run_def start_def)
  next
    case False
    have "\<not> task_exists (run c) i" if "c \<le> m" for c
      using schedule_mono [OF that, of istep sched start] False by (auto simp: task_exists_def run_def)
    then have "\<not> cancelled_before istep sched start i (Suc m)"
      by (auto simp: cancelled_before_def less_Suc_eq_le run_def)
    with fresh_task_calls [OF False, of istep "sched m"] Suc.prems run show ?thesis
      by (auto simp: tells_def spawn_promise_def newPromise_def)
  qed
qed

text \<open>
  The promises of the tasks go through steps of the runtime of \<open>Tasks\<close>, so what holds of every run
  of that runtime holds of the engine.
\<close>

lemma engine_refines_runtime:
  "rt_steps [] (promises_of (schedule_run istep sched (engine_start grace cs) n))
   \<and> (\<forall>m \<ge> n. rt_steps (promises_of (schedule_run istep sched (engine_start grace cs) n))
        (promises_of (schedule_run istep sched (engine_start grace cs) m)))"
proof -
  have later: "rt_steps (promises_of (schedule_run istep sched (engine_start grace cs) n))
      (promises_of (schedule_run istep sched (engine_start grace cs) m))" if "n \<le> m" for n m
    using that
  proof (induction m rule: dec_induct)
    case (step m)
    have "rt_steps (promises_of (schedule_run istep sched (engine_start grace cs) m))
        (promises_of (schedule_run istep sched (engine_start grace cs) (Suc m)))"
      unfolding schedule_run.simps by (rule turn_runtime [OF schedule_ok])
    from rt_steps_trans [OF this step.IH] show ?case .
  qed (rule rt_refl)
  have "promises_of (schedule_run istep sched (engine_start grace cs) 0) = []"
    by (simp add: promises_of_def engine_start_def)
  with later [of 0 n] later show ?thesis by simp
qed

section \<open>Properties\<close>

text \<open>
  C15: cancel() ends a task, whatever it is doing. A script may cancel a go() task whose function is in an
  endless loop or a blocking builtin: in every schedule that keeps moving the task's goroutine and its
  watchdog, the watchdog interrupts the call, the goroutine ends, and a join() on the promise returns
  instead of raising (unless the script itself rejects the promise). The tasks started under it, then or
  later, end with it. It rests on the interpreter's promise to return from a cancelled call.
\<close>

theorem cancel_ends_task:
  fixes run and start :: "'s engine_state"
  assumes "start = engine_start grace cs" and "run = schedule_run istep sched start" and "prompt istep"
    and "sched n = TScript i CallCancel" and "task_exists (run n) i" and "in_call (en_tasks (run n) ! i)"
    and "\<not> p_settled (tk_promise (en_tasks (run n) ! i))"
    and "fair sched i" and "\<forall>m > n. \<forall>msg. sched m \<noteq> TScript i (CallReject msg)"
  shows "(\<exists>m > n. tk_phase (en_tasks (run m) ! i) = Ended \<and> (\<exists>v. fst (await None False (tk_promise (en_tasks (run m) ! i))) = Some (Inr v)))
    \<and> (\<forall>k > n. \<forall>j. task_exists (run k) j \<longrightarrow> fair sched j
          \<longrightarrow> descends (en_ctxs (run k)) (tk_ctx (en_tasks (run k) ! j)) (tk_ctx (en_tasks (run k) ! i))
          \<longrightarrow> (\<exists>m \<ge> k. tk_phase (en_tasks (run m) ! j) = Ended \<and> p_settled (tk_promise (en_tasks (run m) ! j))))"
proof -
  have run: "run m = schedule_run istep sched (engine_start grace cs) m" for m using assms(1,2) by simp
  have "run (Suc n) = turn_step istep (TScript i CallCancel) (run n)" using assms(2,4) by simp
  with script_cancel [OF schedule_ok, of istep sched grace cs n i istep] assms(5-7)
  have at: "doomed (run (Suc n)) i" "cancel_ok (en_tasks (run (Suc n)) ! i)" by (simp_all add: run)
  from doomed_ends [OF assms(8,3) at(1) [unfolded run]] obtain m where m: "m \<ge> Suc n" "ended i (run m)"
    unfolding run by blast
  have "task_exists (schedule_run istep sched (engine_start grace cs) (Suc n)) i"
    using at(1) by (simp add: doomed_def run)
  from cancel_ok_run [OF this at(2) [unfolded run] _ m(1)] assms(9) have "cancel_ok (en_tasks (run m) ! i)"
    by (simp add: run Suc_le_eq)
  with ended_settled [OF m(2)] have "\<exists>v. fst (await None False (tk_promise (en_tasks (run m) ! i))) = Some (Inr v)"
    by (simp add: cancel_ok_def cancel_inv_def await_def Let_def)
  with m have "\<exists>m > n. tk_phase (en_tasks (run m) ! i) = Ended \<and> (\<exists>v. fst (await None False (tk_promise (en_tasks (run m) ! i))) = Some (Inr v))"
    by (auto simp: ended_def Suc_le_eq)
  moreover have "\<exists>m \<ge> k. tk_phase (en_tasks (run m) ! j) = Ended \<and> p_settled (tk_promise (en_tasks (run m) ! j))"
    if "k > n" and "task_exists (run k) j" and "fair sched j"
      and "descends (en_ctxs (run k)) (tk_ctx (en_tasks (run k) ! j)) (tk_ctx (en_tasks (run k) ! i))" for k j
  proof -
    have "doomed (run k) j"
      using run_doomed_below [OF at(1) [unfolded run]] that unfolding run by (simp add: Suc_le_eq)
    from doomed_ends [OF that(3) assms(3) this [unfolded run]] ended_settled show ?thesis
      unfolding run by (fastforce simp: ended_def)
  qed
  ultimately show ?thesis by blast
qed

text \<open>A function that loops for ever unless its thread is cancelled.\<close>

definition endless :: "unit interpreter" where
  "endless why ctxd s = ([], case why of None \<Rightarrow> Inl () | Some w \<Rightarrow> Inr (Inl (External w)))"

definition cancel_sched :: "nat \<Rightarrow> unit turn" where
  "cancel_sched n =
     (if n = 0 then TGo None (Ctx 0) None () False
      else if n = 1 then TScript 0 CallCancel
      else if even n then TTask 0 else TWatchdog 0 True)"

lemma cancel_sched_fair: "fair cancel_sched 0"
proof -
  have "cancel_sched (2 * n + 2) = TTask 0 \<and> cancel_sched (2 * n + 3) = TWatchdog 0 True" for n
    by (simp add: cancel_sched_def)
  moreover have "n \<le> 2 * n + 2" "n \<le> 2 * n + 3" for n :: nat by simp_all
  ultimately show ?thesis unfolding fair_def by blast
qed

lemma endless_prompt: "prompt endless"
proof -
  have "unwinds_in endless 1 s" for s by (simp add: endless_def)
  then show ?thesis unfolding prompt_def by blast
qed

lemma cancel_ends_task_witness:
  "\<exists>m > 1. tk_phase (en_tasks (schedule_run endless cancel_sched (engine_start 0 [(Background, False)]) m) ! 0) = Ended"
proof -
  let ?run = "schedule_run endless cancel_sched (engine_start 0 [(Background, False)])"
  have one: "?run 1 = spawnTask (Ctx 0) None () False (engine_start 0 [(Background, False)])"
    by (simp add: cancel_sched_def turn_step.simps)
  have st: "task_exists (?run 1) 0" "in_call (en_tasks (?run 1) ! 0)" "\<not> p_settled (tk_promise (en_tasks (?run 1) ! 0))"
    unfolding one by (simp_all add: task_exists_def spawnTask_def with_cancel_def engine_start_def in_call_def spawn_promise_def newPromise_def)
  have "cancel_sched 1 = TScript 0 CallCancel" by (simp add: cancel_sched_def)
  moreover have "\<forall>m > 1. \<forall>msg. cancel_sched m \<noteq> TScript 0 (CallReject msg)" by (simp add: cancel_sched_def)
  ultimately show ?thesis
    using cancel_ends_task [OF refl refl endless_prompt _ st cancel_sched_fair] by blast
qed

text \<open>
  C16: the failure of a task that nobody listens to is reported exactly once. When a task's function
  returned an error and no cancel() had been called on the promise when the task looked, the first
  time its timer runs after the grace period decides: the error is logged then, unless something has
  waited for the promise or the context that started the task has ended; before that and after it
  nothing is logged about the task. A task that does not get that far (its function returned a value,
  or it was cancelled in time) is never reported. The error is the function's, whatever the promise
  says by then: a task stopped with signal() or reject() has been settled by that call, and the error
  it unwinds with is logged all the same.
\<close>

theorem lost_failure_reported:
  fixes run and start :: "'s engine_state"
  assumes "start = engine_start grace cs" and "run = schedule_run istep sched start"
  shows "(\<forall>n < m. \<forall>e. sched n = TTask i \<and> task_exists (run n) i \<and> tk_phase (en_tasks (run n) ! i) = Rejecting e \<longrightarrow>
      lost_of i (en_log (run m)) =
        (case report_due istep sched start i (en_now (run n) + unobserved_grace grace) n m of
           None \<Rightarrow> [] | Some k \<Rightarrow> report_at i e (run k)))
    \<and> (lost_of i (en_log (run m)) \<noteq> [] \<longrightarrow>
        (\<exists>n < m. \<exists>e. sched n = TTask i \<and> task_exists (run n) i \<and> tk_phase (en_tasks (run n) ! i) = Rejecting e))"
proof -
  have run: "run m = schedule_run istep sched (engine_start grace cs) m" for m using assms by simp
  have q: "quiet_task i (schedule_run istep sched (engine_start grace cs) n)" for n by (rule schedule_quiet)
  have g: "en_grace (schedule_run istep sched (engine_start grace cs) n) = grace" for n by (simp add: run_grace engine_start_def)
  have "lost_of i (en_log (run m)) =
      (case report_due istep sched start i (en_now (run n) + unobserved_grace grace) n m of
         None \<Rightarrow> [] | Some k \<Rightarrow> report_at i e (run k))"
    if "n < m" "sched n = TTask i" "task_exists (run n) i" "tk_phase (en_tasks (run n) ! i) = Rejecting e" for n e
    using report_run [OF that(3,4) [unfolded run] that(2) q that(1)] unfolding run assms(1) g
    by (auto split: option.splits)
  with reported_failed [of i istep sched grace cs m] show ?thesis unfolding run by blast
qed

text \<open>A task that fails at once and that nothing waits for: one report, when the default grace has passed.\<close>

definition fails_at_once :: "unit interpreter" where
  "fails_at_once why ctxd s = ([], Inr (Inl (External ''connection fails_at_once'')))"

definition lost_sched :: "nat \<Rightarrow> unit turn" where
  "lost_sched n =
     (if n = 0 then TGo None (Ctx 0) None () False else if n < 4 then TTask 0
      else if n = 4 then TTick 5000000000 else TReport 0)"

lemma lost_failure_reported_witness:
  "lost_of 0 (en_log (schedule_run fails_at_once lost_sched (engine_start 0 [(Background, False)]) 7))
     = [LogLost 0 (External ''connection fails_at_once'') (5 * second)]"
proof -
  let ?start = "engine_start 0 [(Background, False)]"
  let ?run = "schedule_run fails_at_once lost_sched ?start"
  have fails: "lost_sched 3 = TTask 0 \<and> task_exists (?run 3) 0 \<and> tk_phase (en_tasks (?run 3) ! 0) = Rejecting (External ''connection fails_at_once'')"
    by code_simp
  have due: "report_due fails_at_once lost_sched ?start 0 (en_now (?run 3) + unobserved_grace 0) 3 7 = Some 5"
    by code_simp
  have "report_at 0 (External ''connection fails_at_once'') (?run 5) = [LogLost 0 (External ''connection fails_at_once'') (5 * second)]"
    by code_simp
  then show ?thesis
    using lost_failure_reported [OF refl refl, where m = 7, THEN conjunct1, rule_format, OF _ fails] unfolding due by simp
qed

text \<open>
  C20: what a task's promise comes to say. A go() task whose promise nobody settles by signal() or
  reject() (as a script can, if it is signallable, and a shutdown does to the promise of main())
  leaves its promise unsettled as long as its goroutine runs; when it has ended, its function had
  returned, and join() answers what the function returned: its value, or its error, unless the
  function failed and a cancel() was called before the goroutine's next turn, when it looks for one;
  then join() answers None. A cancel does not take back a value.
\<close>

theorem task_outcome:
  fixes run and start :: "'s engine_state"
  assumes "start = engine_start grace cs" and "run = schedule_run istep sched start"
    and "\<forall>n. \<forall>v. sched n \<noteq> TScript i (CallSignal v)" and "\<forall>n. \<forall>msg. sched n \<noteq> TScript i (CallReject msg)"
    and "task_exists (run m) i"
  shows "(tk_phase (en_tasks (run m) ! i) \<noteq> Ended \<longrightarrow> \<not> p_settled (tk_promise (en_tasks (run m) ! i)))
    \<and> (tk_phase (en_tasks (run m) ! i) = Ended \<longrightarrow>
        (\<exists>k j r. returns_at istep sched start i k r \<and> next_turn sched i k j \<and> j < m
          \<and> fst (await None False (tk_promise (en_tasks (run m) ! i)))
            = Some (case r of Inr v \<Rightarrow> Inr v
                    | Inl e \<Rightarrow> if cancelled_before istep sched start i j then Inr SNone else Inl e)))"
proof -
  have "tells istep sched start i m (en_tasks (run m) ! i)"
    using run_tells [OF assms(3,4)] assms(1,2,5) by simp
  then show ?thesis by (auto simp: tells_def task_result_def)
qed

lemma task_outcome_witness:
  "\<exists>e. fst (await None False (tk_promise (en_tasks (schedule_run fails_at_once lost_sched (engine_start 0 [(Background, False)]) 7) ! 0)))
     = Some (Inl e)"
proof -
  let ?start = "engine_start 0 [(Background, False)]"
  let ?run = "schedule_run fails_at_once lost_sched ?start"
  have ex: "task_exists (?run 7) 0" and en: "tk_phase (en_tasks (?run 7) ! 0) = Ended" by code_simp+
  have q: "\<forall>n. \<forall>v. lost_sched n \<noteq> TScript 0 (CallSignal v)" "\<forall>n. \<forall>msg. lost_sched n \<noteq> TScript 0 (CallReject msg)"
    by (simp_all add: lost_sched_def)
  obtain k j r where k: "returns_at fails_at_once lost_sched ?start 0 k r"
      "fst (await None False (tk_promise (en_tasks (?run 7) ! 0)))
        = Some (case r of Inr v \<Rightarrow> Inr v | Inl e \<Rightarrow> if cancelled_before fails_at_once lost_sched ?start 0 j then Inr SNone else Inl e)"
    using task_outcome [OF refl refl q ex] en by blast
  have "\<exists>e. r = Inl e" using k(1) by (auto simp: returns_at_def Let_def fails_at_once_def)
  moreover have "\<not> cancelled_before fails_at_once lost_sched ?start 0 j"
    by (simp add: cancelled_before_def lost_sched_def)
  ultimately show ?thesis using k(2) by auto
qed

text \<open>
  A task that is stopped with signal() rather than cancel() is reported as failed: the signal
  settles the promise and cancels the task's context without marking the cancel as intended, so
  the error the task unwinds with goes to the report although the promise was resolved.
\<close>

definition signal_sched :: "nat \<Rightarrow> unit turn" where
  "signal_sched n =
     (case n of 0 \<Rightarrow> TGo None (Ctx 0) None () True | Suc 0 \<Rightarrow> TScript 0 (CallSignal (SBool True))
      | Suc (Suc 0) \<Rightarrow> TWatchdog 0 True
      | _ \<Rightarrow> if n < 6 then TTask 0 else if n = 6 then TTick 5000000000 else TReport 0)"

lemma signalled_task_reported:
  "p_err (tk_promise (en_tasks (schedule_run endless signal_sched (engine_start 0 [(Background, False)]) 8) ! 0)) = None
   \<and> lost_of 0 (en_log (schedule_run endless signal_sched (engine_start 0 [(Background, False)]) 8))
      = [LogLost 0 (External ''context canceled'') (5 * second)]"
  by code_simp

end
