(* ===== verification/Endpoints.thy ===== *)
theory Endpoints
  imports Cloud_Providers
begin

text \<open>
  Where the SDK clients send their requests: the middleware of internal/provider/aws/endpoint.go that
  keeps Cloud Map requests on an overridden endpoint, and the endpoint options of the Google
  clients (\<^verbatim>\<open>clientOptions\<close> of internal/provider/gcp/provider.go). The middleware stack and the
  request context belong to the SDK: they are the locale \<open>smithy_stack\<close>.
\<close>

section \<open>The middleware\<close>

type_synonym ('ctx, 'i, 'o) handler = "'ctx \<Rightarrow> 'i \<Rightarrow> 'o"

record ('ctx, 'i, 'o) middleware =
  mw_id :: string
  mw_handle :: "'ctx \<Rightarrow> 'i \<Rightarrow> ('ctx, 'i, 'o) handler \<Rightarrow> 'o"

text \<open>\<open>set_immutable\<close> is \<^verbatim>\<open>SetHostnameImmutable\<close>, \<open>add_after\<close> is \<^verbatim>\<open>Initialize.Add(m, After)\<close>.\<close>

definition HandleInitialize :: "('ctx \<Rightarrow> bool \<Rightarrow> 'ctx) \<Rightarrow> 'ctx \<Rightarrow> 'i \<Rightarrow> ('ctx, 'i, 'o) handler \<Rightarrow> 'o" where
  "HandleInitialize set_immutable ctx inp next_handler = next_handler (set_immutable ctx True) inp"

definition disableEndpointPrefix :: "('ctx \<Rightarrow> bool \<Rightarrow> 'ctx) \<Rightarrow> ('ctx, 'i, 'o) middleware" where
  "disableEndpointPrefix set_immutable =
     \<lparr>mw_id = ''disableEndpointPrefix'', mw_handle = HandleInitialize set_immutable\<rparr>"

definition AddDisableEndpointPrefix ::
  "('ctx \<Rightarrow> bool \<Rightarrow> 'ctx) \<Rightarrow> (('ctx, 'i, 'o) middleware \<Rightarrow> 'st \<Rightarrow> 'st go_result) \<Rightarrow> 'st \<Rightarrow> 'st go_result" where
  "AddDisableEndpointPrefix set_immutable add_after stack = add_after (disableEndpointPrefix set_immutable) stack"

text \<open>The options \<^verbatim>\<open>Discovery\<close> gives its client, applied to the stack of each of its requests.\<close>

fun apply_options :: "('st \<Rightarrow> 'st go_result) list \<Rightarrow> 'st \<Rightarrow> 'st go_result" where
  "apply_options [] stack = Inr stack"
| "apply_options (f # fs) stack = (case f stack of Inl e \<Rightarrow> Inl e | Inr stack' \<Rightarrow> apply_options fs stack')"

definition discovery_options ::
  "('ctx \<Rightarrow> bool \<Rightarrow> 'ctx) \<Rightarrow> (('ctx, 'i, 'o) middleware \<Rightarrow> 'st \<Rightarrow> 'st go_result) \<Rightarrow> aws_provider \<Rightarrow> ('st \<Rightarrow> 'st go_result) list" where
  "discovery_options set_immutable add_after p =
     (if cm_host_immutable (aws_Discovery p) then [AddDisableEndpointPrefix set_immutable add_after] else [])"

section \<open>What the SDK promises\<close>

text \<open>
  Adding a middleware after the others puts it last: it runs when they have, with the handler
  they would have reached. A request runs through the stack to the handler that sends it, and the
  host it is sent to is the configured one, with the operation's prefix unless the context forbids it.
\<close>

locale smithy_stack =
  fixes set_immutable :: "'ctx \<Rightarrow> bool \<Rightarrow> 'ctx"
    and immutable :: "'ctx \<Rightarrow> bool"
    and add_after :: "('ctx, 'i, 'o) middleware \<Rightarrow> 'st \<Rightarrow> 'st go_result"
    and run_stack :: "'st \<Rightarrow> 'ctx \<Rightarrow> 'i \<Rightarrow> ('ctx, 'i, 'o) handler \<Rightarrow> 'o"
    and sound :: "'st \<Rightarrow> bool"
  assumes immutable_set: "immutable (set_immutable ctx b) = b"
    and added_last: "add_after m stack = Inr stack' \<Longrightarrow>
      run_stack stack' ctx inp h = run_stack stack ctx inp (\<lambda>ctx inp. mw_handle m ctx inp h)"
    and reaches: "sound stack \<Longrightarrow> \<exists>ctx' inp'. \<forall>h. run_stack stack ctx inp h = h ctx' inp' \<and> immutable ctx' = immutable ctx"
begin

lemma override_applies:
  assumes "sound stack" and "apply_options (discovery_options set_immutable add_after p) stack = Inr stack'"
    and "\<not> immutable ctx"
  shows "\<exists>ctx' inp'. run_stack stack' ctx inp h = h ctx' inp' \<and> (immutable ctx' \<longleftrightarrow> ap_endpoint p \<noteq> None)"
proof -
  obtain ctx1 inp1 where r: "\<And>h. run_stack stack ctx inp h = h ctx1 inp1 \<and> immutable ctx1 = immutable ctx"
    using reaches [OF assms(1), of ctx inp] by blast
  show ?thesis
  proof (cases "ap_endpoint p")
    case None
    with assms(2,3) r show ?thesis by (auto simp: discovery_options_def aws_Discovery_def)
  next
    case (Some url)
    with assms(2) have "add_after (disableEndpointPrefix set_immutable) stack = Inr stack'"
      by (auto simp: discovery_options_def aws_Discovery_def AddDisableEndpointPrefix_def split: sum.splits)
    from added_last [OF this] r have "run_stack stack' ctx inp h = h (set_immutable ctx1 True) inp1"
      by (simp add: disableEndpointPrefix_def HandleInitialize_def)
    with Some immutable_set show ?thesis by blast
  qed
qed

end

text \<open>A reference stack: a list of middleware, run from the first to the last, with no identifier twice.\<close>

primrec ref_run :: "('ctx, 'i, 'o) middleware list \<Rightarrow> 'ctx \<Rightarrow> 'i \<Rightarrow> ('ctx, 'i, 'o) handler \<Rightarrow> 'o" where
  "ref_run [] ctx inp h = h ctx inp"
| "ref_run (m # ms) ctx inp h = mw_handle m ctx inp (\<lambda>ctx inp. ref_run ms ctx inp h)"

definition ref_add :: "('ctx, 'i, 'o) middleware \<Rightarrow> ('ctx, 'i, 'o) middleware list \<Rightarrow> (('ctx, 'i, 'o) middleware list) go_result" where
  "ref_add m ms = (if mw_id m \<in> set (map mw_id ms) then Inl (External ''already exists'') else Inr (ms @ [m]))"

lemma ref_run_snoc: "ref_run (ms @ [m]) ctx inp h = ref_run ms ctx inp (\<lambda>ctx inp. mw_handle m ctx inp h)"
  by (induction ms arbitrary: ctx inp) simp_all

interpretation refstack: smithy_stack "\<lambda>_ b. b" "\<lambda>b. b" ref_add ref_run "\<lambda>ms. ms = []"
proof unfold_locales
  fix m :: "(bool, 'a, 'b) middleware" and stack stack' ctx inp h
  assume "ref_add m stack = Inr stack'"
  then show "ref_run stack' ctx inp h = ref_run stack ctx inp (\<lambda>ctx inp. mw_handle m ctx inp h)"
    by (auto simp: ref_add_def ref_run_snoc split: if_splits)
qed auto

section \<open>The host of a request\<close>

text \<open>Cloud Map serves DiscoverInstances under a host prefix.\<close>

definition request_host :: "('ctx \<Rightarrow> bool) \<Rightarrow> string \<Rightarrow> string \<Rightarrow> ('ctx, 'i, string) handler" where
  "request_host immutable hostPrefix host ctx inp = (if immutable ctx then host else hostPrefix @ host)"

text \<open>
  An endpoint override reaches the emulator. With AWS_ENDPOINT_URL set, a discovery request goes to
  the host it names; without, to the host with the operation's prefix, as the service wants it.
\<close>

lemma override_reaches_host:
  assumes "smithy_stack set_immutable immutable add_after run_stack sound" and "sound stack"
    and "apply_options (discovery_options set_immutable add_after p) stack = Inr stack'" and "\<not> immutable ctx"
  shows "run_stack stack' ctx inp (request_host immutable hostPrefix host)
    = (if ap_endpoint p \<noteq> None then host else hostPrefix @ host)"
  using smithy_stack.override_applies [OF assms, of inp "request_host immutable hostPrefix host"]
  by (auto simp: request_host_def)

lemma override_reaches_host_example:
  "ap_endpoint p = Some url \<Longrightarrow>
   (case apply_options (discovery_options (\<lambda>_ b. b) ref_add p) [] of
      Inl _ \<Rightarrow> []
    | Inr stack' \<Rightarrow> ref_run stack' False () (request_host (\<lambda>b. b) ''data-'' ''localhost:4566'')) = ''localhost:4566''"
  by (simp add: discovery_options_def aws_Discovery_def AddDisableEndpointPrefix_def ref_add_def disableEndpointPrefix_def
      HandleInitialize_def request_host_def)

section \<open>The Google clients' endpoints\<close>

text \<open>
  Every client a Google provider has built was built with the options of its service: the
  override without credentials when one is configured, and nothing otherwise.
\<close>

definition service_options :: "gcp_provider \<Rightarrow> sdk_client \<Rightarrow> client_option list" where
  "service_options p c =
     (case c of
        LookupClient \<Rightarrow> gcp_clientOptions p ''endpoint.servicedirectory''
      | RegistrationClient \<Rightarrow> gcp_clientOptions p ''endpoint.servicedirectory''
      | StorageClient \<Rightarrow> gcp_clientOptions p ''endpoint.storage''
      | FirestoreClient \<Rightarrow> [])"

definition clients_ok :: "gcp_provider \<Rightarrow> bool" where
  "clients_ok p \<longleftrightarrow> (\<forall>(c, opts) \<in> set (gp_clients p). opts = service_options p c)"

lemma service_options_clients [simp]: "service_options (p\<lparr>gp_clients := x\<rparr>) = service_options p"
  by (rule ext) (simp add: service_options_def gcp_clientOptions_def split: sdk_client.split)

lemma clients_ok_cong: "gp_cfg p' = gp_cfg p \<Longrightarrow> gp_clients p' = gp_clients p \<Longrightarrow> clients_ok p' = clients_ok p"
  by (simp add: clients_ok_def service_options_def gcp_clientOptions_def cong: sdk_client.case_cong)

lemma clients_ok_Self: "gcp_Self fetched p = (r, p') \<Longrightarrow> clients_ok p' = clients_ok p"
  using gcp_Self_memo clients_ok_cong by blast

lemma clients_ok_project: "gcp_project env fetched p = (r, p') \<Longrightarrow> clients_ok p' = clients_ok p"
  using clients_ok_Self by (auto simp: gcp_project_def Let_def split: if_splits option.splits prod.splits)

lemma clients_ok_location: "gcp_location fetched p = (r, p') \<Longrightarrow> clients_ok p' = clients_ok p"
  using clients_ok_Self by (auto simp: gcp_location_def Let_def split: if_splits sum.splits prod.splits)

lemma clients_ok_ensure:
  "ensure_client mk what opts c p = (r, p') \<Longrightarrow> opts = service_options p c \<Longrightarrow> clients_ok p \<Longrightarrow> clients_ok p'"
  by (auto simp: ensure_client_def clients_ok_def split: if_splits option.splits)

lemma clients_ok_Discovery: "gcp_Discovery mk env fetched p = (r, p') \<Longrightarrow> clients_ok p \<Longrightarrow> clients_ok p'"
  by (auto simp: gcp_Discovery_def service_options_def split: prod.splits sum.splits option.splits
      dest!: clients_ok_project clients_ok_location dest: clients_ok_ensure)

lemma clients_ok_Registrar: "gcp_Registrar mk env fetched p = (r, p') \<Longrightarrow> clients_ok p \<Longrightarrow> clients_ok p'"
  by (auto simp: gcp_Registrar_def service_options_def split: prod.splits sum.splits option.splits
      dest!: clients_ok_project clients_ok_location clients_ok_Self dest: clients_ok_ensure)

lemma clients_ok_KV: "gcp_KV rfc3339 mk env hostname fetched p = (r, p') \<Longrightarrow> clients_ok p \<Longrightarrow> clients_ok p'"
  by (auto simp: gcp_KV_def gcp_gcsKV_def gcp_firestoreKV_def service_options_def Let_def
      split: if_splits prod.splits sum.splits option.splits
      dest!: clients_ok_project clients_ok_location clients_ok_Self dest: clients_ok_ensure)

lemma clients_ok_call: "gcp_call rfc3339 mk env hostname a fetched p = (kv, p') \<Longrightarrow> clients_ok p \<Longrightarrow> clients_ok p'"
  by (cases a)
    (auto simp: gcp_call_def apfst_def map_prod_def clients_ok_Self [OF surjective_pairing]
      intro: clients_ok_Discovery [OF surjective_pairing] clients_ok_Registrar [OF surjective_pairing]
      dest: clients_ok_KV split: prod.splits)

text \<open>Whatever is asked of a provider that was just opened, in whatever order.\<close>

lemma endpoint_overrides:
  assumes "gcp_open cfg = Inr p" and "handed_out (gcp_call rfc3339 mk env hostname) cs p = (kvs, p')"
  shows "clients_ok p'"
proof -
  have "clients_ok p" using assms(1) by (auto simp: gcp_open_def clients_ok_def Let_def split: option.splits if_splits)
  with assms(2) show ?thesis
  proof (induction cs arbitrary: p kvs)
    case (Cons c cs)
    obtain a fetched where c: "c = (a, fetched)" by (cases c)
    obtain kv q where q: "gcp_call rfc3339 mk env hostname a fetched p = (kv, q)" by fastforce
    obtain kvs' where "handed_out (gcp_call rfc3339 mk env hostname) cs q = (kvs', p')"
      using Cons.prems(1) c q by (auto split: prod.splits)
    with Cons.IH clients_ok_call [OF q Cons.prems(2)] show ?case by blast
  qed simp
qed

end
