(* ===== verification/If_Addr.thy ===== *)
theory If_Addr
  imports Net_IP
begin

text \<open>
  The ifaddr() builtin (\<^verbatim>\<open>lookupIfAddr\<close> and \<^verbatim>\<open>ifAddr\<close> of starlark_builtins.go): the address of the
  first usable interface inside a prefix, remembered per prefix. The host's interfaces are an
  argument: what \<^verbatim>\<open>net.Interfaces\<close> returned and, per interface, what \<^verbatim>\<open>Addrs\<close> returned.
\<close>

section \<open>Definitions\<close>

record net_interface =
  if_up :: bool
  if_ptp :: bool
  if_loopback :: bool
  if_addrs :: "(string list) go_result"

definition skipped :: "net_interface \<Rightarrow> bool" where
  "skipped i = (\<not> if_up i \<or> if_ptp i \<or> if_loopback i)"

fun scan_addrs :: "ip_addr \<times> nat \<Rightarrow> string list \<Rightarrow> (string go_result) option" where
  "scan_addrs pfx [] = None"
| "scan_addrs pfx (a # as) =
     (case parse_prefix a of
        None \<Rightarrow> Some (Inl (Wrapf ''failed to parse address: %w'' [] (External a)))
      | Some (ip, _) \<Rightarrow> if contains pfx ip then Some (Inr (addr_string ip)) else scan_addrs pfx as)"

fun scan_interfaces :: "ip_addr \<times> nat \<Rightarrow> net_interface list \<Rightarrow> (string go_result) option" where
  "scan_interfaces pfx [] = None"
| "scan_interfaces pfx (i # is) =
     (if skipped i then scan_interfaces pfx is
      else case if_addrs i of
             Inl e \<Rightarrow> Some (Inl (Wrapf ''failed to get interface addresses: %w'' [] e))
           | Inr as \<Rightarrow> (case scan_addrs pfx as of Some r \<Rightarrow> Some r | None \<Rightarrow> scan_interfaces pfx is))"

definition lookupIfAddr :: "(net_interface list) go_result \<Rightarrow> string \<Rightarrow> string go_result" where
  "lookupIfAddr interfaces cidr =
     (case parse_prefix cidr of
        None \<Rightarrow> Inl (Wrapf ''failed to parse CIDR: %w'' [] (External cidr))
      | Some pfx \<Rightarrow>
          (case interfaces of
             Inl e \<Rightarrow> Inl (Wrapf ''failed to get interfaces: %w'' [] e)
           | Inr is \<Rightarrow>
               (case scan_interfaces pfx is of
                  Some r \<Rightarrow> r
                | None \<Rightarrow> Inl (Errorf ''no applicable interfaces found for %s'' [cidr]))))"

text \<open>Under the lock: a hit answers from the cache, only a success is remembered.\<close>

definition ifAddr ::
  "(net_interface list) go_result \<Rightarrow> string \<Rightarrow> (string \<rightharpoonup> string) \<Rightarrow> string go_result \<times> (string \<rightharpoonup> string)" where
  "ifAddr interfaces cidr cache =
     (case cache cidr of
        Some v \<Rightarrow> (Inr v, cache)
      | None \<Rightarrow>
          (case lookupIfAddr interfaces cidr of
             Inl e \<Rightarrow> (Inl e, cache)
           | Inr v \<Rightarrow> (Inr v, cache(cidr \<mapsto> v))))"

section \<open>Lemmas\<close>

lemma parse_prefix_bits: "parse_prefix s = Some (ip, n) \<Longrightarrow> n \<le> bit_len ip"
  by (auto simp: parse_prefix_def split: option.splits prod.splits if_splits)

text \<open>An address of the list that is not in the prefix.\<close>

definition passed_over :: "ip_addr \<times> nat \<Rightarrow> string \<Rightarrow> bool" where
  "passed_over pfx a = (case parse_prefix a of None \<Rightarrow> False | Some (ip, _) \<Rightarrow> \<not> contains pfx ip)"

lemma scan_addrs_None: "scan_addrs pfx as = None \<longleftrightarrow> list_all (passed_over pfx) as"
  by (induction as) (auto simp: passed_over_def split: option.splits)

lemma scan_addrs_found:
  "scan_addrs pfx as = Some (Inr v) \<Longrightarrow>
   \<exists>pre a ip n post. as = pre @ a # post \<and> list_all (passed_over pfx) pre \<and> parse_prefix a = Some (ip, n)
     \<and> contains pfx ip \<and> v = addr_string ip"
proof (induction as)
  case (Cons a as)
  show ?case
  proof (cases "passed_over pfx a")
    case True
    with Cons.prems have "scan_addrs pfx as = Some (Inr v)" by (auto simp: passed_over_def split: option.splits)
    from Cons.IH [OF this] obtain pre b ip n post where
      "as = pre @ b # post" "list_all (passed_over pfx) pre" "parse_prefix b = Some (ip, n)" "contains pfx ip" "v = addr_string ip"
      by blast
    with True show ?thesis by (intro exI [of _ "a # pre"]) auto
  next
    case False
    with Cons.prems show ?thesis
      by (intro exI [of _ "[]"] exI [of _ a]) (auto simp: passed_over_def split: option.splits if_splits)
  qed
qed simp

text \<open>The addresses that may be picked, in order: those of up, broadcast, non-loopback interfaces.\<close>

definition candidate_addrs :: "net_interface list \<Rightarrow> string list" where
  "candidate_addrs is = concat (map (\<lambda>i. case if_addrs i of Inl _ \<Rightarrow> [] | Inr as \<Rightarrow> as) (filter (\<lambda>i. if_up i \<and> \<not> if_ptp i \<and> \<not> if_loopback i) is))"

lemma candidate_addrs_Cons:
  "candidate_addrs (i # is) =
     (if skipped i then [] else case if_addrs i of Inl _ \<Rightarrow> [] | Inr as \<Rightarrow> as) @ candidate_addrs is"
  by (auto simp: candidate_addrs_def skipped_def)

lemma scan_interfaces_None: "scan_interfaces pfx is = None \<Longrightarrow> list_all (passed_over pfx) (candidate_addrs is)"
  by (induction "is")
    (auto simp: candidate_addrs_Cons scan_addrs_None split: if_splits sum.splits option.splits, simp add: candidate_addrs_def)

lemma scan_interfaces_found:
  "scan_interfaces pfx is = Some (Inr v) \<Longrightarrow>
   \<exists>pre a ip n post. candidate_addrs is = pre @ a # post \<and> list_all (passed_over pfx) pre \<and> parse_prefix a = Some (ip, n)
     \<and> contains pfx ip \<and> v = addr_string ip"
proof (induction "is")
  case (Cons i "is")
  show ?case
  proof (cases "skipped i")
    case True
    with Cons show ?thesis by (simp add: candidate_addrs_Cons)
  next
    case False
    with Cons.prems obtain as where as: "if_addrs i = Inr as" by (cases "if_addrs i") auto
    show ?thesis
    proof (cases "scan_addrs pfx as")
      case None
      with Cons as False obtain pre a ip n post where
        "candidate_addrs is = pre @ a # post" "list_all (passed_over pfx) pre" "parse_prefix a = Some (ip, n)" "contains pfx ip"
        "v = addr_string ip" by auto
      with None as False show ?thesis
        by (intro exI [of _ "as @ pre"] exI [of _ a] exI [of _ ip]) (simp add: candidate_addrs_Cons scan_addrs_None)
    next
      case (Some r)
      with Cons.prems as False have "scan_addrs pfx as = Some (Inr v)" by simp
      from scan_addrs_found [OF this] obtain pre a ip n post where
        "as = pre @ a # post" "list_all (passed_over pfx) pre" "parse_prefix a = Some (ip, n)" "contains pfx ip" "v = addr_string ip"
        by blast
      with as False show ?thesis
        by (intro exI [of _ pre] exI [of _ a] exI [of _ ip]) (simp add: candidate_addrs_Cons)
    qed
  qed
qed simp

text \<open>The answers of a sequence of calls, the interfaces changing under them.\<close>

fun ifaddr_calls :: "((net_interface list) go_result \<times> string) list \<Rightarrow> (string \<rightharpoonup> string) \<Rightarrow> (string go_result) list" where
  "ifaddr_calls [] cache = []"
| "ifaddr_calls ((is, cidr) # cs) cache = (case ifAddr is cidr cache of (r, cache) \<Rightarrow> r # ifaddr_calls cs cache)"

lemma ifAddr_keeps: "cache c = Some v \<Longrightarrow> snd (ifAddr is cidr cache) c = Some v"
  by (auto simp: ifAddr_def split: option.splits sum.splits)

lemma ifaddr_calls_cached:
  "cache c = Some v \<Longrightarrow> i < length cs \<Longrightarrow> snd (cs ! i) = c \<Longrightarrow> ifaddr_calls cs cache ! i = Inr v"
proof (induction cs arbitrary: cache i)
  case (Cons x cs)
  obtain ifs cidr where x: "x = (ifs, cidr)" by (cases x)
  obtain r cache' where r: "ifAddr ifs cidr cache = (r, cache')" by (cases "ifAddr ifs cidr cache")
  show ?case
  proof (cases i)
    case 0
    with Cons.prems x r show ?thesis by (simp add: ifAddr_def)
  next
    case (Suc j)
    have "cache' c = Some v" using ifAddr_keeps [of cache c v ifs cidr] Cons.prems(1) r by simp
    with Cons x r Suc show ?thesis by simp
  qed
qed simp

section \<open>Properties\<close>

text \<open>
  C31: which address ifaddr() picks. It is an address of an interface that is up, not
  point-to-point and not loopback, of the family of the given prefix, and its leading bits are
  those of the prefix, as many as the prefix says; every usable address before it, in the order
  the host lists them, is outside the prefix. It is answered without its own prefix length, and
  an IPv4 answer reads back as that address.
\<close>

theorem ifaddr_selects:
  assumes "lookupIfAddr (Inr is) cidr = Inr v"
  shows "\<exists>p n pre a ip m post. parse_prefix cidr = Some (p, n) \<and> n \<le> bit_len p
    \<and> candidate_addrs is = pre @ a # post \<and> parse_prefix a = Some (ip, m) \<and> v = addr_string ip
    \<and> bit_len ip = bit_len p \<and> (\<forall>i < bit_len p. bit_len p - n \<le> i \<longrightarrow> addr_bit p i = addr_bit ip i)
    \<and> list_all (passed_over (p, n)) pre \<and> (\<forall>w. ip = IP4 w \<longrightarrow> parse_addr v = Some ip)"
proof -
  from assms obtain p n where pn: "parse_prefix cidr = Some (p, n)" and s: "scan_interfaces (p, n) is = Some (Inr v)"
    by (auto simp: lookupIfAddr_def split: option.splits)
  from scan_interfaces_found [OF s] obtain pre a ip m post where
    "candidate_addrs is = pre @ a # post" "list_all (passed_over (p, n)) pre" "parse_prefix a = Some (ip, m)"
    "contains (p, n) ip" "v = addr_string ip" by blast
  moreover have "\<forall>w. ip = IP4 w \<longrightarrow> parse_addr (addr_string ip) = Some ip" by (simp add: parse_format4)
  ultimately show ?thesis using pn parse_prefix_bits [OF pn] contains_iff [OF parse_prefix_bits [OF pn]] by blast
qed

definition demo_interfaces :: "net_interface list" where
  "demo_interfaces =
     [\<lparr>if_up = True, if_ptp = False, if_loopback = True, if_addrs = Inr [''127.0.0.1/8'']\<rparr>,
      \<lparr>if_up = True, if_ptp = False, if_loopback = False, if_addrs = Inr [''192.168.0.5/16'', ''10.1.2.3/24'']\<rparr>]"

lemma demo_prefixes:
  "parse_prefix ''10.0.0.0/8'' = Some (IP4 0x0A000000, 8)"
  "parse_prefix ''10.1.2.3/24'' = Some (IP4 0x0A010203, 24)"
  "parse_prefix ''192.168.0.5/16'' = Some (IP4 0xC0A80005, 16)"
  by (simp_all add: parse_prefix_def parse_addr_def is_ip_mark_def parse_ipv4_def ipv4_field_def parse_nat_def digit_val_def
      parse_int64_def word_of_bytes_def)

lemma demo_lookup: "lookupIfAddr (Inr demo_interfaces) ''10.0.0.0/8'' = Inr (addr_string (IP4 0x0A010203))"
  by (simp add: lookupIfAddr_def demo_interfaces_def demo_prefixes skipped_def)

lemma ifaddr_selects_witness:
  "\<exists>p n pre a ip m post. parse_prefix ''10.0.0.0/8'' = Some (p, n)
    \<and> candidate_addrs demo_interfaces = pre @ a # post \<and> parse_prefix a = Some (ip, m)
    \<and> addr_string (IP4 0x0A010203) = addr_string ip \<and> bit_len ip = bit_len p \<and> list_all (passed_over (p, n)) pre"
  using ifaddr_selects [OF demo_lookup] by blast

lemma scan_addrs_error: "scan_addrs pfx as = Some (Inl e) \<Longrightarrow> e \<noteq> Errorf f xs"
  by (induction as) (auto split: option.splits if_splits)

lemma scan_interfaces_error: "scan_interfaces pfx is = Some (Inl e) \<Longrightarrow> e \<noteq> Errorf f xs"
  by (induction "is") (auto dest: scan_addrs_error split: if_splits sum.splits option.splits)

text \<open>It says that there is none only when no usable address is in the prefix.\<close>

lemma ifaddr_none:
  assumes "lookupIfAddr (Inr is) cidr = Inl (Errorf ''no applicable interfaces found for %s'' [cidr])"
    and "parse_prefix cidr = Some pfx"
  shows "list_all (passed_over pfx) (candidate_addrs is)"
  using assms by (auto simp: lookupIfAddr_def dest: scan_interfaces_error intro!: scan_interfaces_None split: option.splits)

text \<open>Once an address has been found for a prefix, every later call answers it, whatever the host's interfaces do.\<close>

lemma ifaddr_stable:
  assumes "fst (ifAddr is cidr cache) = Inr v" and "i < length cs" and "snd (cs ! i) = cidr"
  shows "ifaddr_calls cs (snd (ifAddr is cidr cache)) ! i = Inr v"
proof (rule ifaddr_calls_cached [OF _ assms(2,3)])
  show "snd (ifAddr is cidr cache) cidr = Some v"
    using assms(1) by (auto simp: ifAddr_def split: option.splits sum.splits)
qed

end
