(* ===== verification/Go_Search.thy ===== *)
theory Go_Search
  imports Go_Strings "HOL-Library.Sublist"
begin

text \<open>
  Substring search of Go's \<^verbatim>\<open>strings\<close> package: \<^verbatim>\<open>Index\<close> and \<^verbatim>\<open>LastIndex\<close> as the split at an
  occurrence, \<^verbatim>\<open>ReplaceAll\<close>, \<^verbatim>\<open>Fields\<close>, the scanning of an integer by \<^verbatim>\<open>fmt.Sscanf\<close> and the
  quoting of the \<^verbatim>\<open>%q\<close> verb, with the lemmas that locate a marker whose first character does not recur
  in it.
\<close>

section \<open>Definitions\<close>

text \<open>The text before and after the first occurrence.\<close>

fun sub_cut :: "string \<Rightarrow> string \<Rightarrow> (string \<times> string) option" where
  "sub_cut pat [] = (if pat = [] then Some ([], []) else None)"
| "sub_cut pat (c # cs) =
     (if prefix pat (c # cs) then Some ([], drop (length pat) (c # cs))
      else map_option (\<lambda>(a, b). (c # a, b)) (sub_cut pat cs))"

text \<open>The text before and after the last occurrence.\<close>

fun sub_rcut :: "string \<Rightarrow> string \<Rightarrow> (string \<times> string) option" where
  "sub_rcut pat [] = (if pat = [] then Some ([], []) else None)"
| "sub_rcut pat (c # cs) =
     (case sub_rcut pat cs of
        Some (a, b) \<Rightarrow> Some (c # a, b)
      | None \<Rightarrow> if prefix pat (c # cs) then Some ([], drop (length pat) (c # cs)) else None)"

text \<open>\<^verbatim>\<open>strings.ReplaceAll\<close> for a pattern that is not empty.\<close>

function replace_all :: "string \<Rightarrow> string \<Rightarrow> string \<Rightarrow> string" where
  "replace_all old new [] = []"
| "replace_all old new (c # cs) =
     (if old \<noteq> [] \<and> prefix old (c # cs) then new @ replace_all old new (drop (length old) (c # cs))
      else c # replace_all old new cs)"
  by pat_completeness auto
termination
  by (relation "measure (\<lambda>(old, new, s). length s)") auto

declare replace_all.simps(2) [simp del]

text \<open>\<^verbatim>\<open>strings.Fields\<close>: the runs of characters that are not white space.\<close>

fun fields_acc :: "string \<Rightarrow> string \<Rightarrow> string list" where
  "fields_acc w [] = (if w = [] then [] else [rev w])"
| "fields_acc w (c # cs) =
     (if is_space c then (if w = [] then fields_acc [] cs else rev w # fields_acc [] cs)
      else fields_acc (c # w) cs)"

definition fields :: "string \<Rightarrow> string list" where
  "fields s = fields_acc [] s"

text \<open>
  \<^verbatim>\<open>%d\<close> of \<^verbatim>\<open>fmt.Sscanf\<close> into an \<^verbatim>\<open>int\<close>: blanks but no newline, a sign, digits, and a value that
  fits; what follows the digits is left alone.
\<close>

definition is_digit :: "char \<Rightarrow> bool" where
  "is_digit c = (digit_val c \<noteq> None)"

definition sscanf_int :: "string \<Rightarrow> int option" where
  "sscanf_int s =
     (let s = dropWhile (\<lambda>c. is_space c \<and> c \<noteq> CHR 0x0A) s;
          (sgn, body) = (case s of [] \<Rightarrow> ([], [])
             | c # cs \<Rightarrow> if c = CHR ''-'' \<or> c = CHR ''+'' then ([c], cs) else ([], s))
      in parse_int64 (sgn @ takeWhile is_digit body))"

text \<open>\<^verbatim>\<open>strconv.Quote\<close> (the \<^verbatim>\<open>%q\<close> verb) of ASCII text.\<close>

definition hex_digit :: "nat \<Rightarrow> char" where
  "hex_digit d = (if d < 10 then char_of (48 + d) else char_of (87 + d))"

definition quote_char :: "char \<Rightarrow> string" where
  "quote_char c =
     (let n = of_char c :: nat
      in if c = CHR 0x22 then [CHR 0x5C, CHR 0x22]
         else if c = CHR 0x5C then [CHR 0x5C, CHR 0x5C]
         else case map_of [(7, CHR ''a''), (8, CHR ''b''), (12, CHR ''f''), (10, CHR ''n''), (13, CHR ''r''),
                           (9, CHR ''t''), (11, CHR ''v'')] n of
                Some x \<Rightarrow> [CHR 0x5C, x]
              | None \<Rightarrow> if n < 32 \<or> n = 127 then [CHR 0x5C, CHR ''x'', hex_digit (n div 16), hex_digit (n mod 16)] else [c])"

definition go_quote :: "string \<Rightarrow> string" where
  "go_quote s = [CHR 0x22] @ concat (map quote_char s) @ [CHR 0x22]"

section \<open>Markers\<close>

lemma sub_cut_SomeD: "sub_cut pat s = Some (a, b) \<Longrightarrow> s = a @ pat @ b"
proof (induction s arbitrary: a)
  case Nil
  then show ?case by (simp split: if_splits)
next
  case (Cons c cs)
  show ?case
  proof (cases "prefix pat (c # cs)")
    case True
    with Cons.prems show ?thesis by (auto simp: prefix_def)
  next
    case False
    with Cons show ?thesis by auto
  qed
qed

lemma sub_cut_None_iff: "sub_cut pat s = None \<longleftrightarrow> \<not> sublist pat s"
proof (induction s)
  case Nil
  then show ?case by simp
next
  case (Cons c cs)
  then show ?case by (simp add: sublist_Cons_right)
qed

text \<open>A marker does not overlap itself when its first character occurs in it only once.\<close>

lemma sub_cut_marker:
  assumes "c \<notin> set p" and "\<not> sublist (c # p) a"
  shows "sub_cut (c # p) (a @ (c # p) @ b) = Some (a, b)"
  using assms(2)
proof (induction a)
  case Nil
  then show ?case by simp
next
  case (Cons x a)
  have "\<not> prefix (c # p) (x # a @ (c # p) @ b)"
  proof
    assume pre: "prefix (c # p) (x # a @ (c # p) @ b)"
    then have x: "x = c" and p: "prefix p (a @ c # p @ b)" by auto
    show False
    proof (cases "length p \<le> length a")
      case True
      with p have "prefix p a" using prefix_length_prefix [of p "a @ c # p @ b" a] by simp
      with x have "prefix (c # p) (x # a)" by simp
      with Cons.prems show False using prefix_imp_sublist by blast
    next
      case False
      with p have "prefix (a @ [c]) p"
        using prefix_length_prefix [of "a @ [c]" "a @ c # p @ b" p] by simp
      with assms(1) show False by (auto simp: prefix_def)
    qed
  qed
  moreover have "\<not> sublist (c # p) a" using Cons.prems by (simp add: sublist_Cons_right)
  ultimately show ?case using Cons.IH by simp
qed

lemma sub_rcut_None: "\<not> sublist pat s \<Longrightarrow> sub_rcut pat s = None"
  by (induction s) (auto simp: sublist_Cons_right split: option.splits)

lemma not_sublist_fresh: "c \<notin> set s \<Longrightarrow> \<not> sublist (c # p) s"
  by (auto simp: sublist_def)

lemma sub_rcut_marker:
  assumes "c \<notin> set p" and "c \<notin> set b"
  shows "sub_rcut (c # p) (a @ (c # p) @ b) = Some (a, b)"
proof (induction a)
  case Nil
  have "sub_rcut (c # p) (p @ b) = None"
    using assms by (intro sub_rcut_None not_sublist_fresh) simp
  then show ?case by simp
next
  case (Cons x a)
  then show ?case by simp
qed

text \<open>An occurrence does not straddle a character the marker lacks, and starts where its first character is.\<close>

lemma prefix_separated: "x \<notin> set pat \<Longrightarrow> prefix pat (a @ x # b) \<longleftrightarrow> prefix pat a"
proof (induction pat arbitrary: a)
  case (Cons c pat)
  then show ?case by (cases a) auto
qed simp

lemma sublist_separated:
  assumes "x \<notin> set pat" and "pat \<noteq> []"
  shows "sublist pat (a @ x # b) \<longleftrightarrow> sublist pat a \<or> sublist pat b"
proof (induction a)
  case Nil
  have "\<not> prefix pat (x # b)" using assms by (cases pat) auto
  with assms(2) show ?case by (simp add: sublist_Cons_right)
next
  case (Cons y a)
  with prefix_separated [OF assms(1), of "y # a" b] show ?case by (simp add: sublist_Cons_right)
qed

lemma sublist_first: "c \<notin> set s \<Longrightarrow> sublist (c # p) (c # s) \<longleftrightarrow> prefix p s"
  by (simp add: sublist_Cons_right not_sublist_fresh)

end
