(* ===== verification/Help.thy ===== *)
theory Help
  imports Cloud_Providers Go_Search
begin

text \<open>
  The text of -provider-help (\<^verbatim>\<open>providerHelp\<close> of flags.go): the providers of this build with the
  options each accepts, and the providers it only knows of. \<open>options\<close> is a factory's \<^verbatim>\<open>Options\<close>.
\<close>

section \<open>Definitions\<close>

text \<open>The \<^verbatim>\<open>%-26s\<close> verb.\<close>

definition pad_right :: "nat \<Rightarrow> string \<Rightarrow> string" where
  "pad_right n s = s @ replicate (n - length s) (CHR '' '')"

abbreviation newline :: string where "newline \<equiv> [CHR 0x0A]"

definition option_line :: "option_spec \<Rightarrow> string" where
  "option_line o' =
     ''  '' @ pad_right 26 (os_key o') @ '' '' @ os_doc o'
       @ (if os_default o' \<noteq> [] then '' (default '' @ go_quote (os_default o') @ '')'' else []) @ newline"

definition provider_section :: "environment \<Rightarrow> ('f \<Rightarrow> option_spec list) \<Rightarrow> 'f registry \<Rightarrow> string \<Rightarrow> string" where
  "provider_section env options r name =
     (case Select env r name of
        Inl _ \<Rightarrow> []
      | Inr f \<Rightarrow>
          newline @ name @ newline
            @ (if options f = [] then ''  (no -provider-opt keys)'' @ newline else concat (map option_line (options f))))"

definition help_available :: "'f registry \<Rightarrow> string" where
  "help_available r = ''providers compiled into this muster: '' @ join_with '', '' (Available r) @ newline"

definition help_missing :: "'f registry \<Rightarrow> string" where
  "help_missing r =
     (let missing = filter (\<lambda>n. n \<notin> set (Available r)) (Known r)
      in if missing \<noteq> []
         then ''known but not built in (pass -provider <name> to see how to get one): '' @ join_with '', '' missing @ newline
         else [])"

definition providerHelp :: "environment \<Rightarrow> ('f \<Rightarrow> option_spec list) \<Rightarrow> 'f registry \<Rightarrow> string" where
  "providerHelp env options r =
     help_available r @ help_missing r @ concat (map (provider_section env options r) (Available r))"

section \<open>Lemmas\<close>

lemma sublist_concat: "sublist x y \<Longrightarrow> y \<in> set ys \<Longrightarrow> sublist x (concat ys)"
proof (induction ys)
  case (Cons z ys)
  show ?case
  proof (cases "y = z")
    case True
    with Cons.prems(1) show ?thesis by (auto intro: sublist_order.order_trans [OF _ sublist_append_rightI])
  next
    case False
    with Cons show ?thesis by (auto intro: sublist_order.order_trans [OF _ sublist_append_leftI])
  qed
qed simp

lemma sublist_join: "x \<in> set xs \<Longrightarrow> sublist x (join_with sep xs)"
proof (induction sep xs rule: join_with.induct)
  case (3 sep x' y ys)
  show ?case
  proof (cases "x = x'")
    case True
    then show ?thesis by (simp add: sublist_append_rightI)
  next
    case False
    with 3 have "sublist x (join_with sep (y # ys))" by simp
    from sublist_order.order_trans [OF this sublist_append_leftI [of _ "x' @ sep"]] show ?thesis by simp
  qed
qed auto

lemma sublist_within: "sublist x y \<Longrightarrow> sublist x (a @ y @ b)"
  using sublist_order.order_trans [of x y "a @ y @ b"] by (simp add: sublist_appendI)

lemma sublist_last: "sublist x y \<Longrightarrow> sublist x (a @ y)"
  using sublist_within [of x y a "[]"] by simp

lemma select_registered:
  "distinct (map fst (factories r)) \<Longrightarrow> (name, f) \<in> set (factories r) \<Longrightarrow> name \<noteq> [] \<Longrightarrow> Select env r name = Inr f"
  by (simp add: Select_def select_named_def)

lemma section_shown:
  assumes "name \<in> set (Available r)" and "sublist x (provider_section env options r name)"
  shows "sublist x (providerHelp env options r)"
proof -
  have "sublist x (concat (map (provider_section env options r) (Available r)))"
    by (rule sublist_concat [OF assms(2)]) (use assms(1) in simp)
  from sublist_last [OF sublist_last [OF this]] show ?thesis unfolding providerHelp_def .
qed

section \<open>Properties\<close>

text \<open>
  The help is complete. It names every provider of the build, shows for each all its option
  keys with their documentation and default, and names every provider this build only knows of,
  so that no setting has to be guessed.
\<close>

theorem provider_help_complete:
  assumes "registry_ok r" and "list_all (\<lambda>(n, f). n \<noteq> []) (factories r)"
  shows "((name, f) \<in> set (factories r) \<longrightarrow> sublist (newline @ name @ newline) (providerHelp env options r)
      \<and> (\<forall>o' \<in> set (options f). sublist (option_line o') (providerHelp env options r)))
    \<and> (name \<in> set (Known r) \<longrightarrow> sublist name (providerHelp env options r))"
proof (intro conjI impI ballI)
  assume f: "(name, f) \<in> set (factories r)"
  with assms have sel: "Select env r name = Inr f"
    by (intro select_registered) (auto simp: registry_ok_def list_all_iff)
  have av: "name \<in> set (Available r)" using f by (force simp: Available_def sortedKeys_def)
  show "sublist (newline @ name @ newline) (providerHelp env options r)"
    by (rule section_shown [OF av]) (simp add: provider_section_def sel)
  show "sublist (option_line o') (providerHelp env options r)" if "o' \<in> set (options f)" for o'
  proof (rule section_shown [OF av])
    have "sublist (option_line o') (concat (map option_line (options f)))"
      by (rule sublist_concat [of _ "option_line o'"]) (use that in simp_all)
    moreover have "options f \<noteq> []" using that by auto
    ultimately show "sublist (option_line o') (provider_section env options r name)"
      using sublist_last [of "option_line o'" _ "newline @ name @ newline"] by (simp add: provider_section_def sel)
  qed
next
  assume k: "name \<in> set (Known r)"
  show "sublist name (providerHelp env options r)"
  proof (cases "name \<in> set (Available r)")
    case True
    then have "sublist name (help_available r)"
      unfolding help_available_def by (intro sublist_within sublist_join)
    then show ?thesis using sublist_within [of name "help_available r" "[]"] by (simp add: providerHelp_def)
  next
    case False
    with k have m: "name \<in> set (filter (\<lambda>n. n \<notin> set (Available r)) (Known r))" by simp
    then have "filter (\<lambda>n. n \<notin> set (Available r)) (Known r) \<noteq> []" by force
    then have "sublist name (help_missing r)"
      unfolding help_missing_def Let_def if_P [OF \<open>_ \<noteq> []\<close>] by (intro sublist_within sublist_join m)
    then show ?thesis unfolding providerHelp_def by (rule sublist_within)
  qed
qed

definition demo_registry :: "(option_spec list) registry" where
  "demo_registry = \<lparr>factories = [(''gcp'', gcp_options), (''mem'', [])], absent = [(''aws'', rebuild_aws)]\<rparr>"

lemma provider_help_complete_witness:
  "sublist (option_line \<lparr>os_key = ''kv.backend'', os_default = ''gcs'',
       os_doc = ''kv store backend: gcs (a bucket) or firestore (a collection)''\<rparr>) (providerHelp (\<lambda>_. []) id demo_registry)
   \<and> sublist ''aws'' (providerHelp (\<lambda>_. []) id demo_registry)"
proof -
  have ok: "registry_ok demo_registry" "list_all (\<lambda>(n, f). n \<noteq> []) (factories demo_registry)"
    by (simp_all add: demo_registry_def registry_ok_def)
  have "(''gcp'', gcp_options) \<in> set (factories demo_registry)" by (simp add: demo_registry_def)
  moreover have "\<lparr>os_key = ''kv.backend'', os_default = ''gcs'',
       os_doc = ''kv store backend: gcs (a bucket) or firestore (a collection)''\<rparr> \<in> set (id gcp_options)"
    by (simp add: gcp_options_def)
  moreover have "''aws'' \<in> set (Known demo_registry)" by (simp add: Known_def sortedKeys_def demo_registry_def)
  ultimately show ?thesis
    using provider_help_complete [OF ok, of "''gcp''" gcp_options "\<lambda>_. []" id]
      provider_help_complete [OF ok, of "''aws''" gcp_options "\<lambda>_. []" id] by blast
qed

end
