(* ===== verification/Predeclared.thy ===== *)
theory Predeclared
  imports Builtins If_Addr Tasks
begin

text \<open>
  The environment a script sees (\<^verbatim>\<open>buildPredeclared\<close> of starlark_builtins.go) and the builtins it
  defines in place: ifaddr(), path_exists(), read_file(), log(), un(), sleep() and run(). The
  host (files, clock, processes) is an argument of each.
\<close>

section \<open>Builtins\<close>

definition ifaddr_builtin ::
  "(net_interface list) go_result \<Rightarrow> string \<Rightarrow> (string \<rightharpoonup> string) \<Rightarrow> sl_value go_result \<times> (string \<rightharpoonup> string)" where
  "ifaddr_builtin interfaces cidr cache =
     (case ifAddr interfaces cidr cache of
        (Inl e, cache) \<Rightarrow> (Inl e, cache)
      | (Inr v, cache) \<Rightarrow> (Inr (SString v), cache))"

definition path_exists :: "(string \<Rightarrow> go_error option) \<Rightarrow> string \<Rightarrow> sl_value" where
  "path_exists stat path = SBool (stat path = None)"

text \<open>\<open>open_file\<close> is the error of opening, or the contents with the error that ends the reading, if any.\<close>

definition maxSize :: nat where
  "maxSize = 2 ^ 20"

definition read_file :: "(string \<Rightarrow> (string \<times> go_error option) go_result) \<Rightarrow> string \<Rightarrow> sl_value go_result" where
  "read_file open_file path =
     (case open_file path of
        Inl e \<Rightarrow> Inl e
      | Inr (contents, err) \<Rightarrow>
          (if length contents < maxSize \<and> err \<noteq> None then Inl (the err) else Inr (SString (take maxSize contents))))"

text \<open>The message and the attributes of the log record; what is not a string is logged as an empty one.\<close>

definition log_builtin ::
  "sl_value list \<Rightarrow> (sl_value \<times> sl_value) list \<Rightarrow> (sl_value \<times> (string \<times> (string \<times> string) list)) go_result" where
  "log_builtin args kwargs =
     (case args of
        [] \<Rightarrow> Inl (Errorf ''log: message argument required'' [])
      | m # _ \<Rightarrow> Inr (SNone, str_or_empty m, map (\<lambda>(k, v). (str_or_empty k, str_or_empty v)) kwargs))"

text \<open>un(): the check it returns, given what calling a function on arguments returns.\<close>

definition un_builtin ::
  "(sl_value \<Rightarrow> sl_value list \<Rightarrow> sl_value go_result) \<Rightarrow> sl_value list \<Rightarrow> (string \<times> sl_value) list
    \<Rightarrow> (unit \<Rightarrow> sl_value go_result) go_result" where
  "un_builtin call args kwargs =
     (if kwargs \<noteq> [] then Inl (Errorf ''un: unexpected keyword argument'' [])
      else case args of
             [] \<Rightarrow> Inl (Errorf ''un: requires a function'' [])
           | fn # callArgs \<Rightarrow>
               if \<not> callable fn then Inl (Errorf ''un: first argument must be a function, got %s'' [sl_type fn])
               else Inr (\<lambda>_. un_check (call fn callArgs)))"

text \<open>\<open>ctx\<close>: the context's error if it was done before the time was up.\<close>

definition sleep_builtin :: "(int \<Rightarrow> int) \<Rightarrow> sl_value \<Rightarrow> go_error option \<Rightarrow> sl_value go_result" where
  "sleep_builtin inexact durVal ctx =
     (case unpack_duration inexact durVal of
        Inl e \<Rightarrow> Inl e
      | Inr d \<Rightarrow> (case ctx of Some e \<Rightarrow> Inl e | None \<Rightarrow> Inr SNone))"

definition run_builtin ::
  "(string \<Rightarrow> string list \<Rightarrow> string \<times> string \<times> wait_err option) \<Rightarrow> sl_value \<Rightarrow> sl_value go_result" where
  "run_builtin exec argvVal =
     (case starlark_to_strings argvVal of
        Inl e \<Rightarrow> Inl e
      | Inr [] \<Rightarrow> Inl (Errorf ''run: argv must be non-empty'' [])
      | Inr (cmd # args) \<Rightarrow>
          (case exec cmd args of
             (stdout, stderr, runErr) \<Rightarrow>
               Inr (SStruct [(''code'', SInt (exit_code_of runErr)), (''stdout'', SString stdout), (''stderr'', SString stderr)])))"

section \<open>The environment\<close>

text \<open>The names in the order the code adds them, and the three values that are not functions.\<close>

datatype predeclared = PValue sl_value | PModule | PBuiltin

definition buildPredeclared :: "('kv, 'disc, 'fleet, 'reg) engine_deps \<Rightarrow> (string \<times> predeclared) list" where
  "buildPredeclared deps =
     [(''SELF'', PValue (self_to_starlark (dp_self deps))),
      (''PROVIDER'', PValue (SString (dp_provider deps))),
      (''COMMAND'', PValue (strings_to_starlark (dp_command deps))),
      (''json'', PModule)]
     @ map (\<lambda>n. (n, PBuiltin))
         ([''instances'', ''ifaddr'', ''path_exists'', ''read_file'', ''env'']
          @ [''kv_put_if_absent'', ''kv_compare_and_swap'', ''kv_get'', ''kv_delete'', ''kv_renew'']
          @ [''http_ok'', ''tcp_ok'', ''grpc_ok'', ''http_request''] @ [''all_replicas_running'']
          @ [''register'', ''deregister'']
          @ [''go'', ''poll'', ''promise'', ''join'', ''select'', ''any_true''] @ [''spawn'']
          @ [''log'', ''rand'', ''randint'', ''un'', ''sleep''] @ (if dp_allowRun deps then [''run''] else []))"

text \<open>rand() takes no argument; \<open>draw\<close> is \<^verbatim>\<open>rand.Float64()\<close>, a number from zero up to but not including one.\<close>

definition rand_builtin :: "rat \<Rightarrow> sl_value list \<Rightarrow> (string \<times> sl_value) list \<Rightarrow> sl_value go_result" where
  "rand_builtin draw args kwargs =
     (if args \<noteq> [] \<or> kwargs \<noteq> [] then Inl (External ''rand: unexpected arguments'') else Inr (SFloat draw))"

section \<open>Lemmas\<close>

text \<open>A script's \<^verbatim>\<open>sleep(rand() * n)\<close> waits for less than \<open>n\<close> seconds and never for a negative time.\<close>

lemma rand_jitter:
  assumes "0 \<le> draw" and "draw < 1" and "0 < n"
  shows "\<exists>x d. rand_builtin draw [] [] = Inr (SFloat x) \<and> unpack_duration inexact (SFloat (x * of_nat n)) = Inr d
    \<and> 0 \<le> d \<and> d < int n * second"
proof -
  have "0 \<le> draw * of_nat n * of_int second" using assms(1) by simp
  moreover have "draw * of_nat n * of_int second < of_int (int n * second)"
    using assms(2,3) by simp
  ultimately show ?thesis
    using assms by (auto simp: rand_builtin_def Let_def floor_less_iff)
qed

text \<open>A script can start commands of its own only if the operator allowed it; nothing is defined twice.\<close>

lemma predeclared_names:
  "distinct (map fst (buildPredeclared deps)) \<and> (''run'' \<in> set (map fst (buildPredeclared deps)) \<longleftrightarrow> dp_allowRun deps)"
  by (simp add: buildPredeclared_def)

lemma read_file_bounded: "read_file open_file path = Inr v \<Longrightarrow> \<exists>s. v = SString s \<and> length s \<le> maxSize"
  by (auto simp: read_file_def split: sum.splits if_splits)

text \<open>A file longer than the limit is cut off without an error.\<close>

lemma read_file_truncates:
  assumes "maxSize < length contents"
  shows "\<exists>s. read_file (\<lambda>_. Inr (contents, None)) path = Inr (SString s) \<and> s \<noteq> contents"
proof -
  have "length (take maxSize contents) \<noteq> length contents" using assms by simp
  then have "take maxSize contents \<noteq> contents" by metis
  then show ?thesis by (simp add: read_file_def)
qed

end
