(* ===== verification/Execout.thy ===== *)
theory Execout
  imports Go_Search
begin

text \<open>
  The transcript reader of the end-to-end suites (e2e/internal/execout/execout.go): a remote
  command fences its output, a pseudo-terminal rewrites the newlines on the way back, and
  \<^verbatim>\<open>Parse\<close> recovers the output and the exit status from the session's transcript.
\<close>

section \<open>The reader\<close>

abbreviation LF :: char where "LF \<equiv> CHR 0x0A"
abbreviation CR :: char where "CR \<equiv> CHR 0x0D"

definition fence_begin :: string where "fence_begin = ''MUSTER_E2E_BEGIN''"
definition fence_end :: string where "fence_end = ''MUSTER_E2E_END''"
definition fence_status :: string where "fence_status = ''MUSTER_E2E_STATUS''"

definition Script :: "string \<Rightarrow> string" where
  "Script command =
     ''echo '' @ fence_begin @ ''; '' @ command @ ''; rc=$?; echo; echo '' @ fence_status @ ''=$rc; echo '' @ fence_end"

definition Parse :: "string \<Rightarrow> (string \<times> int) option" where
  "Parse out =
     (let out = replace_all [CR, LF] [LF] out;
          out = replace_all [CR] [] out
      in case sub_cut (fence_begin @ [LF]) out of
           None \<Rightarrow> None
         | Some (_, rest) \<Rightarrow>
             (case sub_cut fence_end rest of
                None \<Rightarrow> None
              | Some (payload, _) \<Rightarrow>
                  (case sub_rcut (fence_status @ ''='') payload of
                     None \<Rightarrow> None
                   | Some (body, status) \<Rightarrow>
                       (case sscanf_int status of None \<Rightarrow> None | Some n \<Rightarrow> Some (trim_space body, n)))))"

definition Collapse :: "string \<Rightarrow> string" where
  "Collapse s = join_with '' '' (fields s)"

text \<open>The ellipsis is three bytes of UTF-8; a negative length panics (\<open>None\<close>).\<close>

definition Truncate :: "string \<Rightarrow> int \<Rightarrow> string option" where
  "Truncate s n =
     (if int (length s) \<le> n then Some s
      else if n < 0 then None
      else Some (take (nat n) s @ [CHR 0xE2, CHR 0x80, CHR 0xA6]))"

section \<open>The shell that runs the script\<close>

definition name_char :: "char \<Rightarrow> bool" where
  "name_char c =
     (let n = of_char c :: nat in (48 \<le> n \<and> n \<le> 57) \<or> (65 \<le> n \<and> n \<le> 90) \<or> n = 95 \<or> (97 \<le> n \<and> n \<le> 122))"

definition plain :: "string \<Rightarrow> bool" where
  "plain w \<longleftrightarrow> w \<noteq> [] \<and> list_all name_char w"

text \<open>
  What the script relies on in a POSIX shell: \<open>exec\<close> runs a command line in an environment and
  gives what it prints and the environment after it, with the status \<^verbatim>\<open>$?\<close> and the variables. A
  command is \<open>complete\<close> if a list can go on after it: it is whole and hands control back (it opens
  no quote it does not close, ends in no comment, does not exit the shell).
\<close>

locale posix_shell =
  fixes exec :: "string \<Rightarrow> 'env \<Rightarrow> string \<times> 'env"
    and status :: "'env \<Rightarrow> int"
    and var :: "'env \<Rightarrow> string \<Rightarrow> string"
    and complete :: "string \<Rightarrow> bool"
  assumes sequence: "complete a \<Longrightarrow> exec (a @ ''; '' @ b) s =
      (case exec a s of (out1, s1) \<Rightarrow> case exec b s1 of (out2, s2) \<Rightarrow> (out1 @ out2, s2))"
    and echo_nothing: "fst (exec ''echo'' s) = [LF] \<and> var (snd (exec ''echo'' s)) = var s"
    and echo_word: "plain w \<Longrightarrow> fst (exec (''echo '' @ w) s) = w @ [LF] \<and> var (snd (exec (''echo '' @ w) s)) = var s"
    and echo_variable: "plain w \<Longrightarrow> plain v \<Longrightarrow> plain (var s v) \<Longrightarrow>
      fst (exec (''echo '' @ w @ ''=$'' @ v) s) = w @ ''='' @ var s v @ [LF]
      \<and> var (snd (exec (''echo '' @ w @ ''=$'' @ v) s)) = var s"
    and save_status: "plain v \<Longrightarrow> fst (exec (v @ ''=$?'') s) = []
      \<and> var (snd (exec (v @ ''=$?'') s)) = (var s)(v := format_int (status s))"
    and complete_echo: "complete ''echo''" "plain w \<Longrightarrow> complete (''echo '' @ w)"
      "plain w \<Longrightarrow> plain v \<Longrightarrow> complete (''echo '' @ w @ ''=$'' @ v)" "plain v \<Longrightarrow> complete (v @ ''=$?'')"
    and status_range: "0 \<le> status s \<and> status s < 256"

text \<open>A small shell: lists of echo, the assignment of \<^verbatim>\<open>$?\<close>, and external commands \<open>ext\<close>.\<close>

record sh_env =
  sh_vars :: "string \<Rightarrow> string"
  sh_status :: int

fun sh_split :: "string \<Rightarrow> string list" where
  "sh_split [] = [[]]"
| "sh_split (c # cs) = (if c = CHR '';'' then [] # sh_split cs else (c # hd (sh_split cs)) # tl (sh_split cs))"

text \<open>The word, with each \<^verbatim>\<open>$name\<close> replaced; \<open>name\<close> is the one being read, if any.\<close>

fun sh_expand :: "(string \<Rightarrow> string) \<Rightarrow> string option \<Rightarrow> string \<Rightarrow> string" where
  "sh_expand vars None [] = []"
| "sh_expand vars (Some name) [] = vars name"
| "sh_expand vars None (c # cs) = (if c = CHR ''$'' then sh_expand vars (Some []) cs else c # sh_expand vars None cs)"
| "sh_expand vars (Some name) (c # cs) =
     (if name_char c then sh_expand vars (Some (name @ [c])) cs
      else vars name @ (if c = CHR ''$'' then sh_expand vars (Some []) cs else c # sh_expand vars None cs))"

definition sh_simple :: "(string \<Rightarrow> string \<times> int) \<Rightarrow> string \<Rightarrow> sh_env \<Rightarrow> string \<times> sh_env" where
  "sh_simple ext cmd s =
     (if cmd = ''echo'' then ([LF], s\<lparr>sh_status := 0\<rparr>)
      else if take 5 cmd = ''echo '' then (sh_expand (sh_vars s) None (drop 5 cmd) @ [LF], s\<lparr>sh_status := 0\<rparr>)
      else let v = takeWhile (\<lambda>c. c \<noteq> CHR ''='') cmd
           in if plain v \<and> cmd = v @ ''=$?''
              then ([], s\<lparr>sh_vars := (sh_vars s)(v := format_int (sh_status s mod 256)), sh_status := 0\<rparr>)
              else (case ext cmd of (out, rc) \<Rightarrow> (out, s\<lparr>sh_status := rc\<rparr>)))"

fun sh_list :: "(string \<Rightarrow> string \<times> int) \<Rightarrow> string list \<Rightarrow> sh_env \<Rightarrow> string \<times> sh_env" where
  "sh_list ext [] s = ([], s)"
| "sh_list ext (c # cs) s =
     (case sh_simple ext (dropWhile is_space c) s of
        (out1, s1) \<Rightarrow> case sh_list ext cs s1 of (out2, s2) \<Rightarrow> (out1 @ out2, s2))"

definition sh_exec :: "(string \<Rightarrow> string \<times> int) \<Rightarrow> string \<Rightarrow> sh_env \<Rightarrow> string \<times> sh_env" where
  "sh_exec ext l = sh_list ext (sh_split l)"

section \<open>What a session hands back\<close>

text \<open>What a run of \<open>Script\<close> prints when the command prints \<open>out\<close> and ends with status \<open>rc\<close>.\<close>

definition session :: "string \<Rightarrow> int \<Rightarrow> string" where
  "session out rc =
     fence_begin @ [LF] @ out @ [LF] @ fence_status @ ''='' @ format_int rc @ [LF] @ fence_end @ [LF]"

text \<open>A terminal in ONLCR mode.\<close>

definition pty :: "string \<Rightarrow> string" where
  "pty s = concat (map (\<lambda>c. if c = LF then [CR, LF] else [c]) s)"

section \<open>Lemmas\<close>

definition no_cr :: "string \<Rightarrow> string" where
  "no_cr s = filter (\<lambda>c. c \<noteq> CR) s"

lemma no_cr_append [simp]: "no_cr (a @ b) = no_cr a @ no_cr b"
  by (simp add: no_cr_def)

lemma no_cr_Cons [simp]: "no_cr (c # s) = (if c = CR then no_cr s else c # no_cr s)"
  by (simp add: no_cr_def)

lemma no_cr_Nil [simp]: "no_cr [] = []"
  by (simp add: no_cr_def)

lemma replace_crlf_no_cr: "no_cr (replace_all [CR, LF] [LF] s) = no_cr s"
proof (induction "[CR, LF]" "[LF]" s rule: replace_all.induct)
  case (2 c cs)
  show ?case
  proof (cases "prefix [CR, LF] (c # cs)")
    case True
    then obtain t where "cs = LF # t" "c = CR" by (auto simp: prefix_def)
    with 2 show ?thesis by (simp add: replace_all.simps(2))
  next
    case False
    with 2 show ?thesis by (simp add: replace_all.simps(2))
  qed
qed simp

lemma replace_cr_no_cr: "replace_all [CR] [] s = no_cr s"
  by (induction s) (auto simp: replace_all.simps(2))

text \<open>Whatever mix of line endings arrives, what the reader looks at is the text without its returns.\<close>

lemma line_endings: "replace_all [CR] [] (replace_all [CR, LF] [LF] s) = no_cr s"
  by (simp add: replace_cr_no_cr replace_crlf_no_cr)

lemma no_cr_pty [simp]: "no_cr (pty s) = no_cr s"
  by (induction s) (auto simp: pty_def)

lemma format_nat_digits: "list_all is_digit (format_nat n)"
proof (induction n rule: format_nat.induct)
  case (1 n)
  then show ?case by (cases "n < 10") (auto simp: format_nat.simps [of n] is_digit_def)
qed

lemma format_int_chars: "c \<in> set (format_int i) \<Longrightarrow> is_digit c \<or> c = CHR ''-''"
  using format_nat_digits by (auto simp: format_int_def list_all_iff split: if_splits)

lemma not_digits: "\<not> is_digit (CHR ''M'')" "\<not> is_digit LF" "\<not> is_digit CR" "\<not> is_digit (CHR ''-'')"
  by (simp_all add: is_digit_def digit_val_def)

lemma format_int_fresh: "CHR ''M'' \<notin> set (format_int i)" "CR \<notin> set (format_int i)" "LF \<notin> set (format_int i)"
  using format_int_chars [of _ i] not_digits by fastforce+

lemma no_cr_fresh: "CR \<notin> set s \<Longrightarrow> no_cr s = s"
  by (induction s) auto

lemma digit_no_space: "is_digit c \<Longrightarrow> \<not> is_space c"
  by (auto simp: is_digit_def digit_val_def is_space_def split: if_splits)

lemma takeWhile_digits: "list_all is_digit ds \<Longrightarrow> takeWhile is_digit (ds @ LF # s) = ds"
  by (simp add: takeWhile_append_stop not_digits)

lemma sscanf_format_int:
  assumes "- (2 ^ 63) \<le> i" and "i < 2 ^ 63"
  shows "sscanf_int (format_int i @ LF # s) = Some i"
proof (cases "i < 0")
  case True
  then have f: "format_int i = CHR ''-'' # format_nat (nat (- i))" by (simp add: format_int_def)
  have "\<not> is_space (CHR ''-'')" by (simp add: is_space_def)
  with f parse_format_int [OF assms] show ?thesis
    by (simp add: sscanf_int_def takeWhile_digits format_nat_digits)
next
  case False
  then have f: "format_int i = format_nat (nat i)" by (simp add: format_int_def)
  obtain c cs where s: "format_nat (nat i) = c # cs" by (cases "format_nat (nat i)") auto
  with format_nat_digits [of "nat i"] have d: "is_digit c" "list_all is_digit (c # cs)" by simp_all
  then have "c \<noteq> CHR ''-''" "c \<noteq> CHR ''+''" by (auto simp: is_digit_def)
  with s f d digit_no_space [of c] takeWhile_digits [OF d(2), of s] parse_format_int [OF assms] show ?thesis
    by (simp add: sscanf_int_def)
qed

lemma is_space_LF: "is_space LF"
  by (simp add: is_space_def)

lemma trim_space_LF: "trim_space (s @ [LF]) = trim_space s"
proof (cases "\<forall>c \<in> set s. is_space c")
  case True
  then have "dropWhile is_space s = []" and "dropWhile is_space (s @ [LF]) = []" by (simp_all add: is_space_LF)
  then show ?thesis by (simp only: trim_space_def)
next
  case False
  then have "dropWhile is_space (s @ [LF]) = dropWhile is_space s @ [LF]"
    by (auto simp: dropWhile_append)
  then show ?thesis by (simp add: trim_space_def trim_right_def is_space_LF)
qed

lemma end_not_in_status:
  assumes "\<not> sublist fence_end s"
  shows "\<not> sublist fence_end (s @ LF # fence_status @ ''='' @ format_int rc @ [LF])"
proof -
  have "\<not> sublist fence_end (fence_status @ ''='' @ format_int rc @ [LF])"
    using format_int_fresh(1) [of rc]
    by (simp add: fence_end_def fence_status_def sublist_first)
  moreover have "LF \<notin> set fence_end" "fence_end \<noteq> []" by (simp_all add: fence_end_def)
  ultimately show ?thesis
    using assms sublist_separated [of LF fence_end s "fence_status @ ''='' @ format_int rc @ [LF]"] by simp
qed

lemma split_begin:
  "\<not> sublist (fence_begin @ [LF]) pre \<Longrightarrow> sub_cut (fence_begin @ [LF]) (pre @ fence_begin @ LF # s) = Some (pre, s)"
  using sub_cut_marker [of "CHR ''M''" "''USTER_E2E_BEGIN'' @ [LF]" pre s] by (simp add: fence_begin_def)

lemma split_end: "\<not> sublist fence_end pre \<Longrightarrow> sub_cut fence_end (pre @ fence_end @ s) = Some (pre, s)"
  using sub_cut_marker [of "CHR ''M''" "''USTER_E2E_END''" pre s] by (simp add: fence_end_def)

lemma split_status:
  "CHR ''M'' \<notin> set s \<Longrightarrow> sub_rcut (fence_status @ ''='') (pre @ fence_status @ ''='' @ s) = Some (pre, s)"
  using sub_rcut_marker [of "CHR ''M''" "''USTER_E2E_STATUS=''" s pre] by (simp add: fence_status_def)

lemma fences_no_cr [simp]:
  "no_cr fence_begin = fence_begin" "no_cr fence_end = fence_end" "no_cr fence_status = fence_status"
  by (simp_all add: fence_begin_def fence_end_def fence_status_def)

section \<open>The script in a shell\<close>

lemma format_int_plain: "0 \<le> i \<Longrightarrow> plain (format_int i)"
proof -
  have "name_char c" if "is_digit c" for c
    using that by (auto simp: is_digit_def digit_val_def name_char_def split: if_splits)
  moreover assume "0 \<le> i"
  ultimately show ?thesis
    using format_nat_digits [of "nat i"] by (auto simp: plain_def format_int_def list_all_iff)
qed

lemma plain_fences: "plain fence_begin" "plain fence_end" "plain fence_status" "plain ''rc''"
  by (simp_all add: plain_def fence_begin_def fence_end_def fence_status_def name_char_def)

context posix_shell
begin

lemma in_turn:
  "complete a \<Longrightarrow> exec a s = (out1, s1) \<Longrightarrow> exec b s1 = (out2, s2) \<Longrightarrow> exec (a @ ''; '' @ b) s = (out1 @ out2, s2)"
  using sequence [of a b s] by simp

lemma script_session:
  assumes "complete command"
    and run: "exec command (snd (exec (''echo '' @ fence_begin) s)) = (out, s')"
  shows "fst (exec (Script command) s) = session out (status s')"
proof -
  let ?status = "''echo '' @ fence_status @ ''=$'' @ ''rc''"
  obtain s1 where s1: "exec (''echo '' @ fence_begin) s = (fence_begin @ [LF], s1)"
    using echo_word [OF plain_fences(1)] by (metis prod.collapse)
  obtain s3 where s3: "exec (''rc'' @ ''=$?'') s' = ([], s3)" "var s3 ''rc'' = format_int (status s')"
    using save_status [OF plain_fences(4)] by (metis prod.collapse fun_upd_same)
  obtain s4 where s4: "exec ''echo'' s3 = ([LF], s4)" "var s4 = var s3"
    using echo_nothing by (metis prod.collapse)
  have "plain (var s4 ''rc'')" using s3(2) s4(2) status_range by (simp add: format_int_plain)
  from echo_variable [OF plain_fences(3,4) this] obtain s5 where
    s5: "exec ?status s4 = (fence_status @ ''='' @ format_int (status s') @ [LF], s5)"
    using s3(2) s4(2) by (metis prod.collapse)
  obtain s6 where s6: "exec (''echo '' @ fence_end) s5 = (fence_end @ [LF], s6)"
    using echo_word [OF plain_fences(2)] by (metis prod.collapse)
  note c = complete_echo(1) complete_echo(2) [OF plain_fences(1)] complete_echo(3) [OF plain_fences(3,4)]
    complete_echo(4) [OF plain_fences(4)]
  have "exec command s1 = (out, s')" using run s1 by simp
  from in_turn [OF c(2) s1 in_turn [OF assms(1) this in_turn [OF c(4) s3(1) in_turn [OF c(1) s4(1) in_turn [OF c(3) s5 s6]]]]]
  have "fst (exec ((''echo '' @ fence_begin) @ ''; '' @ command @ ''; '' @ (''rc'' @ ''=$?'') @ ''; '' @ ''echo'' @ ''; ''
      @ ?status @ ''; '' @ (''echo '' @ fence_end)) s) = session out (status s')"
    by (simp add: session_def)
  then show ?thesis by (simp add: Script_def)
qed

end

lemma sh_split_not_Nil [simp]: "sh_split l \<noteq> []"
  by (cases l) auto

lemma sh_split_end: "CHR '';'' \<notin> set a \<Longrightarrow> sh_split a = [a]"
  by (induction a) auto

lemma sh_split_sep: "CHR '';'' \<notin> set a \<Longrightarrow> sh_split (a @ CHR '';'' # b) = a # sh_split b"
  by (induction a) auto

lemma sh_list_space: "sh_list ext (sh_split (CHR '' '' # l)) = sh_list ext (sh_split l)"
  by (cases "sh_split l") (auto simp: fun_eq_iff is_space_def)

lemma name_char_not: "name_char c \<Longrightarrow> \<not> is_space c \<and> c \<notin> {CHR ''$'', CHR ''='', CHR '';'', CHR '' ''}"
  by (auto simp: name_char_def is_space_def)

lemma plain_not: "plain w \<Longrightarrow> c \<in> set w \<Longrightarrow> c \<notin> {CHR ''$'', CHR ''='', CHR '';'', CHR '' ''}"
  using name_char_not by (fastforce simp: plain_def list_all_iff)

lemma sh_expand_plain: "\<forall>c \<in> set w. c \<noteq> CHR ''$'' \<Longrightarrow> sh_expand vars None (w @ rest) = w @ sh_expand vars None rest"
  by (induction w) auto

lemma sh_expand_name: "list_all name_char v \<Longrightarrow> sh_expand vars (Some name) v = vars (name @ v)"
  by (induction v arbitrary: name) auto

lemma plain_facts:
  assumes "plain w"
  shows "w \<noteq> []" "\<forall>c \<in> set w. c \<noteq> CHR ''$''" "CHR ''='' \<notin> set w" "CHR '';'' \<notin> set w" "CHR '' '' \<notin> set w" "list_all name_char w"
  using assms plain_not [OF assms] by (auto simp: plain_def)

lemma sh_simple_assign:
  assumes "plain v"
  shows "sh_simple ext (v @ ''=$?'') s = ([], s\<lparr>sh_vars := (sh_vars s)(v := format_int (sh_status s mod 256)), sh_status := 0\<rparr>)"
proof -
  have "takeWhile (\<lambda>c. c \<noteq> CHR ''='') (v @ ''=$?'') = v"
    using plain_facts(3) [OF assms] by (subst takeWhile_append2) auto
  moreover have "v @ ''=$?'' \<noteq> ''echo''"
  proof
    assume "v @ ''=$?'' = ''echo''"
    then have "CHR ''='' \<in> set ''echo''" by (metis in_set_conv_decomp)
    then show False by simp
  qed
  moreover have "take 5 (v @ ''=$?'') \<noteq> ''echo ''"
  proof
    assume "take 5 (v @ ''=$?'') = ''echo ''"
    then have "CHR '' '' \<in> set (take 5 (v @ ''=$?''))" by simp
    then have "CHR '' '' \<in> set (v @ ''=$?'')" by (rule in_set_takeD)
    with plain_facts(5) [OF assms] show False by simp
  qed
  ultimately show ?thesis using assms by (simp add: sh_simple_def Let_def)
qed

lemma sh_exec_one: "CHR '';'' \<notin> set a \<Longrightarrow> sh_exec ext a s = (case sh_simple ext (dropWhile is_space a) s of (out, s') \<Rightarrow> (out, s'))"
  by (simp add: sh_exec_def sh_split_end split: prod.splits)

interpretation sh: posix_shell "sh_exec ext" "\<lambda>s. sh_status s mod 256" sh_vars "\<lambda>a. CHR '';'' \<notin> set a" for ext
proof unfold_locales
  fix a b and s :: sh_env
  assume "CHR '';'' \<notin> set a"
  then show "sh_exec ext (a @ ''; '' @ b) s =
      (case sh_exec ext a s of (out1, s1) \<Rightarrow> case sh_exec ext b s1 of (out2, s2) \<Rightarrow> (out1 @ out2, s2))"
    by (simp add: sh_exec_def sh_split_end sh_split_sep sh_list_space [simplified] split: prod.splits)
next
  fix v and s :: sh_env
  assume v: "plain v"
  then have "dropWhile is_space (v @ ''=$?'') = v @ ''=$?''"
    using name_char_not by (cases v) (auto simp: plain_def)
  with v sh_simple_assign [OF v, of ext s] plain_facts(4) [OF v] show "fst (sh_exec ext (v @ ''=$?'') s) = []
      \<and> sh_vars (snd (sh_exec ext (v @ ''=$?'') s)) = (sh_vars s)(v := format_int (sh_status s mod 256))"
    by (simp add: sh_exec_one)
next
  fix w v and s :: sh_env
  assume p: "plain w" "plain v" "plain (sh_vars s v)"
  have "sh_expand (sh_vars s) None (w @ ''=$'' @ v) = w @ ''='' @ sh_vars s v"
    using sh_expand_plain [OF plain_facts(2) [OF p(1)]] sh_expand_name [OF plain_facts(6) [OF p(2)], of "sh_vars s" "[]"] by simp
  with p plain_facts(4) show "fst (sh_exec ext (''echo '' @ w @ ''=$'' @ v) s) = w @ ''='' @ sh_vars s v @ [LF]
      \<and> sh_vars (snd (sh_exec ext (''echo '' @ w @ ''=$'' @ v) s)) = sh_vars s"
    by (simp add: sh_exec_one sh_simple_def is_space_def)
qed (use plain_facts in \<open>auto simp: sh_exec_one sh_simple_def is_space_def sh_expand_plain [where rest = "[]", simplified]\<close>)

section \<open>Properties\<close>

lemma parse_session:
  assumes "\<not> sublist (fence_begin @ [LF]) (no_cr banner)" and "\<not> sublist fence_end (no_cr out)"
    and "- (2 ^ 63) \<le> rc" and "rc < 2 ^ 63"
  shows "Parse (pty (banner @ session out rc @ closing)) = Some (trim_space (no_cr out), rc)"
proof -
  let ?tail = "fence_status @ ''='' @ format_int rc @ [LF]"
  have "no_cr (pty (banner @ session out rc @ closing))
      = no_cr banner @ fence_begin @ LF # (no_cr out @ LF # ?tail) @ fence_end @ LF # no_cr closing"
    by (simp add: session_def no_cr_fresh [OF format_int_fresh(2)])
  moreover have "sub_cut (fence_begin @ [LF])
        (no_cr banner @ fence_begin @ LF # (no_cr out @ LF # ?tail) @ fence_end @ LF # no_cr closing)
      = Some (no_cr banner, (no_cr out @ LF # ?tail) @ fence_end @ LF # no_cr closing)"
    using assms(1) by (rule split_begin)
  moreover have "sub_cut fence_end ((no_cr out @ LF # ?tail) @ fence_end @ LF # no_cr closing)
      = Some (no_cr out @ LF # ?tail, LF # no_cr closing)"
    by (rule split_end) (use end_not_in_status [OF assms(2), of rc] in simp)
  moreover have "sub_rcut (fence_status @ ''='') ((no_cr out @ [LF]) @ ?tail)
      = Some (no_cr out @ [LF], format_int rc @ [LF])"
    by (rule split_status) (simp add: format_int_fresh)
  ultimately show ?thesis
    using sscanf_format_int [OF assms(3,4), of "[]"] by (simp add: Parse_def line_endings trim_space_LF)
qed

text \<open>
  C32: the transcript round trip. When \<open>Script command\<close> is run by a POSIX shell, for any command
  that is whole and hands control back, and what it prints comes back over a terminal that rewrites
  newlines, between any banner that does not itself contain the opening fence line and any closing
  text, then \<open>Parse\<close> reads back exactly the status with which the command ended and the command's
  own output, trimmed and without carriage returns, as long as the output does not contain the
  closing fence; the text of the status marker in the output does no harm.
\<close>

theorem transcript_roundtrip:
  assumes "posix_shell exec status var complete" and "complete command"
    and "exec command (snd (exec (''echo '' @ fence_begin) s)) = (out, s')"
    and "\<not> sublist (fence_begin @ [LF]) (no_cr banner)" and "\<not> sublist fence_end (no_cr out)"
  shows "Parse (pty (banner @ fst (exec (Script command) s) @ closing)) = Some (trim_space (no_cr out), status s')"
proof -
  have "- (2 ^ 63) \<le> status s'" "status s' < 2 ^ 63"
    using posix_shell.status_range [OF assms(1), of s'] by simp_all
  from parse_session [OF assms(4,5) this] show ?thesis
    by (simp add: posix_shell.script_session [OF assms(1-3)])
qed

text \<open>A failing command whose output contains the status marker, in the small shell.\<close>

definition demo_ext :: "string \<Rightarrow> string \<times> int" where
  "demo_ext cmd = (if cmd = ''curl -f pd'' then (''MUSTER_E2E_STATUS=9'', 22) else ([], 127))"

definition demo_env :: sh_env where
  "demo_env = \<lparr>sh_vars = (\<lambda>_. []), sh_status = 0\<rparr>"

lemma transcript_roundtrip_witness:
  "Parse (pty (''Starting session'' @ [LF] @ fst (sh_exec demo_ext (Script ''curl -f pd'') demo_env) @ ''bye''))
    = Some (''MUSTER_E2E_STATUS=9'', 22)"
proof -
  have no: "\<not> sublist (fence_begin @ [LF]) (no_cr (''Starting session'' @ [LF]))"
    "\<not> sublist fence_end (no_cr ''MUSTER_E2E_STATUS=9'')"
    by (simp_all add: fence_begin_def fence_end_def sublist_Cons_right)
  have "snd (sh_exec demo_ext (''echo '' @ fence_begin) demo_env) = demo_env"
    by (simp add: sh_exec_one sh_simple_def fence_begin_def demo_env_def is_space_def)
  then have "sh_exec demo_ext ''curl -f pd'' (snd (sh_exec demo_ext (''echo '' @ fence_begin) demo_env))
      = (''MUSTER_E2E_STATUS=9'', demo_env\<lparr>sh_status := 22\<rparr>)"
    by (simp add: sh_exec_one sh_simple_def is_space_def demo_ext_def Let_def plain_def name_char_def)
  from transcript_roundtrip [OF sh.posix_shell_axioms _ this no, of "''bye''"] show ?thesis
    by (simp add: trim_space_def trim_right_def is_space_def)
qed

text \<open>
  The closing fence is looked for first, so an output that contains it cuts itself short and
  the transcript is rejected, although the comment on the status marker promises otherwise.
\<close>

lemma end_in_output_rejected: "Parse (session ''MUSTER_E2E_END'' 0) = None"
  by code_simp

lemma truncate_length: "0 \<le> n \<Longrightarrow> \<exists>t. Truncate s n = Some t \<and> int (length t) \<le> n + 3"
  by (simp add: Truncate_def)

end
