(* ===== verification/Cloud_Run_Logs.thy ===== *)
theory Cloud_Run_Logs
  imports Go_Search "HOL-Library.List_Lexorder" "HOL-Library.Char_ord" "HOL-Library.Multiset"
begin

text \<open>
  What the end-to-end suites read about a worker pool (e2e/internal/cloudrun): Cloud Logging
  entries and the reports replicas log about themselves (logs.go), and the pool's own status
  (poolready.go). JSON decoding is a parameter: the functions below start from the decoded
  structures. Timestamps compare as strings, byte by byte.
\<close>

section \<open>Log entries\<close>

record log_report =
  r_msg :: string
  r_who :: string
  r_body :: string

record log_entry =
  le_timestamp :: string
  le_text :: string
  le_json :: log_report
  le_level :: string
  le_name :: string
  le_err :: string
  le_type :: string
  le_labels :: "(string \<times> string) list"

definition entry_string :: "log_entry \<Rightarrow> string" where
  "entry_string e =
     (let ts = le_timestamp e;
          ts = (if 23 < length ts then take 12 (drop 11 ts) else ts);
          j = le_json e
      in if le_text e \<noteq> [] then ts @ '' '' @ trim_right (\<lambda>c. c = CHR 0x0A) (le_text e)
         else ts @ '' '' @ le_level e @ '' '' @ r_msg j
           @ concat (map (\<lambda>(k, v). if v \<noteq> [] then '' '' @ k @ ''='' @ go_quote v else [])
               [(''who'', r_who j), (''name'', le_name e), (''err'', le_err e), (''body'', r_body j)]))"

definition ParseEntries :: "(string \<Rightarrow> (log_entry list) go_result) \<Rightarrow> string \<Rightarrow> (log_entry list) go_result" where
  "ParseEntries unmarshal raw =
     (if trim_space raw = [] then Inr []
      else case unmarshal raw of
             Inl e \<Rightarrow> Inl (Wrapf ''parsing log entries: %w'' [] e)
           | Inr es \<Rightarrow> Inr es)"

definition MsgFilter :: "string \<Rightarrow> string" where
  "MsgFilter msg = ''jsonPayload.msg='' @ go_quote msg"

definition IsReport :: "log_entry \<Rightarrow> bool" where
  "IsReport e = (prefix ''pd: CLUSTER'' (r_msg (le_json e)) \<or> prefix ''pd: MEMBERS'' (r_msg (le_json e))
     \<or> prefix ''pd: STORES'' (r_msg (le_json e)))"

definition Decisions :: "log_entry list \<Rightarrow> log_entry list" where
  "Decisions es = filter (\<lambda>e. r_msg (le_json e) \<noteq> [] \<and> \<not> IsReport e) es"

definition Workload :: "log_entry list \<Rightarrow> log_entry list" where
  "Workload es = filter (\<lambda>e. le_text e \<noteq> []) es"

text \<open>The loop of \<^verbatim>\<open>LatestReports\<close> over its two maps.\<close>

type_synonym latest = "(string \<rightharpoonup> log_report) \<times> (string \<rightharpoonup> string)"

definition latest_step :: "string \<Rightarrow> log_entry \<Rightarrow> latest \<Rightarrow> latest" where
  "latest_step msg e m =
     (let who = r_who (le_json e)
      in if r_msg (le_json e) \<noteq> msg \<or> who = [] then m
         else if (case snd m who of None \<Rightarrow> False | Some prev \<Rightarrow> le_timestamp e < prev) then m
         else ((fst m)(who \<mapsto> le_json e), (snd m)(who \<mapsto> le_timestamp e)))"

definition LatestReports :: "log_entry list \<Rightarrow> string \<Rightarrow> string \<rightharpoonup> log_report" where
  "LatestReports es msg = fst (fold (latest_step msg) es (\<lambda>_. None, \<lambda>_. None))"

section \<open>The pool's status\<close>

record pool_condition =
  pc_type :: string
  pc_status :: string
  pc_reason :: string
  pc_message :: string

record pool =
  pl_generation :: int
  pl_observed :: int
  pl_created :: string
  pl_ready :: string
  pl_conditions :: "pool_condition list"

definition ReadyRevision :: "pool go_result \<Rightarrow> string go_result" where
  "ReadyRevision r =
     (case r of
        Inl e \<Rightarrow> Inl (Wrapf ''parsing describe output: %w'' [] e)
      | Inr p \<Rightarrow> if pl_ready p = [] then Inl (Errorf ''no ready revision in the describe output'' []) else Inr (pl_ready p))"

definition CreatedRevision :: "pool go_result \<Rightarrow> string go_result" where
  "CreatedRevision r =
     (case r of
        Inl e \<Rightarrow> Inl (Wrapf ''parsing describe output: %w'' [] e)
      | Inr p \<Rightarrow> if pl_created p = [] then Inl (Errorf ''no created revision in the describe output'' [])
                else Inr (pl_created p))"

definition PoolReady :: "string \<Rightarrow> pool go_result \<Rightarrow> go_error option" where
  "PoolReady name r =
     (case r of
        Inl e \<Rightarrow> Some (Wrapf ''%s: parsing describe output: %w'' [name] e)
      | Inr p \<Rightarrow>
          if pl_observed p \<noteq> pl_generation p
          then Some (Errorf ''%s is still reconciling: spec generation %d, observed %d''
                  [name, format_int (pl_generation p), format_int (pl_observed p)])
          else if pl_created p \<noteq> pl_ready p
          then Some (Errorf ''%s created revision %q but its ready revision is %q'' [name, pl_created p, pl_ready p])
          else case find (\<lambda>c. pc_type c = ''Ready'') (pl_conditions p) of
                 Some c \<Rightarrow>
                   if pc_status c = ''True'' then None
                   else Some (Errorf ''%s is not ready (Ready=%s): %s %s'' [name, pc_status c, pc_reason c, pc_message c])
               | None \<Rightarrow>
                   Some (Errorf ''%s reports no Ready condition at all, in %d conditions -- gcloud's output shape is not the one this reads (Knative: status.conditions[].type)''
                     [name, format_int (int (length (pl_conditions p)))]))"

section \<open>The latest report of a replica\<close>

text \<open>The entries that count for \<open>who\<close>, and the last of those with the latest timestamp.\<close>

definition reports_of :: "string \<Rightarrow> string \<Rightarrow> log_entry list \<Rightarrow> log_entry list" where
  "reports_of msg who es = filter (\<lambda>e. r_msg (le_json e) = msg \<and> r_who (le_json e) = who) es"

definition is_latest :: "log_entry list \<Rightarrow> log_entry \<Rightarrow> bool" where
  "is_latest es e \<longleftrightarrow>
     (\<exists>a b. es = a @ e # b \<and> (\<forall>x \<in> set a. le_timestamp x \<le> le_timestamp e) \<and> (\<forall>x \<in> set b. le_timestamp x < le_timestamp e))"

lemma is_latest_snoc_later:
  assumes "\<forall>x \<in> set es. le_timestamp x \<le> le_timestamp e"
  shows "is_latest (es @ [e]) e"
  unfolding is_latest_def using assms by (intro exI [of _ es] exI [of _ "[]"]) simp

lemma is_latest_snoc_earlier:
  assumes "is_latest es e'" and "le_timestamp e < le_timestamp e'"
  shows "is_latest (es @ [e]) e'"
proof -
  from assms(1) obtain a b where "es = a @ e' # b"
    "\<forall>x \<in> set a. le_timestamp x \<le> le_timestamp e'" "\<forall>x \<in> set b. le_timestamp x < le_timestamp e'"
    by (auto simp: is_latest_def)
  then show ?thesis unfolding is_latest_def using assms(2) by (intro exI [of _ a] exI [of _ "b @ [e]"]) simp
qed

lemma is_latest_bound: "is_latest es e \<Longrightarrow> x \<in> set es \<Longrightarrow> le_timestamp x \<le> le_timestamp e"
  by (auto simp: is_latest_def less_imp_le)

lemma is_latest_Nil [simp]: "\<not> is_latest [] e"
  by (simp add: is_latest_def)

definition latest_inv :: "string \<Rightarrow> log_entry list \<Rightarrow> latest \<Rightarrow> bool" where
  "latest_inv msg es m \<longleftrightarrow>
     (\<forall>who. case snd m who of
        None \<Rightarrow> fst m who = None \<and> (who = [] \<or> reports_of msg who es = [])
      | Some ts \<Rightarrow> who \<noteq> [] \<and> (\<exists>e. is_latest (reports_of msg who es) e \<and> le_timestamp e = ts \<and> fst m who = Some (le_json e)))"

lemma reports_of_snoc:
  "reports_of msg who (es @ [e]) =
     reports_of msg who es @ (if r_msg (le_json e) = msg \<and> r_who (le_json e) = who then [e] else [])"
  by (simp add: reports_of_def)

lemma latest_inv_step:
  assumes "latest_inv msg es m"
  shows "latest_inv msg (es @ [e]) (latest_step msg e m)"
  unfolding latest_inv_def
proof
  fix who
  let ?m = "latest_step msg e m"
  have inv: "case snd m who of
        None \<Rightarrow> fst m who = None \<and> (who = [] \<or> reports_of msg who es = [])
      | Some ts \<Rightarrow> who \<noteq> [] \<and> (\<exists>e. is_latest (reports_of msg who es) e \<and> le_timestamp e = ts \<and> fst m who = Some (le_json e))"
    using assms by (simp add: latest_inv_def)
  show "case snd ?m who of
        None \<Rightarrow> fst ?m who = None \<and> (who = [] \<or> reports_of msg who (es @ [e]) = [])
      | Some ts \<Rightarrow> who \<noteq> [] \<and> (\<exists>e'. is_latest (reports_of msg who (es @ [e])) e' \<and> le_timestamp e' = ts \<and> fst ?m who = Some (le_json e'))"
  proof (cases "r_msg (le_json e) = msg \<and> r_who (le_json e) = who \<and> who \<noteq> []")
    case False
    then have "snd ?m who = snd m who" "fst ?m who = fst m who"
      by (auto simp: latest_step_def Let_def)
    with inv False show ?thesis by (auto simp: reports_of_snoc split: option.splits)
  next
    case True
    show ?thesis
    proof (cases "snd m who")
      case None
      with True inv have "snd ?m who = Some (le_timestamp e)" "fst ?m who = Some (le_json e)" "reports_of msg who es = []"
        by (auto simp: latest_step_def Let_def)
      with True show ?thesis using is_latest_snoc_later [of "[]" e] by (auto simp: reports_of_snoc)
    next
      case (Some ts)
      with inv obtain e' where e': "is_latest (reports_of msg who es) e'" "le_timestamp e' = ts" "fst m who = Some (le_json e')"
        by auto
      show ?thesis
      proof (cases "le_timestamp e < ts")
        case True
        with Some \<open>r_msg (le_json e) = msg \<and> r_who (le_json e) = who \<and> who \<noteq> []\<close> have "?m = m"
          by (simp add: latest_step_def Let_def)
        with Some e' True \<open>r_msg (le_json e) = msg \<and> r_who (le_json e) = who \<and> who \<noteq> []\<close> show ?thesis
          using is_latest_snoc_earlier [OF e'(1), of e] by (auto simp: reports_of_snoc)
      next
        case False
        with Some True have "snd ?m who = Some (le_timestamp e)" "fst ?m who = Some (le_json e)"
          by (auto simp: latest_step_def Let_def)
        moreover have "is_latest (reports_of msg who es @ [e]) e"
          by (rule is_latest_snoc_later) (use is_latest_bound [OF e'(1)] e'(2) False in force)
        ultimately show ?thesis using True by (auto simp: reports_of_snoc)
      qed
    qed
  qed
qed

lemma latest_inv_fold: "latest_inv msg es (fold (latest_step msg) es (\<lambda>_. None, \<lambda>_. None))"
proof (induction es rule: rev_induct)
  case Nil
  then show ?case by (simp add: latest_inv_def reports_of_def)
next
  case (snoc e es)
  from latest_inv_step [OF this] show ?case by simp
qed

text \<open>With distinct timestamps the latest entry does not depend on the order.\<close>

lemma is_latest_unique:
  assumes "is_latest es e" and "is_latest es' e'" and "set es = set es'"
    and "inj_on le_timestamp (set es)"
  shows "e = e'"
proof -
  have m: "e \<in> set es" "e' \<in> set es" using assms(1-3) by (auto simp: is_latest_def)
  have "le_timestamp e = le_timestamp e'"
    using is_latest_bound [OF assms(1) m(2)] is_latest_bound [OF assms(2)] m(1) assms(3) by (simp add: antisym)
  with assms(4) m show ?thesis by (auto dest: inj_onD)
qed

lemma latest_reports_spec:
  "(case LatestReports es msg who of
      None \<Rightarrow> who = [] \<or> reports_of msg who es = []
    | Some r \<Rightarrow> who \<noteq> [] \<and> (\<exists>e. is_latest (reports_of msg who es) e \<and> r = le_json e))"
  using latest_inv_fold [of msg es, unfolded latest_inv_def, THEN spec, of who]
  by (auto simp: LatestReports_def split: option.splits)

section \<open>Properties\<close>

lemma latest_reports_order:
  assumes "set es' = set es" and "inj_on le_timestamp (set (reports_of msg who es))"
  shows "LatestReports es' msg who = LatestReports es msg who"
proof -
  have same: "set (reports_of msg who es') = set (reports_of msg who es)"
    using assms(1) by (simp add: reports_of_def)
  then have empty: "reports_of msg who es' = [] \<longleftrightarrow> reports_of msg who es = []"
    by (metis set_empty)
  show ?thesis
  proof (cases "LatestReports es msg who")
    case None
    with latest_reports_spec [of who msg es] latest_reports_spec [of who msg es'] empty show ?thesis
      by (auto split: option.splits)
  next
    case (Some r)
    with latest_reports_spec [of who msg es] obtain e where
      e: "who \<noteq> []" "is_latest (reports_of msg who es) e" "r = le_json e" by auto
    with empty latest_reports_spec [of who msg es'] obtain e' where
      e': "is_latest (reports_of msg who es') e'" "LatestReports es' msg who = Some (le_json e')"
      by (auto split: option.splits)
    with is_latest_unique [OF e(2) e'(1) same [symmetric] assms(2)] e(3) Some show ?thesis by simp
  qed
qed

text \<open>
  C33: a replica's latest report. Whatever the entries and their order, the map has an entry for
  exactly the replicas that reported themselves by name, and the entry is the report with the latest
  timestamp (compared as text), the last one read among those that share it; and when a replica's
  reports all have different timestamps, the order in which the entries arrive does not matter.
\<close>

theorem latest_reports_correct:
  "(case LatestReports es msg who of
      None \<Rightarrow> who = [] \<or> reports_of msg who es = []
    | Some r \<Rightarrow> who \<noteq> [] \<and> (\<exists>a e b. reports_of msg who es = a @ e # b \<and> r = le_json e
        \<and> list_all (\<lambda>x. le_timestamp x \<le> le_timestamp e) a \<and> list_all (\<lambda>x. le_timestamp x < le_timestamp e) b))
   \<and> (set es' = set es \<and> inj_on le_timestamp (set (reports_of msg who es)) \<longrightarrow>
        LatestReports es' msg who = LatestReports es msg who)"
proof (rule conjI [OF _ impI])
  show "case LatestReports es msg who of
      None \<Rightarrow> who = [] \<or> reports_of msg who es = []
    | Some r \<Rightarrow> who \<noteq> [] \<and> (\<exists>a e b. reports_of msg who es = a @ e # b \<and> r = le_json e
        \<and> list_all (\<lambda>x. le_timestamp x \<le> le_timestamp e) a \<and> list_all (\<lambda>x. le_timestamp x < le_timestamp e) b)"
  proof (cases "LatestReports es msg who")
    case (Some r)
    with latest_reports_spec [of who msg es] obtain e a b where
      "who \<noteq> []" "r = le_json e" "reports_of msg who es = a @ e # b"
      "list_all (\<lambda>x. le_timestamp x \<le> le_timestamp e) a" "list_all (\<lambda>x. le_timestamp x < le_timestamp e) b"
      unfolding is_latest_def list_all_iff by auto
    with Some show ?thesis by auto
  qed (use latest_reports_spec [of who msg es] in simp)
qed (use latest_reports_order in blast)

definition demo_entry :: "string \<Rightarrow> string \<Rightarrow> log_entry" where
  "demo_entry ts body =
     \<lparr>le_timestamp = ts, le_text = [], le_json = \<lparr>r_msg = ''pd: MEMBERS'', r_who = ''10.0.0.1'', r_body = body\<rparr>,
      le_level = ''INFO'', le_name = [], le_err = [], le_type = ''cloud_run_worker_pool'', le_labels = []\<rparr>"

lemma latest_reports_correct_witness:
  "LatestReports [demo_entry ''02'' ''new'', demo_entry ''01'' ''old''] ''pd: MEMBERS'' ''10.0.0.1''
     = LatestReports [demo_entry ''01'' ''old'', demo_entry ''02'' ''new''] ''pd: MEMBERS'' ''10.0.0.1''
   \<and> LatestReports [demo_entry ''02'' ''one'', demo_entry ''02'' ''two''] ''pd: MEMBERS'' ''10.0.0.1''
     = Some \<lparr>r_msg = ''pd: MEMBERS'', r_who = ''10.0.0.1'', r_body = ''two''\<rparr>"
proof
  show "LatestReports [demo_entry ''02'' ''new'', demo_entry ''01'' ''old''] ''pd: MEMBERS'' ''10.0.0.1''
     = LatestReports [demo_entry ''01'' ''old'', demo_entry ''02'' ''new''] ''pd: MEMBERS'' ''10.0.0.1''"
    by (rule latest_reports_correct [THEN conjunct2, rule_format])
      (auto simp: demo_entry_def reports_of_def inj_on_def)
  show "LatestReports [demo_entry ''02'' ''one'', demo_entry ''02'' ''two''] ''pd: MEMBERS'' ''10.0.0.1''
     = Some \<lparr>r_msg = ''pd: MEMBERS'', r_who = ''10.0.0.1'', r_body = ''two''\<rparr>"
    by (simp add: LatestReports_def latest_step_def demo_entry_def Let_def)
qed

text \<open>
  A pool is ready exactly when its status describes its current spec, the revision it created
  is the one that is ready, and the first Ready condition is True.
\<close>

lemma pool_ready_iff:
  "PoolReady name r = None \<longleftrightarrow>
     (\<exists>p c. r = Inr p \<and> pl_observed p = pl_generation p \<and> pl_created p = pl_ready p
        \<and> find (\<lambda>c. pc_type c = ''Ready'') (pl_conditions p) = Some c \<and> pc_status c = ''True'')"
  by (auto simp: PoolReady_def split: sum.splits option.splits if_splits)

end
