(* ===== verification/E2E_Harness.thy ===== *)
theory E2E_Harness
  imports Go_Search
begin

text \<open>
  The plumbing of the end-to-end suites (e2e/internal/harness/harness.go, e2e/tikv/aws/taskid.go):
  the writer that logs a child's output line by line, the reader of terraform's outputs and the
  retry loop. Processes, the environment and JSON are parameters; a \<^verbatim>\<open>Fatalf\<close> is an error value.
\<close>

section \<open>The line writer\<close>

record line_writer =
  lw_prefix :: string
  lw_buf :: string
  lw_log :: "string list"

text \<open>The complete lines of the buffer, in order, and the partial line that stays.\<close>

function read_lines :: "string \<Rightarrow> string list \<times> string" where
  "read_lines buf =
     (case cut_at (CHR 0x0A) buf of
        None \<Rightarrow> ([], buf)
      | Some (line, rest) \<Rightarrow> (case read_lines rest of (ls, r) \<Rightarrow> ((line @ [CHR 0x0A]) # ls, r)))"
  by pat_completeness auto
termination
  by (relation "measure length") (auto dest: cut_at_SomeD)

declare read_lines.simps [simp del]

definition log_line :: "string \<Rightarrow> string \<Rightarrow> string" where
  "log_line pre line = pre @ trim_right (\<lambda>c. c = CHR 0x0D \<or> c = CHR 0x0A) line"

definition lw_write :: "string \<Rightarrow> line_writer \<Rightarrow> line_writer" where
  "lw_write p w =
     (case read_lines (lw_buf w @ p) of
        (ls, rest) \<Rightarrow> w\<lparr>lw_buf := rest, lw_log := lw_log w @ map (log_line (lw_prefix w)) ls\<rparr>)"

definition lw_flush :: "line_writer \<Rightarrow> line_writer" where
  "lw_flush w =
     (let rest = trim_space (lw_buf w)
      in w\<lparr>lw_buf := [], lw_log := lw_log w @ (if rest = [] then [] else [lw_prefix w @ rest])\<rparr>)"

text \<open>
  \<^verbatim>\<open>Run\<close>: \<open>exec\<close> is the child, given its name and arguments: the writes that reach its output, which
  is standard error too, and how it ends. The result and what the test logged.
\<close>

definition exec_run ::
  "(string \<Rightarrow> string list \<Rightarrow> string list \<times> go_error option) \<Rightarrow> string \<Rightarrow> string list \<Rightarrow> go_error option \<times> string list" where
  "exec_run exec name args =
     (case exec name args of
        (writes, res) \<Rightarrow>
          (res, (''$ '' @ name @ '' '' @ join_with '' '' args)
             # lw_log (lw_flush (fold lw_write writes \<lparr>lw_prefix = ''  | '', lw_buf = [], lw_log = []\<rparr>))))"

definition MakeTarget ::
  "(string \<Rightarrow> string list \<Rightarrow> string list \<times> go_error option) \<Rightarrow> string \<Rightarrow> go_error option \<times> string list" where
  "MakeTarget exec target = exec_run exec ''make'' [target]"

section \<open>Tools and terraform outputs\<close>

text \<open>The first tool that is not on the path makes the test skip.\<close>

definition RequireTools :: "(string \<Rightarrow> bool) \<Rightarrow> string list \<Rightarrow> string option" where
  "RequireTools look_path names = find (\<lambda>n. \<not> look_path n) names"

definition ReadTerraformOutputs ::
  "(string \<Rightarrow> string go_result) \<Rightarrow> (string \<Rightarrow> ((string \<times> string) list) go_result) \<Rightarrow> string
    \<Rightarrow> ((string \<times> string) list) go_result" where
  "ReadTerraformOutputs run unmarshal env_terraform =
     (case run (if env_terraform = [] then ''terraform'' else env_terraform) of
        Inl e \<Rightarrow> Inl (Wrapf ''terraform output: %v (has `make up` run?)'' [] e)
      | Inr raw \<Rightarrow>
          (case unmarshal raw of
             Inl e \<Rightarrow> Inl (Wrapf ''parse terraform output: %v'' [] e)
           | Inr out \<Rightarrow> if out = [] then Inl (Errorf ''terraform reported no outputs; the stack is not provisioned'' [])
                      else Inr out))"

definition tf_decode :: "(string \<Rightarrow> 'v go_result) \<Rightarrow> (string \<times> string) list \<Rightarrow> string \<Rightarrow> 'v go_result" where
  "tf_decode unmarshal outs key =
     (case map_of outs key of
        None \<Rightarrow> Inl (Errorf ''terraform output %q is missing'' [key])
      | Some raw \<Rightarrow> (case unmarshal raw of Inl e \<Rightarrow> Inl (Wrapf ''terraform output %q: %v'' [key] e) | Inr v \<Rightarrow> Inr v))"

definition shortTaskID :: "string \<Rightarrow> string" where
  "shortTaskID arn = (case rcut_at (CHR ''/'') arn of Some (_, i) \<Rightarrow> i | None \<Rightarrow> arn)"

section \<open>Waiting\<close>

definition ErrTerminal :: go_error where
  "ErrTerminal = Errorf ''not retryable'' []"

datatype ev_outcome = EvOk | EvGaveUp go_error | EvTimedOut go_error

text \<open>
  \<open>now\<close> is the time since the start; an attempt is how long the call took and what it returned.
  The wait ends with the interval or with the deadline. \<open>None\<close>: still retrying when the attempts
  run out. The numbers of the attempts whose failure is logged come with the outcome.
\<close>

fun Eventually ::
  "duration \<Rightarrow> duration \<Rightarrow> duration \<Rightarrow> nat \<Rightarrow> (duration \<times> go_error option) list \<Rightarrow> ev_outcome option \<times> nat list" where
  "Eventually timeout interval now attempt [] = (None, [])"
| "Eventually timeout interval now attempt ((d, r) # as) =
     (case r of
        None \<Rightarrow> (Some EvOk, [])
      | Some e \<Rightarrow>
          if errors_is e ErrTerminal then (Some (EvGaveUp e), [])
          else if timeout \<le> now + d then (Some (EvTimedOut e), [])
          else case Eventually timeout interval (min (now + d + interval) timeout) (Suc attempt) as of
                 (out, logged) \<Rightarrow> (out, if attempt mod 5 = 1 then attempt # logged else logged))"

section \<open>Lemmas\<close>

lemma split_on_cut: "split_on sep s = (case cut_at sep s of None \<Rightarrow> [s] | Some (a, b) \<Rightarrow> a # split_on sep b)"
proof (cases "cut_at sep s")
  case None
  then have "sep \<notin> set s" by (simp add: cut_at_None_iff)
  with None show ?thesis by (simp add: split_on_no_sep)
next
  case (Some ab)
  obtain a b where "ab = (a, b)" by (cases ab)
  with Some cut_at_SomeD [of sep s a b] show ?thesis by (simp add: split_on_append)
qed

lemma read_lines_split:
  "read_lines s = (map (\<lambda>l. l @ [CHR 0x0A]) (butlast (split_on (CHR 0x0A) s)), last (split_on (CHR 0x0A) s))"
proof (induction s rule: read_lines.induct)
  case (1 s)
  show ?case
  proof (cases "cut_at (CHR 0x0A) s")
    case None
    then show ?thesis by (simp add: read_lines.simps [of s] split_on_cut [of _ s])
  next
    case (Some ab)
    obtain a b where "ab = (a, b)" by (cases ab)
    with Some 1 show ?thesis by (simp add: read_lines.simps [of s] split_on_cut [of _ s] split_beta)
  qed
qed

lemma split_on_app: "split_on sep (s @ t) = butlast (split_on sep s) @ split_on sep (last (split_on sep s) @ t)"
proof (induction s)
  case (Cons c s)
  obtain p ps where ps: "split_on sep s = p # ps" by (cases "split_on sep s") auto
  show ?case
  proof (cases ps)
    case Nil
    with Cons ps show ?thesis by (auto split: list.splits)
  next
    case (Cons q qs)
    with Cons.IH ps show ?thesis by (auto split: list.splits)
  qed
qed simp

text \<open>What the writer has logged and kept after the text \<open>s\<close>, however it arrived.\<close>

definition lw_after :: "string \<Rightarrow> string \<Rightarrow> line_writer" where
  "lw_after pre s =
     \<lparr>lw_prefix = pre, lw_buf = last (split_on (CHR 0x0A) s),
      lw_log = map (\<lambda>l. log_line pre (l @ [CHR 0x0A])) (butlast (split_on (CHR 0x0A) s))\<rparr>"

lemma lw_write_after: "lw_write p (lw_after pre s) = lw_after pre (s @ p)"
  by (simp add: lw_write_def lw_after_def read_lines_split split_on_app [of _ s p] butlast_append)

lemma lw_writes_after: "fold lw_write ps (lw_after pre s) = lw_after pre (s @ concat ps)"
  by (induction ps arbitrary: s) (simp_all add: lw_write_after)

lemma log_line_LF: "log_line pre (l @ [CHR 0x0A]) = log_line pre l"
  by (simp add: log_line_def trim_right_def)

lemma eventually_bound:
  assumes "0 < interval" and "\<forall>(d, r) \<in> set as. 0 \<le> d" and "now \<le> timeout"
    and "timeout - now + interval \<le> int (length as) * interval"
  shows "fst (Eventually timeout interval now attempt as) \<noteq> None"
  using assms(2-4)
proof (induction as arbitrary: now attempt)
  case Nil
  with assms(1) show ?case by simp
next
  case (Cons a as)
  obtain d r where a: "a = (d, r)" by (cases a)
  show ?case
  proof (cases "r = None \<or> errors_is (the r) ErrTerminal \<or> timeout \<le> now + d")
    case True
    with a show ?thesis by (auto split: option.splits)
  next
    case False
    let ?now = "min (now + d + interval) timeout"
    have d: "0 \<le> d" using Cons.prems(1) a by auto
    have long: "timeout - now \<le> int (length as) * interval" using Cons.prems(3) by (simp add: algebra_simps)
    then have "as \<noteq> []" using False d by auto
    then have "interval \<le> int (length as) * interval"
      using assms(1) mult_right_mono [of 1 "int (length as)" interval] by (cases as) auto
    then have "timeout - ?now + interval \<le> int (length as) * interval" using long d by (simp add: min_def)
    with Cons.IH [of ?now "Suc attempt"] Cons.prems(1)
    have "fst (Eventually timeout interval ?now (Suc attempt) as) \<noteq> None" by simp
    with False a show ?thesis by (auto split: option.splits prod.splits)
  qed
qed

lemma eventually_result:
  "Eventually timeout interval now attempt as = (Some out, logged) \<Longrightarrow>
   \<exists>pre d r post. as = pre @ (d, r) # post \<and> (\<forall>(d, r) \<in> set pre. \<exists>e. r = Some e \<and> \<not> errors_is e ErrTerminal)
     \<and> (case out of EvOk \<Rightarrow> r = None | EvGaveUp e \<Rightarrow> r = Some e \<and> errors_is e ErrTerminal
        | EvTimedOut e \<Rightarrow> r = Some e \<and> \<not> errors_is e ErrTerminal)"
proof (induction as arbitrary: now attempt logged)
  case (Cons a as)
  obtain d r where a: "a = (d, r)" by (cases a)
  show ?case
  proof (cases "r = None \<or> errors_is (the r) ErrTerminal \<or> timeout \<le> now + d")
    case True
    with Cons.prems a show ?thesis
      by (intro exI [of _ "[]"] exI [of _ d] exI [of _ r] exI [of _ as]) (auto split: option.splits if_splits)
  next
    case False
    with Cons.prems a obtain logged' where
      "Eventually timeout interval (min (now + d + interval) timeout) (Suc attempt) as = (Some out, logged')"
      by (auto split: option.splits if_splits prod.splits)
    from Cons.IH [OF this] obtain pre d' r' post where IH: "as = pre @ (d', r') # post"
      "\<forall>(d, r) \<in> set pre. \<exists>e. r = Some e \<and> \<not> errors_is e ErrTerminal"
      "case out of EvOk \<Rightarrow> r' = None | EvGaveUp e \<Rightarrow> r' = Some e \<and> errors_is e ErrTerminal
        | EvTimedOut e \<Rightarrow> r' = Some e \<and> \<not> errors_is e ErrTerminal" by blast
    with a False show ?thesis
      by (intro exI [of _ "a # pre"] exI [of _ d'] exI [of _ r'] exI [of _ post]) auto
  qed
qed simp

section \<open>Properties\<close>

text \<open>
  Output reaches the log whole. However a child's output is cut into writes, after the
  flush the log holds exactly its lines, each with the prefix and without its line ending, and
  then the unfinished last line if it is not blank.
\<close>

theorem line_writer_chunking:
  "lw_log (lw_flush (fold lw_write ps \<lparr>lw_prefix = pre, lw_buf = [], lw_log = []\<rparr>)) =
     (let parts = split_on (CHR 0x0A) (concat ps); rest = trim_space (last parts)
      in map (log_line pre) (butlast parts) @ (if rest = [] then [] else [pre @ rest]))"
proof -
  have "\<lparr>lw_prefix = pre, lw_buf = [], lw_log = []\<rparr> = lw_after pre []" by (simp add: lw_after_def)
  then show ?thesis
    by (simp add: lw_writes_after [of ps pre "[]"]) (simp add: lw_flush_def lw_after_def log_line_LF Let_def)
qed

text \<open>
  Waiting is bounded. With a positive interval and calls that return, the retry loop has
  returned after at most timeout / interval + 2 attempts; it returns success exactly on a call
  that succeeded, gives up exactly on a terminal error and otherwise reports the last failure.
\<close>

theorem eventually_returns:
  assumes "0 < interval" and "0 \<le> timeout" and "list_all (\<lambda>(d, r). 0 \<le> d) as"
    and "timeout div interval + 2 \<le> int (length as)"
  shows "\<exists>out logged pre d r post. Eventually timeout interval 0 1 as = (Some out, logged) \<and> as = pre @ (d, r) # post
     \<and> list_all (\<lambda>(d, r). case r of None \<Rightarrow> False | Some e \<Rightarrow> \<not> errors_is e ErrTerminal) pre
     \<and> (case out of EvOk \<Rightarrow> r = None | EvGaveUp e \<Rightarrow> r = Some e \<and> errors_is e ErrTerminal
        | EvTimedOut e \<Rightarrow> r = Some e \<and> \<not> errors_is e ErrTerminal)"
proof -
  have "timeout < (timeout div interval + 1) * interval"
    using pos_mod_bound [OF assms(1), of timeout] div_mult_mod_eq [of timeout interval]
    by (simp only: distrib_right mult_1)
  moreover have "(timeout div interval + 2) * interval \<le> int (length as) * interval"
    using assms(1,4) by (intro mult_right_mono) auto
  ultimately have "timeout - 0 + interval \<le> int (length as) * interval" by (simp add: algebra_simps)
  with eventually_bound [of interval as 0 timeout 1] assms(1-3)
  obtain out logged where "Eventually timeout interval 0 1 as = (Some out, logged)"
    by (cases "Eventually timeout interval 0 1 as") (auto simp: list_all_iff)
  with eventually_result [OF this] show ?thesis by (fastforce simp: list_all_iff split: option.splits)
qed

lemma eventually_returns_witness:
  "fst (Eventually (2 * second) second 0 1 (replicate 4 (0, Some CtxCanceled))) \<noteq> None"
proof -
  have "list_all (\<lambda>(d, r). 0 \<le> d) (replicate 4 (0::int, Some CtxCanceled))" by (simp add: list_all_iff)
  moreover have "(2 * second) div second + 2 \<le> int (length (replicate 4 (0::int, Some CtxCanceled)))" by simp
  ultimately obtain out logged where "Eventually (2 * second) second 0 1 (replicate 4 (0, Some CtxCanceled)) = (Some out, logged)"
    using eventually_returns [of second "2 * second" "replicate 4 (0, Some CtxCanceled)"] by fastforce
  then show ?thesis by simp
qed

end
