(* ===== verification/Spec2Isabelle.thy ===== *)
theory Spec2Isabelle
  imports Mem_KV Dynamo_KV GCS_KV GCS_Race GCS_Lock Firestore_KV Conformance Provisioning Janitor
    Grpc_Probe Workload_State Provider_Types Starlark_Convert Supervisor Spawn Promise Async
    Discovery Flags Registry Identity Cloud_Providers Harness Builtins Lease_Protocol Tasks Engine_Runs Endpoints
    Control If_Addr Help Predeclared Execout Cloud_Run_Logs E2E_Harness
begin

text \<open>
  \<^bold>\<open>A verification library for muster.\<close> muster starts a container's real workload: it runs a Starlark
  script whose main() decides, with the help of service discovery and a shared key-value store,
  what to run, supervises that process, and answers health checks about it. The program is Go,
  under src/; this development translates its core into HOL and proves what its parts promise.

  \<^bold>\<open>The parts and how they meet.\<close> The command line and the environment (flags.go, envflags.go) select
  a provider from the registry (internal/provider/registry.go). The provider (aws, gcp or the
  in-process one) opens clients and hands out capabilities: an identity, a discoverer, a registrar,
  a fleet and a store with conditional writes. The engine (starlark_engine.go) exposes them to the
  script as builtins (starlark_builtins.go, async.go, spawn.go) whose asynchronous results are
  promises (promise.go). spawn() registers a workload and starts its supervisor; the harness
  (main.go) waits for the promise of main(), passes a shutdown on, and serves the workloads' state
  on a control socket that the -health-probe client reads.

  \<^bold>\<open>Theories and sources.\<close>

  \<^item> \<open>Muster_Prelude\<close>: Go errors with \<^verbatim>\<open>errors.Is\<close>, durations and instants. \<open>Go_Strings\<close>, \<open>Go_Search\<close> and
    \<open>Net_IP\<close>: the functions of Go's strconv, strings, net and net/netip packages the sources call, with
    their round trips.
  \<^item> \<open>KV_Spec\<close>: the contract of internal/provider/kv.go. An abstract store maps keys to leases; \<open>kv_spec\<close>
    is what each of the five operations answers and leaves. The locale \<open>kv_contract\<close> is the promise of a
    backend (answer and leases as \<open>kv_spec\<close> says, or an error that leaves the leases alone or done),
    \<open>kv_reliable\<close> that of one that answers; protection of live leases and seed election are proved in them once.
  \<^item> \<open>Mem_KV\<close> (memkv/memkv.go), \<open>Dynamo_KV\<close> (aws/kv.go), \<open>GCS_KV\<close> (gcp/kv.go), \<open>Firestore_KV\<close>
    (gcp/firestore.go): every operation of the four stores, and that each refines the contract: the in-process
    store exactly, the Google stores with deadlines in whole milliseconds (\<open>ms_rule\<close>) but for a positive ttl below
    one, DynamoDB in whole seconds (\<open>seconds_rule\<close>) but for a put in the very second of a deadline. The services
    are parameters: \<open>dynamodb\<close>, \<open>gcs_service\<close> and \<open>firestore\<close> are locales of their documented behaviour,
    interpreted on reference services, and the contracts are \<^theory_text>\<open>sublocale\<close>s of them.
  \<^item> \<open>GCS_Race\<close>: concurrent put-if-absent on Cloud Storage with requests interleaved at will: at most one
    caller wins, and with no failure exactly one. \<open>Lease_Protocol\<close>: replicas that use a lease as a lock,
    as a step relation; never two holders at one instant. \<open>GCS_Lock\<close>: the same on Cloud Storage, request by request
    and with clocks that disagree by up to \<open>\<delta>\<close>. \<open>Conformance\<close>: the suite of kvtest/conformance.go
    as data, passed by all four stores. \<open>Provisioning\<close>: \<^verbatim>\<open>Provision\<close> of both cloud stores, alone and racing;
    \<open>Janitor\<close>: what the services then delete by themselves, and that this is invisible but for permanent keys.
  \<^item> \<open>Provider_Types\<close>, \<open>Registry\<close>, \<open>Identity\<close>, \<open>Cloud_Providers\<close>, \<open>Discovery\<close>: the provider layer
    (internal/provider and below): selection and detection, the metadata readers, the memoised identity
    from which every store takes one lease owner, Cloud Map and Service Directory. \<open>Endpoints\<close>: where the SDK
    clients send their requests. \<open>Help\<close> and \<open>Flags\<close>: the
    command line, its environment defaults and the text of -provider-help.
  \<^item> \<open>Starlark_Convert\<close> (starlark_convert.go and \<^verbatim>\<open>parseResolveResult\<close>), \<open>Builtins\<close>, \<open>Predeclared\<close> and \<open>If_Addr\<close>
    (starlark_builtins.go): Starlark values, the conversions, the builtins and the environment a script sees.
  \<^item> \<open>Promise\<close> (promise.go and the task wrapper of starlark_engine.go), \<open>Async\<close> and \<open>Tasks\<close> (async.go): one promise
    as a state machine; the combinators and the polling loop; a heap of promises under a step relation
    in which builtins, tasks and supervisors interleave, and any_true() racing in it with the cancel functions it
    calls. \<open>Engine\<close> and \<open>Engine_Runs\<close> (starlark_engine.go): the same tasks
    goroutine by goroutine, with the tree of contexts, the watchdog that interrupts a call and the report of lost
    failures: that a cancelled task ends, what its promise then says and what is reported.
  \<^item> \<open>Supervisor\<close> and \<open>Spawn\<close> (spawn.go, config.go): the arguments of spawn(), and the loop that resolves,
    starts, watches, stops and restarts the process, with the actions it takes as a trace.
  \<^item> \<open>Workload_State\<close>, \<open>Control\<close>, \<open>Grpc_Probe\<close>, \<open>Harness\<close> (main.go, capability.go): the workloads' registry and
    its snapshot, the control socket and the probes, the gRPC health check byte by byte, and the harness
    from opening the provider to the exit code.
  \<^item> \<open>Execout\<close>, \<open>Cloud_Run_Logs\<close>, \<open>E2E_Harness\<close> (e2e/internal, e2e/tikv/aws/taskid.go): the readers and the
    plumbing of the end-to-end suites. The script that \<open>Execout\<close> builds is run by a shell that is a parameter (the
    locale \<open>posix_shell\<close>), interpreted on a small executable one.

  \<^bold>\<open>Conventions.\<close> A Go struct is a record, a method a function from state to result and state, an error
  a value of \<open>go_error\<close> on the left of a sum, a panic or an endless loop a branch of its own. Definitions keep the
  names of the sources where HOL allows. What is outside the repository (SDK clients, the network, JSON,
  the Starlark interpreter, the backoff package, the host) is an argument; where a theorem relies on how it
  behaves, the behaviour is a hypothesis or a locale, and a reference instance shows that it can hold.
  Times are integers in nanoseconds. Go's int is an integer reduced to 64 bits where the code can leave that range
  (\<open>wrap64\<close>); bytes, varints and addresses are words.

  \<^bold>\<open>Fuel and bounds.\<close> Loops that wait on the world take the list of what they will see (attempts, polls,
  events); \<open>None\<close> says that the list ended first. \<open>supervisor_gives_up\<close>, \<open>poll_terminates\<close>, \<open>eventually_returns\<close> and
  \<open>harness_shutdown\<close> say how long a list is always enough; \<open>cancel_ends_task\<close> is about infinite schedules that are fair; \<open>gcs_race_elects\<close> needs seven turns for each
  racer because put-if-absent has at most seven nodes on a path. The decoder of the gRPC reply is a
  \<^theory_text>\<open>partial_function\<close>, because it does not always return: \<open>parse_terminates_safely\<close> gives the frames on which it
  does, \<open>parse_hostile_frames\<close> two on which it does not. The round trips bound lengths where the code stores them in 32 bits.

  \<^bold>\<open>Flaws shown.\<close> The properties of kind error prove that the code departs from its comments or documents: the hostile
  gRPC reply, the unhealthy mark that sticks, the endpoint left in another namespace, the provisioning race
  and the lifecycle rule that deletes permanent keys; \<open>randint_range\<close> has the range that crashes the
  harness. Lemmas show more: \<open>health_probe_ignores_down\<close>, \<open>doIt_ignores_socket\<close> (a control socket that fails goes
  unnoticed), \<open>shutdown_reason_ambiguous\<close> (a shutdown reported as a script's own stop), \<open>signalled_task_reported\<close> (a task
  stopped on purpose reported as failed), \<open>late_cancel_raises\<close>, \<open>health_restart_ignores_respawn\<close>, \<open>end_in_output_rejected\<close>,
  \<open>fraction_lost\<close> and \<open>dynamo_boundary_second\<close> (DynamoDB's whole seconds), \<open>gcs_submillisecond_is_permanent\<close> and
  \<open>firestore_submillisecond_is_permanent\<close> (a lease that never ends).

  \<^bold>\<open>Not modelled.\<close> Floating point beyond rationals; the Starlark interpreter itself, which is a parameter that
  returns from a cancelled call; the text of log lines other than those the properties speak of; the
  constructors of SDK clients beyond the options they get and whether they succeed; how signals are delivered to the
  process; the Go memory model: operations under a mutex are atomic steps. The race on
  Cloud Storage is about one key and one operation. \<open>Lease_Protocol\<close> takes store operations as atomic and replicas'
  clocks as one; \<open>GCS_Lock\<close> needs neither.

  This theory imports all others and holds the results that span the most of them: what the
  harness returns for a workload that spawn() started, and what a shutdown does to its supervisor.
\<close>

section \<open>From spawn() to the exit of the harness\<close>

text \<open>A promise that only its supervisor can settle, and the harness events that leave it so.\<close>

definition supervised :: "promise \<Rightarrow> bool" where
  "supervised p \<longleftrightarrow> p_signalFn p \<and> \<not> p_cancellable p \<and> p_signallable p \<and> \<not> p_settled p"

definition waiting_event :: "h_event \<Rightarrow> bool" where
  "waiting_event ev =
     (case ev of HHard \<Rightarrow> False | HPromise (EvTask _) \<Rightarrow> False | HPromise (EvSupervisor _) \<Rightarrow> False | _ \<Rightarrow> True)"

lemma supervised_step:
  assumes "supervised (hr_p h)" and "waiting_event ev"
  shows "fst (h_step ev h) = None \<and> supervised (hr_p (snd (h_step ev h)))"
proof (cases ev)
  case (HPromise e)
  have "p_shape (p_step e (hr_p h)) = p_shape (hr_p h)" by (rule p_step_shape)
  moreover have "\<not> p_settled (p_step e (hr_p h))"
    using assms HPromise spawn_step [of "hr_p h" e]
    by (auto simp: supervised_def waiting_event_def split: p_event.splits)
  ultimately show ?thesis
    using assms(1) HPromise by (simp add: h_step_def supervised_def p_shape_def)
qed (use assms in \<open>auto simp: h_step_def supervised_def waiting_event_def doSignal_def\<close>)

lemma supervised_loop:
  assumes "supervised (hr_p h)" and "list_all waiting_event evs"
  shows "fst (h_loop evs h) = None \<and> supervised (hr_p (snd (h_loop evs h)))"
  using assms
proof (induction evs arbitrary: h)
  case (Cons ev evs)
  obtain x h1 where step: "h_step ev h = (x, h1)" by (cases "h_step ev h")
  with supervised_step [OF Cons.prems(1), of ev] Cons.IH [of h1] Cons.prems(2) show ?case by simp
qed simp

lemma settled_result:
  assumes "\<not> p_settled (hr_p h)"
  shows "fst (h_loop (HPromise (EvSupervisor (map_sum id exit_value res)) # HDone # post) h)
    = Some (case res of Inl e \<Rightarrow> Some e | Inr _ \<Rightarrow> None)"
  using assms by (cases res) (simp_all add: h_step_def p_step_def reject_def resolve_def settle_def)

text \<open>
  A shutdown can be reported as a script's own stop. The supervisor's context ends with the
  harness's, and the harness then signals the promise, which sets the flag that is to tell the
  two apart: a teardown that reads the flag after that says "signalled".
\<close>

lemma shutdown_reason_ambiguous:
  assumes "spawn inexact order a st = Inr (sv, i, p, st')" and "a_event att = CtxDone"
    and "a_stop att = sf_stop (spawn_signalFn (hr_effects (snd (h_step HShutdown (h_start p)))) \<lparr>sf_stop = False, sf_ctx_done = True\<rparr>)"
  shows "\<exists>x v acts. sv_running bo_next bo_reset sv att pid vs = (Finished (Inr x), v, acts) \<and> ex_reason x = ''signalled''"
proof -
  have "p = workload_promise" using assms(1) by (auto simp: spawn_def Let_def split: sum.splits prod.splits)
  then have "a_stop att"
    using assms(3) by (simp add: h_step_def h_start_def doSignal_def workload_promise_def newPromise_def
        spawn_signalFn_def requestStop_def)
  with assms(2) show ?thesis by (simp add: sv_running_def sv_selected_def Let_def stopReason_def exitStruct_def)
qed

text \<open>
  C2: the harness reports what became of the workload. For a script that loads and whose main()
  returns the promise of a spawn(): whatever the script does with that promise, whether or not a
  shutdown came and however the control socket fares, as long as the shutdown's deadline has not
  passed, the harness waits for the supervisor; when the supervisor's loop returns, the harness
  returns the loop's error, or none when the workload ended well, no process of the workload is
  left running, and the provider is closed after the control socket was stopped and waited for.
\<close>

theorem harness_reports_workload:
  assumes "spawn inexact order a st = Inr (sv, i, p, st')"
    and "sv_loop bo_next bo_reset sv atts (sv_start bo_reset b (h_workloads st' ! i)) = (Some res, v, acts)"
    and "path \<noteq> []" and "loadScript path load = Inr f" and "promises n = p"
    and "list_all waiting_event pre"
  shows "fst (doIt path socket (Inr x) load (Inr (SPromise n)) promises pre) = None
    \<and> (\<exists>ras. doIt path socket (Inr x) load (Inr (SPromise n)) promises
          (pre @ HPromise (EvSupervisor (map_sum id exit_value res)) # HDone # post)
        = (Some (case res of Inl e \<Rightarrow> Some e | Inr _ \<Rightarrow> None), ras) \<and> torn_down ras)
    \<and> (\<exists>ph. sv_run sv PIdle acts = Some ph \<and> sv_resting ph)"
proof -
  have "p = workload_promise" using assms(1) by (auto simp: spawn_def Let_def split: sum.splits prod.splits)
  then have "supervised (hr_p (h_start p))"
    by (simp add: h_start_def supervised_def workload_promise_def newPromise_def)
  from supervised_loop [OF this assms(6)] obtain h where pre: "h_loop pre (h_start p) = (None, h)" "supervised (hr_p h)"
    by (cases "h_loop pre (h_start p)") auto
  note waits = doIt_waits [OF assms(3,4), of socket x n promises, unfolded assms(5)]
  let ?evs = "pre @ HPromise (EvSupervisor (map_sum id exit_value res)) # HDone # post"
  obtain r ras where run: "doIt path socket (Inr x) load (Inr (SPromise n)) promises ?evs = (r, ras)" by fastforce
  then have r: "r = Some (case res of Inl e \<Rightarrow> Some e | Inr _ \<Rightarrow> None)"
    using waits [of ?evs] settled_result [of h res post] pre by (simp add: h_loop_append supervised_def)
  then have "torn_down ras" using doIt_torn_down run by fast
  with r run pre sv_loop_safe [OF assms(2)] waits [of pre] show ?thesis by simp
qed

lemma demo_workload:
  "\<exists>sv i p st'. spawn (\<lambda>i. i) callback_names demo_args (new_harness 0) = Inr (sv, i, p, st')
     \<and> (\<exists>v acts. sv_loop (\<lambda>u. (Some second, u)) id sv [demo_attempt\<lparr>a_resolve := Inl CtxCanceled\<rparr>]
           (sv_start id () (h_workloads st' ! i)) = (Some (Inl (Wrapf ''resolve failed: %w'' [] CtxCanceled)), v, acts))"
proof -
  have "to_lower ''Fail'' = ''fail''" by code_simp
  then show ?thesis
    by (simp add: spawn_def spawn_config_def check_callbacks_def callback_names_def demo_args_def set_durations_def
        set_duration_def spawn_base_config_def or_else_def defaultSpawnConfig_def check_config_def
        sv_attempt_def demo_attempt_def Let_def split_beta)
qed

definition demo_socket :: "(rm_result \<times> go_error option \<times> serve_end) option" where
  "demo_socket = Some (NotExist, None, ServeStopped)"

lemma harness_reports_workload_witness:
  "\<exists>sv i p st' ras. spawn (\<lambda>i. i) callback_names demo_args (new_harness 0) = Inr (sv, i, p, st')
     \<and> doIt ''cluster.star'' demo_socket (Inr ((), ())) (ScriptGlobals [(''main'', SFunction 0)]) (Inr (SPromise 0)) (\<lambda>_. p)
         [HShutdown, HDone, HPromise (EvSupervisor (Inl (Wrapf ''resolve failed: %w'' [] CtxCanceled))), HDone]
       = (Some (Some (Wrapf ''resolve failed: %w'' [] CtxCanceled)), ras) \<and> torn_down ras"
proof -
  obtain sv i p st' v acts where
    s: "spawn (\<lambda>i. i) callback_names demo_args (new_harness 0) = Inr (sv, i, p, st')" and
    l: "sv_loop (\<lambda>u. (Some second, u)) id sv [demo_attempt\<lparr>a_resolve := Inl CtxCanceled\<rparr>]
           (sv_start id () (h_workloads st' ! i)) = (Some (Inl (Wrapf ''resolve failed: %w'' [] CtxCanceled)), v, acts)"
    using demo_workload by blast
  have w: "list_all waiting_event [HShutdown, HDone]" by (simp add: waiting_event_def)
  have f: "loadScript ''cluster.star'' (ScriptGlobals [(''main'', SFunction 0)]) = Inr 0" by (simp add: loadScript_def)
  from harness_reports_workload [OF s l _ f _ w, of "\<lambda>_. p" 0 demo_socket "((), ())" "[]"] obtain ras where
    "doIt ''cluster.star'' demo_socket (Inr ((), ())) (ScriptGlobals [(''main'', SFunction 0)]) (Inr (SPromise 0)) (\<lambda>_. p)
         [HShutdown, HDone, HPromise (EvSupervisor (Inl (Wrapf ''resolve failed: %w'' [] CtxCanceled))), HDone]
       = (Some (Some (Wrapf ''resolve failed: %w'' [] CtxCanceled)), ras)" "torn_down ras" by auto
  with s show ?thesis by blast
qed

end
